(* ===== verification/Prelude.thy ===== *)
theory Prelude
  imports Main "HOL-Library.Word" "HOL-Library.Monad_Syntax"
begin

text \<open>
  What every theory of the development shares: the names of the machine's types, the
  collections the proofs are run with, and the generic facts about words, lists and
  options that more than one component needs.

  The kernel is built by \<^verbatim>\<open>gcc -m32 -ffreestanding\<close> without optimisation (Makefile), so
  \<^verbatim>\<open>int\<close>, \<^verbatim>\<open>long\<close> and pointers are 32 bits wide and \<^verbatim>\<open>char\<close> is a signed byte. A value whose
  arithmetic can wrap is a word (\<open>u32\<close>, \<open>u16\<close>, \<open>u8\<close>); a C \<^verbatim>\<open>int\<close> that an invariant keeps
  in a small range is an \<open>int\<close>; a C string is a HOL \<open>string\<close> without its terminator.
  A result of type \<open>'a option\<close> is \<open>None\<close> where the C code has no defined result: it
  reads or writes outside every object, follows a null pointer, divides by zero, or never
  returns.
\<close>

unbundle bit_operations_syntax

section \<open>Names of the machine types\<close>

type_synonym u8 = "8 word"
type_synonym u16 = "16 word"
type_synonym u32 = "32 word"
type_synonym byte = char
type_synonym addr = nat
type_synonym mem = "addr \<rightharpoonup> byte"

abbreviation NUL :: byte where
  "NUL \<equiv> CHR 0x00"

abbreviation (input) NULL :: addr where
  "NULL \<equiv> 0"

named_theorems mem_simps \<open>reading a memory after a write, blocks and C strings\<close>
named_theorems exec_simps \<open>equations that run the C loops on concrete memories\<close>
named_theorems inv_intros \<open>preservation of the components' invariants\<close>

section \<open>C characters\<close>

text \<open>The value of a byte read through an \<^verbatim>\<open>unsigned char*\<close> and through a (signed) \<^verbatim>\<open>char*\<close>.\<close>

definition uchar :: "byte \<Rightarrow> int" where
  "uchar c = of_char c"

definition schar :: "byte \<Rightarrow> int" where
  "schar c = (if (of_char c :: int) < 128 then of_char c else of_char c - 256)"

text \<open>Conversion of an \<^verbatim>\<open>int\<close> to a byte, as an assignment to a \<^verbatim>\<open>char\<close> does it.\<close>

definition to_char :: "int \<Rightarrow> byte" where
  "to_char v = char_of v"

lemma of_char_int_less: "(of_char c :: int) < 256"
  by (metis of_char_mod_256 pos_mod_bound zero_less_numeral)

lemma of_char_int_nonneg: "0 \<le> (of_char c :: int)"
  by (metis of_char_mod_256 pos_mod_sign zero_less_numeral)

lemma uchar_range: "0 \<le> uchar c \<and> uchar c < 256"
  by (simp add: uchar_def of_char_int_less of_char_int_nonneg)

lemma uchar_inject [simp]: "uchar c = uchar d \<longleftrightarrow> c = d"
  by (simp add: uchar_def)

lemma uchar_NUL [simp]: "uchar NUL = 0"
  by (simp add: uchar_def)

lemma uchar_eq_0 [simp]: "uchar c = 0 \<longleftrightarrow> c = NUL"
  using uchar_inject [of c NUL] by (simp del: uchar_inject)

lemma uchar_pos: "c \<noteq> NUL \<Longrightarrow> 0 < uchar c"
  using uchar_range [of c] uchar_eq_0 [of c] by linarith

lemma to_char_uchar [simp]: "to_char (uchar c) = c"
  by (simp add: to_char_def uchar_def)

lemma uchar_to_char: "uchar (to_char v) = v mod 256"
  by (simp add: to_char_def uchar_def)

lemma schar_to_char_small: "0 \<le> v \<Longrightarrow> v < 128 \<Longrightarrow> schar (to_char v) = v"
  by (simp add: schar_def to_char_def)

section \<open>Words\<close>

lemma word_and_not_mask: "(w :: 'a::len word) AND NOT (mask n) = push_bit n (drop_bit n w)"
  by (rule bit_word_eqI) (auto simp: bit_simps)

text \<open>The C idiom \<^verbatim>\<open>x & ~3\<close>: round down to a multiple of 4.\<close>

lemma unat_and_not_3: "unat ((w :: u32) AND NOT 3) = unat w - unat w mod 4"
proof -
  have "(3 :: u32) = mask 2" by (simp add: mask_eq_exp_minus_1)
  then have "w AND NOT 3 = push_bit 2 (drop_bit 2 w)"
    by (simp only: word_and_not_mask)
  moreover have "push_bit 2 (drop_bit 2 w) = drop_bit 2 w * 4"
    by (simp add: push_bit_eq_mult)
  moreover have "unat (drop_bit 2 w * 4) = unat (drop_bit 2 w) * 4 mod 2 ^ 32"
    by (simp add: unat_word_ariths)
  moreover have "unat (drop_bit 2 w) = unat w div 4"
    by (simp only: unat_drop_bit_eq) (simp add: drop_bit_eq_div)
  moreover have "unat w div 4 * 4 mod 2 ^ 32 = unat w div 4 * 4"
    using unsigned_less [of w, where ?'a = nat] by simp
  ultimately show ?thesis by (simp add: minus_mod_eq_div_mult)
qed

text \<open>The C idiom \<^verbatim>\<open>x & ~7\<close> on a non-negative \<^verbatim>\<open>int\<close>: round down to a multiple of 8.\<close>

lemma int_and_not_7: "(k :: int) AND NOT 7 = 8 * (k div 8)"
proof -
  have "k AND NOT (mask 3) = push_bit 3 (drop_bit 3 k)"
    by (rule bit_eqI) (auto simp: bit_simps)
  moreover have "mask 3 = (7 :: int)" by (simp add: mask_eq_exp_minus_1)
  ultimately have "k AND NOT 7 = push_bit 3 (drop_bit 3 k)" by simp
  then show ?thesis by (simp add: push_bit_eq_mult drop_bit_eq_div)
qed

lemma unat_add_less: "unat a + unat b < 2 ^ LENGTH('a) \<Longrightarrow> unat (a + b :: 'a::len word) = unat a + unat b"
  by (simp add: unat_word_ariths)

lemma unat_of_nat_u32: "n < 2 ^ 32 \<Longrightarrow> unat (of_nat n :: u32) = n"
  by (simp add: unat_of_nat)

lemma unat_minus_1_u32: "unat (- 1 :: u32) = 2 ^ 32 - 1"
  by (simp add: unsigned_minus_1_eq_mask mask_eq_exp_minus_1)

lemma sint_word_of_int_small: "- (2 ^ 31) \<le> z \<Longrightarrow> z < 2 ^ 31 \<Longrightarrow> sint (word_of_int z :: u32) = z"
  by (simp add: signed_of_int signed_take_bit_int_eq_self)

lemma sint_range_u32: "- (2 ^ 31) \<le> sint (v :: u32) \<and> sint v < 2 ^ 31"
  using sint_ge [of v] sint_lt [of v] by simp

lemma uint_minus_neg: "sint (v :: u32) < 0 \<Longrightarrow> uint (- v) = - sint v"
proof -
  assume neg: "sint v < 0"
  have "- v = word_of_int (- sint v)" by simp
  then have "uint (- v) = (- sint v) mod 2 ^ LENGTH(32)" by (simp only: uint_word_of_int)
  also have "\<dots> = - sint v" using neg sint_range_u32 [of v] by (intro mod_pos_pos_trivial) auto
  finally show ?thesis .
qed

lemma unat_neg_u32: "(p :: u32) \<noteq> 0 \<Longrightarrow> unat (- p) = 2 ^ 32 - unat p"
proof -
  assume "p \<noteq> 0"
  then have "p \<le> - 1" "- p = (- 1 - p) + 1" "1 + (- 1 - p) \<noteq> 0" by simp_all
  then have "unat (- p) = unat (- 1 - p) + 1" by (metis unatSuc add.commute Suc_eq_plus1)
  also have "unat (- 1 - p) = unat (- 1 :: u32) - unat p" using \<open>p \<le> - 1\<close> by (rule unat_sub)
  finally show ?thesis using unsigned_less [of p, where ?'a = nat] by (simp add: unat_minus_1_u32)
qed

lemma uint_sint_nonneg: "0 \<le> sint (v :: u32) \<Longrightarrow> uint v = sint v"
proof -
  assume nonneg: "0 \<le> sint v"
  have "uint (word_of_int (sint v) :: u32) = sint v mod 2 ^ LENGTH(32)" by (simp only: uint_word_of_int)
  also have "\<dots> = sint v" using nonneg sint_range_u32 [of v] by (intro mod_pos_pos_trivial) auto
  finally show ?thesis by simp
qed

lemma sint_large_u32:
  assumes "2 ^ 31 \<le> unat (v :: u32)"
  shows "sint v < 0" and "nat (- sint v) = 2 ^ 32 - unat v"
proof -
  show neg: "sint v < 0"
  proof (rule ccontr)
    assume "\<not> sint v < 0"
    then have "uint v = sint v" by (intro uint_sint_nonneg) simp
    then have "uint v < int (2 ^ 31)" using sint_range_u32 [of v] by simp
    then have "int (unat v) < int (2 ^ 31)" by (simp only: uint_nat)
    then have "unat v < 2 ^ 31" by (simp only: of_nat_less_iff)
    with assms show False by simp
  qed
  have "v \<noteq> 0" using assms by auto
  then have "unat (- v) = 2 ^ 32 - unat v" by (rule unat_neg_u32)
  moreover have "unat (- v) = nat (- sint v)"
    by (simp only: unat_eq_nat_uint uint_minus_neg [OF neg])
  ultimately show "nat (- sint v) = 2 ^ 32 - unat v" by simp
qed

text \<open>A word is the sum of its parts, as the port and descriptor code takes it apart.\<close>

lemma word16_bytes:
  "uint (ucast (drop_bit 8 (w :: u16) AND 0xFF) :: u8) * 256 + uint (ucast (w AND 0xFF) :: u8) =
    uint w"
proof -
  have m: "(0xFF :: u16) = mask 8" by (simp add: mask_eq_exp_minus_1)
  have lo: "uint (ucast (w AND 0xFF) :: u8) = uint w mod 256"
    unfolding m take_bit_eq_mask [symmetric]
    by (simp add: unsigned_ucast_eq unsigned_take_bit_eq take_bit_eq_mod
        uint_mod_distrib unat_mod_distrib uint_div_distrib unat_div_distrib)
  have hi: "uint (ucast (drop_bit 8 w AND 0xFF) :: u8) = uint w div 256"
    unfolding m take_bit_eq_mask [symmetric]
    using mod_pos_pos_trivial [of "uint w div 256" 256] unsigned_less [of w, where ?'a = int]
    by (simp add: pos_imp_zdiv_nonneg_iff unsigned_ucast_eq unsigned_take_bit_eq take_bit_eq_mod
        unsigned_drop_bit_eq drop_bit_eq_div uint_mod_distrib unat_mod_distrib uint_div_distrib unat_div_distrib)
  show ?thesis unfolding lo hi by simp
qed

lemma word32_low_bytes:
  "unat (ucast (drop_bit 8 (w :: u32) AND 0xFF) :: u8) * 256 + unat (ucast (w AND 0xFF) :: u8) =
    unat w mod 65536"
proof -
  have m: "(0xFF :: u32) = mask 8" by (simp add: mask_eq_exp_minus_1)
  have lo: "unat (ucast (w AND 0xFF) :: u8) = unat w mod 256"
    unfolding m take_bit_eq_mask [symmetric]
    by (simp add: unsigned_ucast_eq unsigned_take_bit_eq take_bit_eq_mod
        uint_mod_distrib unat_mod_distrib uint_div_distrib unat_div_distrib)
  have hi: "unat (ucast (drop_bit 8 w AND 0xFF) :: u8) = unat w div 256 mod 256"
    unfolding m take_bit_eq_mask [symmetric] 
    by (simp add: pos_imp_zdiv_nonneg_iff unsigned_ucast_eq unsigned_take_bit_eq take_bit_eq_mod
        unsigned_drop_bit_eq drop_bit_eq_div uint_mod_distrib unat_mod_distrib uint_div_distrib unat_div_distrib)
  have "unat w mod (256 * 256) = 256 * (unat w div 256 mod 256) + unat w mod 256" by (rule mod_mult2_eq)
  then show ?thesis unfolding lo hi by simp
qed

lemma word32_halves:
  "uint (ucast (drop_bit 16 (w :: u32) AND 0xFFFF) :: u16) * 65536 + uint (ucast (w AND 0xFFFF) :: u16) =
    uint w"
proof -
  have m: "(0xFFFF :: u32) = mask 16" by (simp add: mask_eq_exp_minus_1)
  have lo: "uint (ucast (w AND 0xFFFF) :: u16) = uint w mod 65536"
    unfolding m take_bit_eq_mask [symmetric]
    by (simp add: unsigned_ucast_eq unsigned_take_bit_eq take_bit_eq_mod
        uint_mod_distrib unat_mod_distrib uint_div_distrib unat_div_distrib)
  have hi: "uint (ucast (drop_bit 16 w AND 0xFFFF) :: u16) = uint w div 65536"
    unfolding m take_bit_eq_mask [symmetric]
    using mod_pos_pos_trivial [of "uint w div 65536" 65536] unsigned_less [of w, where ?'a = int]
    by (simp add: pos_imp_zdiv_nonneg_iff unsigned_ucast_eq unsigned_take_bit_eq take_bit_eq_mod
        unsigned_drop_bit_eq drop_bit_eq_div uint_mod_distrib unat_mod_distrib uint_div_distrib unat_div_distrib)
  show ?thesis unfolding lo hi by simp
qed

section \<open>Lists and options\<close>

lemma option_bind_Some_iff: "(x \<bind> f = Some y) \<longleftrightarrow> (\<exists>a. x = Some a \<and> f a = Some y)"
  by (cases x) auto

lemma fold_inv: "P s \<Longrightarrow> (\<And>x s. x \<in> set xs \<Longrightarrow> P s \<Longrightarrow> P (f x s)) \<Longrightarrow> P (fold f xs s)"
  by (induction xs arbitrary: s) auto

section \<open>Total correctness of a step\<close>

text \<open>A computation has a result and it satisfies a condition; the rules follow the binds.\<close>

definition succeeds :: "('a \<Rightarrow> bool) \<Rightarrow> 'a option \<Rightarrow> bool" where
  "succeeds P r \<longleftrightarrow> (\<exists>x. r = Some x \<and> P x)"

named_theorems step_intros \<open>total correctness of the operations\<close>

lemma succeeds_Some [step_intros]: "P x \<Longrightarrow> succeeds P (Some x)"
  by (simp add: succeeds_def)

lemma succeeds_bind:
  "succeeds P r \<Longrightarrow> (\<And>x. P x \<Longrightarrow> succeeds Q (f x)) \<Longrightarrow> succeeds Q (r \<bind> f)"
  by (auto simp: succeeds_def)

text \<open>The case of an invariant.\<close>

lemma succeeds_keep [step_intros]:
  "succeeds P r \<Longrightarrow> (\<And>x. P x \<Longrightarrow> succeeds P (f x)) \<Longrightarrow> succeeds P (r \<bind> f)"
  by (rule succeeds_bind)

lemma succeeds_if [step_intros]:
  "(b \<Longrightarrow> succeeds P x) \<Longrightarrow> (\<not> b \<Longrightarrow> succeeds P y) \<Longrightarrow> succeeds P (if b then x else y)"
  by simp

lemma succeeds_mono: "succeeds P r \<Longrightarrow> (\<And>x. P x \<Longrightarrow> Q x) \<Longrightarrow> succeeds Q r"
  by (auto simp: succeeds_def)

lemma succeeds_map: "succeeds P r \<Longrightarrow> (\<And>x. P x \<Longrightarrow> Q (f x)) \<Longrightarrow> succeeds Q (map_option f r)"
  by (auto simp: succeeds_def)

lemma not_succeeds_None [simp]: "\<not> succeeds P None"
  by (simp add: succeeds_def)

end
