(* ===== verification/CMem.thy ===== *)
theory CMem
  imports Prelude
begin

text \<open>
  The memory of C objects: a partial map from addresses to bytes, defined exactly on the
  bytes of live objects. A load or a store outside that domain has no result. Blocks of
  bytes, C strings and the effect of writing a block are stated here once; the library
  routines of \<^verbatim>\<open>lib/string.c\<close> are verified against them.
\<close>

section \<open>Loads and stores\<close>

definition ld :: "mem \<Rightarrow> addr \<Rightarrow> byte option" where
  "ld m p = m p"

definition st :: "mem \<Rightarrow> addr \<Rightarrow> byte \<Rightarrow> mem option" where
  "st m p c = (case m p of None \<Rightarrow> None | Some _ \<Rightarrow> Some (m(p \<mapsto> c)))"

section \<open>Blocks and C strings\<close>

fun bytes_at :: "mem \<Rightarrow> addr \<Rightarrow> byte list \<Rightarrow> bool" where
  "bytes_at m p [] = True"
| "bytes_at m p (b # bs) = (m p = Some b \<and> bytes_at m (Suc p) bs)"

definition cstr :: "mem \<Rightarrow> addr \<Rightarrow> string \<Rightarrow> bool" where
  "cstr m p s \<longleftrightarrow> NUL \<notin> set s \<and> bytes_at m p (s @ [NUL])"

definition valid :: "mem \<Rightarrow> addr \<Rightarrow> nat \<Rightarrow> bool" where
  "valid m p n \<longleftrightarrow> {p ..< p + n} \<subseteq> dom m"

fun put :: "mem \<Rightarrow> addr \<Rightarrow> byte list \<Rightarrow> mem" where
  "put m p [] = m"
| "put m p (b # bs) = put (m(p \<mapsto> b)) (Suc p) bs"

text \<open>Two address ranges with no byte in common.\<close>

definition apart :: "addr \<Rightarrow> nat \<Rightarrow> addr \<Rightarrow> nat \<Rightarrow> bool" where
  "apart p n q k \<longleftrightarrow> p + n \<le> q \<or> q + k \<le> p"

section \<open>Loads and stores that succeed\<close>

lemma ld_eq [mem_simps]: "m p = Some c \<Longrightarrow> ld m p = Some c"
  by (simp add: ld_def)

lemma st_eq [mem_simps]: "p \<in> dom m \<Longrightarrow> st m p c = Some (m(p \<mapsto> c))"
  by (auto simp: st_def)

lemma st_at [mem_simps]: "m p = Some d \<Longrightarrow> st m p c = Some (m(p \<mapsto> c))"
  by (simp add: st_def)

lemma st_SomeD: "st m p c = Some m' \<Longrightarrow> p \<in> dom m \<and> m' = m(p \<mapsto> c)"
  by (auto simp: st_def split: option.splits)

lemma st_outside: "p \<notin> dom m \<Longrightarrow> st m p c = None"
  by (auto simp: st_def dom_def)

lemma valid_0 [simp]: "valid m p 0"
  by (simp add: valid_def)

lemma valid_Suc: "valid m p (Suc n) \<longleftrightarrow> p \<in> dom m \<and> valid m (Suc p) n"
proof -
  have "{p ..< p + Suc n} = insert p {Suc p ..< Suc p + n}" by auto
  then show ?thesis by (simp add: valid_def)
qed

lemma valid_numeral: "valid m p (numeral k) \<longleftrightarrow> p \<in> dom m \<and> valid m (Suc p) (pred_numeral k)"
  by (simp add: numeral_eq_Suc valid_Suc)

lemmas valid_eval = valid_numeral valid_Suc

lemma valid_snoc: "valid m p (Suc n) \<longleftrightarrow> valid m p n \<and> p + n \<in> dom m"
proof -
  have "{p ..< p + Suc n} = insert (p + n) {p ..< p + n}" by auto
  then show ?thesis by (auto simp: valid_def)
qed

lemma valid_upd [simp]: "valid m p n \<Longrightarrow> valid (m(q \<mapsto> c)) p n"
  by (auto simp: valid_def)

lemma valid_mono: "valid m p n \<Longrightarrow> k \<le> n \<Longrightarrow> valid m p k"
  by (force simp: valid_def)

lemma valid_add: "valid m p (n + k) \<Longrightarrow> valid m (p + n) k"
  by (auto simp: valid_def subset_eq)

lemma valid_dom: "valid m p n \<Longrightarrow> p \<le> a \<Longrightarrow> a < p + n \<Longrightarrow> a \<in> dom m"
  by (auto simp: valid_def subset_eq)

lemma valid_sub: "valid m p n \<Longrightarrow> p \<le> q \<Longrightarrow> q + k \<le> p + n \<Longrightarrow> valid m q k"
  by (auto simp: valid_def subset_eq)

lemma valid_put [simp]: "valid m p n \<Longrightarrow> valid (put m q bs) p n"
  by (induction bs arbitrary: m q) simp_all

section \<open>Blocks\<close>

lemma bytes_at_nth: "bytes_at m p bs \<longleftrightarrow> (\<forall>i < length bs. m (p + i) = Some (bs ! i))"
proof (induction bs arbitrary: p)
  case Nil
  then show ?case by simp
next
  case (Cons b bs)
  show ?case
    by (simp add: Cons.IH All_less_Suc2)
qed

lemma bytes_at_append: "bytes_at m p (xs @ ys) \<longleftrightarrow> bytes_at m p xs \<and> bytes_at m (p + length xs) ys"
  by (induction xs arbitrary: p) auto

lemma bytes_at_valid: "bytes_at m p bs \<Longrightarrow> valid m p (length bs)"
  by (induction bs arbitrary: p) (auto simp: valid_Suc)

lemma bytes_at_cong:
  "(\<And>i. i < length bs \<Longrightarrow> m' (p + i) = m (p + i)) \<Longrightarrow> bytes_at m' p bs = bytes_at m p bs"
  by (simp add: bytes_at_nth)

lemma bytes_at_upd: "q < p \<or> p + length bs \<le> q \<Longrightarrow> bytes_at (m(q \<mapsto> c)) p bs = bytes_at m p bs"
  by (rule bytes_at_cong) auto

lemma bytes_at_inject: "bytes_at m p xs \<Longrightarrow> bytes_at m p ys \<Longrightarrow> length xs = length ys \<Longrightarrow> xs = ys"
proof (rule nth_equalityI)
  fix i
  assume "bytes_at m p xs" and "bytes_at m p ys" and "length xs = length ys" and "i < length xs"
  then have "m (p + i) = Some (xs ! i)" and "m (p + i) = Some (ys ! i)"
    unfolding bytes_at_nth by metis+
  then show "xs ! i = ys ! i" by simp
qed simp

lemma put_append: "put m p (xs @ ys) = put (put m p xs) (p + length xs) ys"
  by (induction xs arbitrary: m p) auto

lemma put_apply:
  "put m p bs a = (if p \<le> a \<and> a < p + length bs then Some (bs ! (a - p)) else m a)"
proof (induction bs arbitrary: m p)
  case Nil
  then show ?case by auto
next
  case (Cons b bs)
  have step: "put m p (b # bs) a =
      (if Suc p \<le> a \<and> a < Suc p + length bs then Some (bs ! (a - Suc p)) else (m(p \<mapsto> b)) a)"
    by (simp only: put.simps Cons.IH)
  show ?case
  proof (cases "Suc p \<le> a")
    case True
    then have "a - p = Suc (a - Suc p)" by simp
    with True show ?thesis by (simp only: step) simp
  next
    case False
    then show ?thesis by (simp only: step) auto
  qed
qed

lemma put_outside [mem_simps]: "a < p \<or> p + length bs \<le> a \<Longrightarrow> put m p bs a = m a"
  by (auto simp: put_apply)

lemma bytes_at_put [mem_simps]: "bytes_at (put m p bs) p bs"
  by (simp add: bytes_at_nth put_apply)

lemma bytes_at_put_apart [mem_simps]:
  "apart p (length bs) q (length cs) \<Longrightarrow> bytes_at (put m p bs) q cs = bytes_at m q cs"
  by (rule bytes_at_cong) (auto simp: put_apply apart_def)

lemma dom_put: "dom (put m p bs) = dom m \<union> {p ..< p + length bs}"
  by (auto simp: dom_def put_apply split: if_splits)

lemma dom_put_valid [mem_simps]: "valid m p (length bs) \<Longrightarrow> dom (put m p bs) = dom m"
  by (auto simp: dom_put valid_def)

lemma put_snoc: "put m p (bs @ [b]) = (put m p bs)(p + length bs \<mapsto> b)"
  by (simp add: put_append)

lemma put_same: "bytes_at m p bs \<Longrightarrow> put m p bs = m"
proof (rule ext)
  fix a
  assume b: "bytes_at m p bs"
  show "put m p bs a = m a"
  proof (cases "p \<le> a \<and> a < p + length bs")
    case True
    then have "a - p < length bs" and "p + (a - p) = a" by auto
    with b have "m a = Some (bs ! (a - p))" unfolding bytes_at_nth by metis
    with True show ?thesis by (simp add: put_apply)
  qed (auto simp: put_apply)
qed

lemma put_upd_commute: "q < p \<or> p + length bs \<le> q \<Longrightarrow> put (m(q \<mapsto> c)) p bs = (put m p bs)(q \<mapsto> c)"
  by (rule ext) (auto simp: put_apply)

lemma put_put_overwrite:
  "length bs = length cs \<Longrightarrow> put (put m p bs) p cs = put m p cs"
  by (rule ext) (auto simp: put_apply)

lemma valid_put_block: "n \<le> length bs \<Longrightarrow> valid (put m p bs) p n"
  by (auto simp: valid_def dom_put)

section \<open>C strings\<close>

lemma cstr_Nil [simp]: "cstr m p [] \<longleftrightarrow> m p = Some NUL"
  by (simp add: cstr_def)

lemma cstr_Cons [simp]: "cstr m p (c # s) \<longleftrightarrow> c \<noteq> NUL \<and> m p = Some c \<and> cstr m (Suc p) s"
  by (auto simp: cstr_def)

lemma cstr_append: "cstr m p (s @ t) \<longleftrightarrow> NUL \<notin> set s \<and> bytes_at m p s \<and> cstr m (p + length s) t"
  by (induction s arbitrary: p) auto

lemma cstr_end: "cstr m p s \<Longrightarrow> m (p + length s) = Some NUL"
  using cstr_append [of m p s "[]"] by simp

lemma cstr_nth: "cstr m p s \<Longrightarrow> i < length s \<Longrightarrow> m (p + i) = Some (s ! i)"
  by (simp add: cstr_def bytes_at_append) (simp add: bytes_at_nth)

lemma cstr_drop: "cstr m p s \<Longrightarrow> i \<le> length s \<Longrightarrow> cstr m (p + i) (drop i s)"
  by (metis append_take_drop_id cstr_append length_take min.absorb2)

lemma cstr_valid: "cstr m p s \<Longrightarrow> valid m p (Suc (length s))"
  by (auto simp: cstr_def dest: bytes_at_valid)

lemma cstr_unique: "cstr m p s \<Longrightarrow> cstr m p t \<Longrightarrow> s = t"
proof (induction s arbitrary: p t)
  case Nil
  then show ?case by (cases t) auto
next
  case (Cons c s)
  then show ?case by (cases t) auto
qed

lemma cstr_upd_apart: "q < p \<or> p + length s < q \<Longrightarrow> cstr (m(q \<mapsto> c)) p s = cstr m p s"
  by (auto simp: cstr_def bytes_at_upd)

lemma cstr_put [mem_simps]: "NUL \<notin> set s \<Longrightarrow> cstr (put m p (s @ [NUL])) p s"
  by (simp add: cstr_def bytes_at_put)

lemma cstr_put_apart [mem_simps]:
  "apart p (length bs) q (Suc (length s)) \<Longrightarrow> cstr (put m p bs) q s = cstr m q s"
  by (simp add: cstr_def bytes_at_put_apart)

lemma cstr_cong: "(\<And>i. i \<le> length s \<Longrightarrow> m' (p + i) = m (p + i)) \<Longrightarrow> cstr m' p s = cstr m p s"
  unfolding cstr_def by (subst bytes_at_cong [of _ m' p m]) auto

end
