(* ===== verification/CString.thy ===== *)
theory CString
  imports CMem
begin

text \<open>
  The freestanding C library of the kernel, \<^verbatim>\<open>lib/string.c\<close>: one definition per routine,
  over the memory of \<open>CMem\<close>. A pointer is an address, \<^verbatim>\<open>size_t\<close> a natural number, a
  counted loop (\<^verbatim>\<open>while (num-- > 0)\<close>) recursion on the count and a loop that runs to a
  terminator a partial function. A routine that returns its first argument is modelled by
  the memory it leaves.
\<close>

section \<open>Memory manipulation\<close>

fun memset :: "mem \<Rightarrow> addr \<Rightarrow> int \<Rightarrow> nat \<Rightarrow> mem option" where
  "memset m p v 0 = Some m"
| "memset m p v (Suc num) = do { m' \<leftarrow> st m p (to_char v); memset m' (p + 1) v num }"

fun memcpy :: "mem \<Rightarrow> addr \<Rightarrow> addr \<Rightarrow> nat \<Rightarrow> mem option" where
  "memcpy m d s 0 = Some m"
| "memcpy m d s (Suc num) = do { c \<leftarrow> ld m s; m' \<leftarrow> st m d c; memcpy m' (d + 1) (s + 1) num }"

fun memmove_back :: "mem \<Rightarrow> addr \<Rightarrow> addr \<Rightarrow> nat \<Rightarrow> mem option" where
  "memmove_back m d s 0 = Some m"
| "memmove_back m d s (Suc num) =
     do { c \<leftarrow> ld m (s - 1); m' \<leftarrow> st m (d - 1) c; memmove_back m' (d - 1) (s - 1) num }"

definition memmove :: "mem \<Rightarrow> addr \<Rightarrow> addr \<Rightarrow> nat \<Rightarrow> mem option" where
  "memmove m d s num =
     (if d < s then memcpy m d s num else memmove_back m (d + num) (s + num) num)"

fun memcmp :: "mem \<Rightarrow> addr \<Rightarrow> addr \<Rightarrow> nat \<Rightarrow> int option" where
  "memcmp m p1 p2 0 = Some 0"
| "memcmp m p1 p2 (Suc num) =
     do { a \<leftarrow> ld m p1; b \<leftarrow> ld m p2;
          if a \<noteq> b then Some (uchar a - uchar b) else memcmp m (p1 + 1) (p2 + 1) num }"

section \<open>String manipulation\<close>

partial_function (option) strlen_loop :: "mem \<Rightarrow> addr \<Rightarrow> nat \<Rightarrow> nat option" where
  "strlen_loop m str len =
     do { c \<leftarrow> ld m (str + len);
          if c \<noteq> NUL then strlen_loop m str (len + 1) else Some len }"

definition strlen :: "mem \<Rightarrow> addr \<Rightarrow> nat option" where
  "strlen m str = strlen_loop m str 0"

partial_function (option) strcpy :: "mem \<Rightarrow> addr \<Rightarrow> addr \<Rightarrow> mem option" where
  "strcpy m dest src =
     do { c \<leftarrow> ld m src; m' \<leftarrow> st m dest c;
          if c \<noteq> NUL then strcpy m' (dest + 1) (src + 1) else Some m' }"

partial_function (option) strcat_loop :: "mem \<Rightarrow> addr \<Rightarrow> addr \<Rightarrow> (mem \<times> addr) option" where
  "strcat_loop m ptr src =
     do { c \<leftarrow> ld m src;
          if c \<noteq> NUL then do { m' \<leftarrow> st m ptr c; strcat_loop m' (ptr + 1) (src + 1) }
          else Some (m, ptr) }"

definition strcat :: "mem \<Rightarrow> addr \<Rightarrow> addr \<Rightarrow> mem option" where
  "strcat m dest src =
     do { n \<leftarrow> strlen m dest; (m', ptr) \<leftarrow> strcat_loop m (dest + n) src; st m' ptr NUL }"

partial_function (option) strncat_loop ::
  "mem \<Rightarrow> addr \<Rightarrow> addr \<Rightarrow> nat \<Rightarrow> (mem \<times> addr) option" where
  "strncat_loop m ptr src n =
     do { c \<leftarrow> ld m src;
          if c \<noteq> NUL \<and> n > 0
          then do { m' \<leftarrow> st m ptr c; strncat_loop m' (ptr + 1) (src + 1) (n - 1) }
          else Some (m, ptr) }"

definition strncat :: "mem \<Rightarrow> addr \<Rightarrow> addr \<Rightarrow> nat \<Rightarrow> mem option" where
  "strncat m dest src n =
     do { k \<leftarrow> strlen m dest; (m', ptr) \<leftarrow> strncat_loop m (dest + k) src n; st m' ptr NUL }"

partial_function (option) strncpy_copy ::
  "mem \<Rightarrow> addr \<Rightarrow> addr \<Rightarrow> nat \<Rightarrow> nat \<Rightarrow> (mem \<times> nat) option" where
  "strncpy_copy m dest src n i =
     (if i < n
      then do { c \<leftarrow> ld m (src + i);
                if c \<noteq> NUL
                then do { m' \<leftarrow> st m (dest + i) c; strncpy_copy m' dest src n (i + 1) }
                else Some (m, i) }
      else Some (m, i))"

partial_function (option) strncpy_pad :: "mem \<Rightarrow> addr \<Rightarrow> nat \<Rightarrow> nat \<Rightarrow> mem option" where
  "strncpy_pad m dest n i =
     (if i < n then do { m' \<leftarrow> st m (dest + i) NUL; strncpy_pad m' dest n (i + 1) } else Some m)"

definition strncpy :: "mem \<Rightarrow> addr \<Rightarrow> addr \<Rightarrow> nat \<Rightarrow> mem option" where
  "strncpy m dest src n =
     do { (m', i) \<leftarrow> strncpy_copy m dest src n 0; strncpy_pad m' dest n i }"

partial_function (option) strchr :: "mem \<Rightarrow> addr \<Rightarrow> byte \<Rightarrow> addr option" where
  "strchr m str c =
     do { x \<leftarrow> ld m str;
          if x \<noteq> NUL then (if x = c then Some str else strchr m (str + 1) c) else Some NULL }"

partial_function (option) strrchr_loop :: "mem \<Rightarrow> addr \<Rightarrow> byte \<Rightarrow> addr \<Rightarrow> addr option" where
  "strrchr_loop m str c last' =
     do { x \<leftarrow> ld m str;
          if x \<noteq> NUL then strrchr_loop m (str + 1) c (if x = c then str else last')
          else Some last' }"

definition strrchr :: "mem \<Rightarrow> addr \<Rightarrow> byte \<Rightarrow> addr option" where
  "strrchr m str c = strrchr_loop m str c NULL"

partial_function (option) strcmp :: "mem \<Rightarrow> addr \<Rightarrow> addr \<Rightarrow> int option" where
  "strcmp m s1 s2 =
     do { a \<leftarrow> ld m s1;
          if a \<noteq> NUL
          then do { b \<leftarrow> ld m s2;
                    if a = b then strcmp m (s1 + 1) (s2 + 1) else Some (uchar a - uchar b) }
          else do { b \<leftarrow> ld m s2; Some (uchar a - uchar b) } }"

partial_function (option) strncmp :: "mem \<Rightarrow> addr \<Rightarrow> addr \<Rightarrow> nat \<Rightarrow> int option" where
  "strncmp m s1 s2 n =
     (if n = 0 then Some 0
      else do { a \<leftarrow> ld m s1;
                if a \<noteq> NUL
                then do { b \<leftarrow> ld m s2;
                          if a = b then strncmp m (s1 + 1) (s2 + 1) (n - 1)
                          else Some (uchar a - uchar b) }
                else do { b \<leftarrow> ld m s2; Some (uchar a - uchar b) } })"

section \<open>Tokens\<close>

text \<open>The inner loops of \<^verbatim>\<open>strspn\<close> and \<^verbatim>\<open>strcspn\<close>: is the byte one of the C string?\<close>

partial_function (option) span_member :: "mem \<Rightarrow> byte \<Rightarrow> addr \<Rightarrow> bool option" where
  "span_member m c a =
     do { x \<leftarrow> ld m a;
          if x \<noteq> NUL then (if c = x then Some True else span_member m c (a + 1)) else Some False }"

partial_function (option) strspn_loop :: "mem \<Rightarrow> addr \<Rightarrow> addr \<Rightarrow> nat \<Rightarrow> nat option" where
  "strspn_loop m p accept count =
     do { c \<leftarrow> ld m p;
          if c \<noteq> NUL
          then do { b \<leftarrow> span_member m c accept;
                    if b then strspn_loop m (p + 1) accept (count + 1) else Some count }
          else Some count }"

definition strspn :: "mem \<Rightarrow> addr \<Rightarrow> addr \<Rightarrow> nat option" where
  "strspn m str accept = strspn_loop m str accept 0"

partial_function (option) strcspn_loop :: "mem \<Rightarrow> addr \<Rightarrow> addr \<Rightarrow> nat \<Rightarrow> nat option" where
  "strcspn_loop m p reject count =
     do { c \<leftarrow> ld m p;
          if c \<noteq> NUL
          then do { b \<leftarrow> span_member m c reject;
                    if b then Some count else strcspn_loop m (p + 1) reject (count + 1) }
          else Some count }"

definition strcspn :: "mem \<Rightarrow> addr \<Rightarrow> addr \<Rightarrow> nat option" where
  "strcspn m str reject = strcspn_loop m str reject 0"

text \<open>
  \<^verbatim>\<open>strtok\<close> keeps its position in the static \<^verbatim>\<open>last\<close>, which is passed in and out; the
  result is the memory, the new \<^verbatim>\<open>last\<close> and the token (\<open>NULL\<close> when there is none).
\<close>

definition strtok :: "mem \<Rightarrow> addr \<Rightarrow> addr \<Rightarrow> addr \<Rightarrow> (mem \<times> addr \<times> addr) option" where
  "strtok m last' str delim =
     (let last' = (if str \<noteq> NULL then str else last') in
      if last' = NULL then Some (m, last', NULL)
      else do {
        c \<leftarrow> ld m last';
        if c = NUL then Some (m, last', NULL)
        else do {
          n \<leftarrow> strspn m last' delim;
          let str = last' + n;
          c \<leftarrow> ld m str;
          if c = NUL then Some (m, NULL, NULL)
          else do {
            k \<leftarrow> strcspn m str delim;
            let e = str + k;
            c \<leftarrow> ld m e;
            if c \<noteq> NUL then do { m' \<leftarrow> st m e NUL; Some (m', e + 1, str) }
            else Some (m, e, str) } } })"

section \<open>Numbers\<close>

definition is_space :: "byte \<Rightarrow> bool" where
  "is_space c \<longleftrightarrow> c = CHR '' '' \<or> c = CHR 0x09 \<or> c = CHR 0x0A"

definition is_digit :: "byte \<Rightarrow> bool" where
  "is_digit c \<longleftrightarrow> schar (CHR ''0'') \<le> schar c \<and> schar c \<le> schar (CHR ''9'')"

partial_function (option) atoi_skip :: "mem \<Rightarrow> addr \<Rightarrow> addr option" where
  "atoi_skip m str =
     do { c \<leftarrow> ld m str; if is_space c then atoi_skip m (str + 1) else Some str }"

partial_function (option) atoi_digits :: "mem \<Rightarrow> addr \<Rightarrow> u32 \<Rightarrow> u32 option" where
  "atoi_digits m str result =
     do { c \<leftarrow> ld m str;
          if is_digit c
          then atoi_digits m (str + 1)
                 (result * 10 + word_of_int (schar c - schar (CHR ''0'')))
          else Some result }"

definition atoi :: "mem \<Rightarrow> addr \<Rightarrow> u32 option" where
  "atoi m str =
     do { str \<leftarrow> atoi_skip m str;
          c \<leftarrow> ld m str;
          let (sign, str) = (if c = CHR ''-'' then (- 1, str + 1)
                             else if c = CHR ''+'' then (1, str + 1) else (1, str));
          result \<leftarrow> atoi_digits m str 0;
          Some (sign * result) }"

text \<open>
  \<^verbatim>\<open>itoa\<close>: \<^verbatim>\<open>tmp\<close> is an unsigned 32-bit word, \<^verbatim>\<open>-value\<close> wraps, and a zero base divides by
  zero. The digits are written backwards and reversed in place.
\<close>

definition itoa_digit :: "u32 \<Rightarrow> byte" where
  "itoa_digit rem =
     to_char (if sint rem > 9 then (sint rem - 10) + schar (CHR ''a'')
              else sint rem + schar (CHR ''0''))"

partial_function (option) itoa_digits :: "mem \<Rightarrow> addr \<Rightarrow> u32 \<Rightarrow> u32 \<Rightarrow> (mem \<times> addr) option" where
  "itoa_digits m p tmp base =
     (if tmp = 0 then Some (m, p)
      else if base = 0 then None
      else do { m' \<leftarrow> st m p (itoa_digit (tmp mod base));
                itoa_digits m' (p + 1) (tmp div base) base })"

partial_function (option) reverse_loop :: "mem \<Rightarrow> addr \<Rightarrow> addr \<Rightarrow> mem option" where
  "reverse_loop m p1 p2 =
     (if p1 < p2
      then do { a \<leftarrow> ld m p1; b \<leftarrow> ld m p2;
                m1 \<leftarrow> st m p1 b; m2 \<leftarrow> st m1 p2 a;
                reverse_loop m2 (p1 + 1) (p2 - 1) }
      else Some m)"

definition itoa :: "mem \<Rightarrow> u32 \<Rightarrow> addr \<Rightarrow> u32 \<Rightarrow> mem option" where
  "itoa m value str base =
     (if value = 0
      then do { m \<leftarrow> st m str (CHR ''0''); st m (str + 1) NUL }
      else do {
        (m, str, tmp) \<leftarrow>
          (if sint value < 0 \<and> base = 10
           then do { m \<leftarrow> st m str (CHR ''-''); Some (m, str + 1, - value) }
           else Some (m, str, value));
        (m, p) \<leftarrow> itoa_digits m str tmp base;
        m \<leftarrow> st m p NUL;
        reverse_loop m str (p - 1) })"

section \<open>Running the loops\<close>

text \<open>The fixed-point equations are the code equations, so closed calls evaluate.\<close>

declare
  strlen_loop.simps [code]
  strcpy.simps [code]
  strcat_loop.simps [code]
  strncat_loop.simps [code]
  strncpy_copy.simps [code]
  strncpy_pad.simps [code]
  strchr.simps [code]
  strrchr_loop.simps [code]
  strcmp.simps [code]
  strncmp.simps [code]
  span_member.simps [code]
  strspn_loop.simps [code]
  strcspn_loop.simps [code]
  atoi_skip.simps [code]
  atoi_digits.simps [code]
  itoa_digits.simps [code]
  reverse_loop.simps [code]

end
