(* ===== verification/CStringMem.thy ===== *)
theory CStringMem
  imports CString
begin

text \<open>
  Contracts of the copying and comparing routines of \<^verbatim>\<open>lib/string.c\<close>: what each leaves in
  memory (a single \<open>put\<close>, so nothing else changes) or returns, when its arguments point to
  the blocks and strings it expects. Every contract says that the loop returns.
\<close>

section \<open>Blocks\<close>

lemma memset_put: "valid m p n \<Longrightarrow> memset m p v n = Some (put m p (replicate n (to_char v)))"
  by (induction n arbitrary: m p) (simp_all add: valid_Suc st_eq)

lemma memcpy_put:
  assumes "bytes_at m s bs" and "valid m d (length bs)"
    and "d \<le> s \<or> apart d (length bs) s (length bs)"
  shows "memcpy m d s (length bs) = Some (put m d bs)"
  using assms
proof (induction bs arbitrary: m d s)
  case Nil
  then show ?case by simp
next
  case (Cons b bs)
  have "d < Suc s \<or> Suc s + length bs \<le> d" using Cons.prems(3) by (auto simp: apart_def)
  with Cons.prems(1) have "bytes_at (m(d \<mapsto> b)) (Suc s) bs" by (simp add: bytes_at_upd)
  moreover have d: "d \<in> dom m" "valid m (Suc d) (length bs)"
    using Cons.prems(2) by (simp_all add: valid_Suc)
  moreover from d(2) have "valid (m(d \<mapsto> b)) (Suc d) (length bs)" by (rule valid_upd)
  moreover have "Suc d \<le> Suc s \<or> apart (Suc d) (length bs) (Suc s) (length bs)"
    using Cons.prems(3) by (auto simp: apart_def)
  ultimately have "memcpy (m(d \<mapsto> b)) (Suc d) (Suc s) (length bs) = Some (put (m(d \<mapsto> b)) (Suc d) bs)"
    by (intro Cons.IH)
  with d(1) show ?case using Cons.prems(1) by (simp add: ld_eq st_eq)
qed

text \<open>A copy that returns has read only bytes that exist, and has written only such bytes.\<close>

lemma memcpy_defined:
  "memcpy m d s n = Some m' \<Longrightarrow> k < n \<Longrightarrow> s + k \<in> dom m \<and> d + k \<in> dom m"
proof (induction n arbitrary: m d s k)
  case (Suc n)
  then obtain c m1 where c: "ld m s = Some c" "st m d c = Some m1" "memcpy m1 (d + 1) (s + 1) n = Some m'"
    by (auto simp: option_bind_Some_iff)
  have "s \<in> dom m" "d \<in> dom m" "dom m1 = dom m" using c(1) st_SomeD [OF c(2)] by (auto simp: ld_def)
  then show ?case using Suc.IH [OF c(3)] Suc.prems(2) by (cases k) auto
qed simp

lemma memmove_back_put:
  assumes "bytes_at m s bs" and "valid m d (length bs)" and "s \<le> d"
  shows "memmove_back m (d + length bs) (s + length bs) (length bs) = Some (put m d bs)"
  using assms
proof (induction bs arbitrary: m rule: rev_induct)
  case Nil
  then show ?case by simp
next
  case (snoc b bs)
  let ?m = "m(d + length bs \<mapsto> b)"
  have b: "m (s + length bs) = Some b" and bs: "bytes_at m s bs"
    using snoc.prems(1) by (simp_all add: bytes_at_append)
  have d: "valid m d (length bs)" "d + length bs \<in> dom m"
    using snoc.prems(2) by (simp_all add: valid_snoc)
  have "bytes_at ?m s bs" using bs snoc.prems(3) by (simp add: bytes_at_upd)
  then have "memmove_back ?m (d + length bs) (s + length bs) (length bs) = Some (put ?m d bs)"
    using d(1) snoc.prems(3) by (intro snoc.IH valid_upd)
  moreover have "put ?m d bs = put m d (bs @ [b])"
    by (simp only: put_snoc) (simp add: put_upd_commute)
  ultimately show ?case using b d by (simp add: ld_eq st_eq)
qed

lemma memmove_put:
  assumes "bytes_at m s bs" and "valid m d (length bs)"
  shows "memmove m d s (length bs) = Some (put m d bs)"
proof (cases "d < s")
  case True
  with assms show ?thesis by (simp add: memmove_def memcpy_put)
next
  case False
  with assms show ?thesis by (simp add: memmove_def memmove_back_put)
qed

lemma memcmp_eq_0:
  assumes "bytes_at m p xs" and "bytes_at m q ys" and "length xs = length ys"
  shows "\<exists>r. memcmp m p q (length xs) = Some r \<and> (r = 0 \<longleftrightarrow> xs = ys)"
  using assms(3,1,2)
  by (induction xs ys arbitrary: p q rule: list_induct2) (auto simp: ld_eq)

section \<open>Copying strings\<close>

lemma strlen_loop_cstr: "cstr m p s \<Longrightarrow> i \<le> length s \<Longrightarrow> strlen_loop m p i = Some (length s)"
proof (induction "length s - i" arbitrary: i)
  case 0
  then have "m (p + i) = Some NUL" using cstr_end by force
  with 0 show ?case by (subst strlen_loop.simps) (simp add: ld_eq)
next
  case (Suc k)
  then have "i < length s" by simp
  moreover from this Suc.prems have "m (p + i) = Some (s ! i)" and "s ! i \<noteq> NUL"
    by (auto simp: cstr_nth cstr_def dest: nth_mem)
  ultimately show ?case using Suc by (subst strlen_loop.simps) (simp add: ld_eq)
qed

lemma strlen_cstr [mem_simps]: "cstr m p s \<Longrightarrow> strlen m p = Some (length s)"
  by (simp add: strlen_def strlen_loop_cstr)

lemma strcpy_put:
  assumes "cstr m s t" and "valid m d (Suc (length t))"
    and "apart d (Suc (length t)) s (Suc (length t))"
  shows "strcpy m d s = Some (put m d (t @ [NUL]))"
  using assms
proof (induction t arbitrary: m d s)
  case Nil
  then show ?case by (subst strcpy.simps) (simp add: ld_eq st_eq valid_Suc)
next
  case (Cons c t)
  have "strcpy (m(d \<mapsto> c)) (d + 1) (s + 1) = Some (put (m(d \<mapsto> c)) (Suc d) (t @ [NUL]))"
    using Cons.prems
    by (subst Cons.IH) (auto simp: cstr_upd_apart valid_Suc apart_def simp del: fun_upd_apply)
  with Cons.prems show ?case by (subst strcpy.simps) (simp add: ld_eq st_eq valid_Suc)
qed

text \<open>A destination that ends before the terminator has been copied is a fault.\<close>

lemma strcpy_overflow:
  assumes "cstr m s t" and "k \<le> length t" and "d + k \<notin> dom m"
    and "apart d (Suc (length t)) s (Suc (length t))"
  shows "strcpy m d s = None"
  using assms
proof (induction k arbitrary: m d s t)
  case 0
  then show ?case by (subst strcpy.simps) (cases "ld m s"; simp add: st_outside)
next
  case (Suc k)
  then obtain c u where t: "t = c # u" by (cases t) auto
  have "strcpy (m(d \<mapsto> c)) (d + 1) (s + 1) = None" if "d \<in> dom m"
  proof (rule Suc.IH [of _ _ u])
    show "cstr (m(d \<mapsto> c)) (s + 1) u" "k \<le> length u" "d + 1 + k \<notin> dom (m(d \<mapsto> c))"
      and "apart (d + 1) (Suc (length u)) (s + 1) (Suc (length u))"
      using Suc.prems t by (auto simp: cstr_upd_apart apart_def)
  qed
  then show ?case
    using Suc.prems t by (subst strcpy.simps) (cases "d \<in> dom m"; simp add: ld_eq st_eq st_outside)
qed

lemma strcat_loop_put:
  assumes "cstr m s t" and "valid m d (length t)" and "apart d (length t) s (Suc (length t))"
  shows "strcat_loop m d s = Some (put m d t, d + length t)"
  using assms
proof (induction t arbitrary: m d s)
  case Nil
  then show ?case by (subst strcat_loop.simps) (simp add: ld_eq)
next
  case (Cons c t)
  have "strcat_loop (m(d \<mapsto> c)) (d + 1) (s + 1) = Some (put (m(d \<mapsto> c)) (Suc d) t, d + 1 + length t)"
    using Cons.prems
    by (subst Cons.IH) (auto simp: cstr_upd_apart valid_Suc apart_def simp del: fun_upd_apply)
  with Cons.prems show ?case by (subst strcat_loop.simps) (simp add: ld_eq st_eq valid_Suc)
qed

lemma strcat_put:
  assumes "cstr m d a" and "cstr m s b" and "valid m d (Suc (length a + length b))"
    and "apart d (Suc (length a + length b)) s (Suc (length b))"
  shows "strcat m d s = Some (put m (d + length a) (b @ [NUL]))"
proof -
  have v: "valid m (d + length a) (Suc (length b))"
    using assms(3) valid_add [of m d "length a" "Suc (length b)"] by simp
  then have "valid m (d + length a) (length b)" by (rule valid_mono) simp
  then have "strcat_loop m (d + length a) s = Some (put m (d + length a) b, d + length a + length b)"
    using assms(2,4) by (intro strcat_loop_put) (auto simp: apart_def)
  moreover have "d + length a + length b \<in> dom (put m (d + length a) b)"
    using v by (auto simp: dom_put valid_snoc)
  ultimately show ?thesis
    using assms(1) by (simp add: strcat_def strlen_cstr st_eq put_snoc)
qed

lemma cstr_after_append:
  assumes "cstr m d a" and "NUL \<notin> set b"
  shows "cstr (put m (d + length a) (b @ [NUL])) d (a @ b)"
proof -
  have "bytes_at (put m (d + length a) (b @ [NUL])) d a"
    using assms(1) by (simp add: bytes_at_put_apart apart_def cstr_def bytes_at_append)
  then show ?thesis
    using assms by (simp add: cstr_append cstr_put) (simp add: cstr_def)
qed

lemma strncat_loop_put:
  assumes "cstr m s t" and "valid m d (length (take n t))" and "apart d (length t) s (Suc (length t))"
  shows "strncat_loop m d s n = Some (put m d (take n t), d + length (take n t))"
  using assms
proof (induction t arbitrary: m d s n)
  case Nil
  then show ?case by (subst strncat_loop.simps) (simp add: ld_eq)
next
  case (Cons c t)
  show ?case
  proof (cases n)
    case 0
    with Cons.prems show ?thesis by (subst strncat_loop.simps) (simp add: ld_eq)
  next
    case (Suc k)
    have "strncat_loop (m(d \<mapsto> c)) (d + 1) (s + 1) k =
        Some (put (m(d \<mapsto> c)) (Suc d) (take k t), d + 1 + length (take k t))"
      using Cons.prems Suc
      by (subst Cons.IH) (auto simp: cstr_upd_apart valid_Suc apart_def simp del: fun_upd_apply)
    with Cons.prems Suc show ?thesis by (subst strncat_loop.simps) (simp add: ld_eq st_eq valid_Suc)
  qed
qed

lemma strncat_put:
  assumes "cstr m d a" and "cstr m s b" and "valid m d (Suc (length a + length (take n b)))"
    and "apart d (Suc (length a + length b)) s (Suc (length b))"
  shows "strncat m d s n = Some (put m (d + length a) (take n b @ [NUL]))"
proof -
  have v: "valid m (d + length a) (Suc (length (take n b)))"
    using assms(3) valid_add [of m d "length a" "Suc (length (take n b))"] by simp
  then have "valid m (d + length a) (length (take n b))" by (rule valid_mono) simp
  then have "strncat_loop m (d + length a) s n =
      Some (put m (d + length a) (take n b), d + length a + length (take n b))"
    using assms(2,4) by (intro strncat_loop_put) (auto simp: apart_def)
  moreover have "d + length a + length (take n b) \<in> dom (put m (d + length a) (take n b))"
    using v by (simp only: dom_put valid_snoc) auto
  ultimately show ?thesis
    using assms(1) by (simp add: strncat_def strlen_cstr st_eq put_snoc)
qed

text \<open>
  \<^verbatim>\<open>strncpy\<close> copies at most \<open>n\<close> bytes and fills the rest of the \<open>n\<close> with terminators; it
  does not terminate a string of \<open>n\<close> bytes or more.
\<close>

definition padded :: "nat \<Rightarrow> string \<Rightarrow> byte list" where
  "padded n t = take n t @ replicate (n - length t) NUL"

lemma length_padded [simp]: "length (padded n t) = n"
  by (simp add: padded_def)

lemma strncpy_copy_put:
  assumes "bytes_at m s t" and "cstr m s t" and "valid m d n" and "apart d n s (Suc (length t))"
    and "i \<le> n" and "i \<le> length t"
  shows "strncpy_copy (put m d (take i t)) d s n i = Some (put m d (take n t), min n (length t))"
  using assms(5,6)
proof (induction "n - i" arbitrary: i)
  case 0
  then show ?case by (subst strncpy_copy.simps) (simp add: min_def)
next
  case (Suc k)
  let ?m = "put m d (take i t)"
  have src: "?m (s + i) = m (s + i)"
    using assms(4) Suc.prems by (auto simp: put_apply apart_def)
  show ?case
  proof (cases "i = length t")
    case True
    with assms(2) src have "?m (s + i) = Some NUL" by (simp add: cstr_end)
    with True Suc.prems show ?thesis by (subst strncpy_copy.simps) (auto simp: ld_eq min_def)
  next
    case False
    with Suc.prems have i: "i < length t" by simp
    with assms(2) src have c: "?m (s + i) = Some (t ! i)" "t ! i \<noteq> NUL"
      by (auto simp: cstr_nth cstr_def dest: nth_mem)
    have "d + i \<in> dom m" using assms(3) Suc.hyps(2) by (intro valid_dom [of m d n]) auto
    then have "d + i \<in> dom ?m" by (simp add: dom_put)
    moreover have "?m(d + i \<mapsto> t ! i) = put m d (take (i + 1) t)"
      using i by (simp add: take_Suc_conv_app_nth put_snoc)
    ultimately show ?thesis
      using c i Suc by (subst strncpy_copy.simps) (simp add: ld_eq st_eq del: fun_upd_apply)
  qed
qed

lemma strncpy_pad_put:
  "valid m (d + i) (n - i) \<Longrightarrow> i \<le> n \<Longrightarrow>
   strncpy_pad m d n i = Some (put m (d + i) (replicate (n - i) NUL))"
proof (induction "n - i" arbitrary: m i)
  case 0
  then show ?case by (subst strncpy_pad.simps) simp
next
  case (Suc k)
  then have n: "n - i = Suc (n - (i + 1))" "i < n" by simp_all
  with Suc.prems have "d + i \<in> dom m" "valid m (d + (i + 1)) (n - (i + 1))"
    by (simp_all add: valid_Suc)
  then have "strncpy_pad (m(d + i \<mapsto> NUL)) d n (i + 1) =
      Some (put (m(d + i \<mapsto> NUL)) (d + (i + 1)) (replicate (n - (i + 1)) NUL))"
    using Suc by (intro Suc.hyps(1)) (auto simp del: fun_upd_apply)
  with \<open>d + i \<in> dom m\<close> n show ?case by (subst strncpy_pad.simps) (simp add: st_eq)
qed

lemma strncpy_put:
  assumes "cstr m s t" and "valid m d n" and "apart d n s (Suc (length t))"
  shows "strncpy m d s n = Some (put m d (padded n t))"
proof -
  have b: "bytes_at m s t" using assms(1) by (simp add: cstr_def bytes_at_append)
  have "strncpy_copy m d s n 0 = Some (put m d (take n t), min n (length t))"
    using strncpy_copy_put [OF b assms, of 0] by simp
  moreover have "valid (put m d (take n t)) (d + min n (length t)) (n - min n (length t))"
    using assms(2) by (intro valid_put) (rule valid_sub, auto)
  then have "strncpy_pad (put m d (take n t)) d n (min n (length t)) =
      Some (put (put m d (take n t)) (d + min n (length t)) (replicate (n - min n (length t)) NUL))"
    by (rule strncpy_pad_put) simp
  moreover have "n - min n (length t) = n - length t" by simp
  ultimately show ?thesis
    by (simp add: strncpy_def padded_def put_append min.commute)
qed

end
