(* ===== verification/CStringScan.thy ===== *)
theory CStringScan
  imports CStringMem
begin

text \<open>
  Contracts of the comparing and scanning routines of \<^verbatim>\<open>lib/string.c\<close>: \<^verbatim>\<open>strcmp\<close> against the
  order on unsigned bytes, \<^verbatim>\<open>strchr\<close> and \<^verbatim>\<open>strrchr\<close> against the first and last position,
  \<^verbatim>\<open>strspn\<close>, \<^verbatim>\<open>strcspn\<close> and \<^verbatim>\<open>strtok\<close> against prefixes over a set of delimiters.
\<close>

section \<open>Comparison\<close>

fun strcmp_spec :: "string \<Rightarrow> string \<Rightarrow> int" where
  "strcmp_spec [] [] = 0"
| "strcmp_spec [] (d # t) = - uchar d"
| "strcmp_spec (c # s) [] = uchar c"
| "strcmp_spec (c # s) (d # t) = (if c = d then strcmp_spec s t else uchar c - uchar d)"

text \<open>The lexicographic order on strings of unsigned bytes.\<close>

fun str_less :: "string \<Rightarrow> string \<Rightarrow> bool" where
  "str_less s [] = False"
| "str_less [] (d # t) = True"
| "str_less (c # s) (d # t) = (uchar c < uchar d \<or> c = d \<and> str_less s t)"

lemma strcmp_spec_eq_0: "NUL \<notin> set s \<Longrightarrow> NUL \<notin> set t \<Longrightarrow> strcmp_spec s t = 0 \<longleftrightarrow> s = t"
  by (induction s t rule: strcmp_spec.induct) auto

lemma strcmp_spec_neg:
  "NUL \<notin> set s \<Longrightarrow> NUL \<notin> set t \<Longrightarrow> strcmp_spec s t < 0 \<longleftrightarrow> str_less s t"
proof (induction s t rule: strcmp_spec.induct)
  case (2 d t)
  then show ?case using uchar_pos [of d] by auto
next
  case (3 c s)
  then show ?case using uchar_pos [of c] by auto
qed auto

lemma strcmp_cstr [mem_simps]:
  "cstr m p s \<Longrightarrow> cstr m q t \<Longrightarrow> strcmp m p q = Some (strcmp_spec s t)"
proof (induction s t arbitrary: p q rule: strcmp_spec.induct)
  case 1
  then show ?case by (subst strcmp.simps) (simp add: ld_eq)
next
  case (2 d t)
  then show ?case by (subst strcmp.simps) (simp add: ld_eq)
next
  case (3 c s)
  then show ?case by (subst strcmp.simps) (simp add: ld_eq)
next
  case (4 c s d t)
  then show ?case by (subst strcmp.simps) (simp add: ld_eq)
qed

lemma strncmp_cstr [mem_simps]:
  "cstr m p s \<Longrightarrow> cstr m q t \<Longrightarrow> strncmp m p q n = Some (strcmp_spec (take n s) (take n t))"
proof (induction s t arbitrary: p q n rule: strcmp_spec.induct)
  case 1
  then show ?case by (subst strncmp.simps) (simp add: ld_eq)
next
  case (2 d t)
  then show ?case by (subst strncmp.simps) (cases n; simp add: ld_eq)
next
  case (3 c s)
  then show ?case by (subst strncmp.simps) (cases n; simp add: ld_eq)
next
  case (4 c s d t)
  then show ?case by (subst strncmp.simps) (cases n; simp add: ld_eq)
qed

lemma strcmp_spec_take_prefix:
  "NUL \<notin> set s \<Longrightarrow> NUL \<notin> set t \<Longrightarrow>
   strcmp_spec (take (length s) s) (take (length s) t) = 0 \<longleftrightarrow> (\<exists>u. t = s @ u)"
proof -
  assume nul: "NUL \<notin> set s" "NUL \<notin> set t"
  then have "NUL \<notin> set (take (length s) t)" by (meson in_set_takeD)
  with nul have "strcmp_spec (take (length s) s) (take (length s) t) = 0 \<longleftrightarrow> s = take (length s) t"
    by (simp add: strcmp_spec_eq_0)
  also have "\<dots> \<longleftrightarrow> (\<exists>u. t = s @ u)" by (metis append_eq_conv_conj)
  finally show ?thesis .
qed

section \<open>Searching\<close>

lemma strchr_cstr [mem_simps]:
  "cstr m p s \<Longrightarrow>
   strchr m p c = Some (if c \<in> set s then p + length (takeWhile (\<lambda>x. x \<noteq> c) s) else NULL)"
proof (induction s arbitrary: p)
  case Nil
  then show ?case by (subst strchr.simps) (simp add: ld_eq)
next
  case (Cons x s)
  then show ?case by (subst strchr.simps) (simp add: ld_eq)
qed

lemma strrchr_loop_cstr:
  "cstr m p s \<Longrightarrow>
   strrchr_loop m p c r =
     Some (if c \<in> set s then p + length s - Suc (length (takeWhile (\<lambda>x. x \<noteq> c) (rev s))) else r)"
proof (induction s arbitrary: p r)
  case Nil
  then show ?case by (subst strrchr_loop.simps) (simp add: ld_eq)
next
  case (Cons x s)
  show ?case
  proof (cases "c \<in> set s")
    case True
    then have "takeWhile (\<lambda>x. x \<noteq> c) (rev s @ [x]) = takeWhile (\<lambda>x. x \<noteq> c) (rev s)"
      by (intro takeWhile_append1 [of c]) auto
    with Cons True show ?thesis by (subst strrchr_loop.simps) (simp add: ld_eq)
  next
    case False
    then have "takeWhile (\<lambda>x. x \<noteq> c) (rev s @ [x]) = rev s @ takeWhile (\<lambda>x. x \<noteq> c) [x]"
      by (intro takeWhile_append2) auto
    with Cons False show ?thesis by (subst strrchr_loop.simps) (auto simp: ld_eq)
  qed
qed

lemma strrchr_cstr [mem_simps]:
  "cstr m p s \<Longrightarrow>
   strrchr m p c =
     Some (if c \<in> set s then p + length s - Suc (length (takeWhile (\<lambda>x. x \<noteq> c) (rev s))) else NULL)"
  by (simp add: strrchr_def strrchr_loop_cstr)

lemma span_member_cstr: "cstr m a s \<Longrightarrow> span_member m c a = Some (c \<in> set s)"
proof (induction s arbitrary: a)
  case Nil
  then show ?case by (subst span_member.simps) (simp add: ld_eq)
next
  case (Cons x s)
  then show ?case by (subst span_member.simps) (auto simp: ld_eq)
qed

lemma strspn_cstr [mem_simps]:
  assumes "cstr m p s" and "cstr m a ds"
  shows "strspn m p a = Some (length (takeWhile (\<lambda>c. c \<in> set ds) s))"
proof -
  have "strspn_loop m p a n = Some (n + length (takeWhile (\<lambda>c. c \<in> set ds) s))" for n
    using assms(1)
  proof (induction s arbitrary: p n)
    case Nil
    then show ?case by (subst strspn_loop.simps) (simp add: ld_eq)
  next
    case (Cons x s)
    with assms(2) show ?case
      by (subst strspn_loop.simps) (simp add: ld_eq span_member_cstr)
  qed
  then show ?thesis by (simp add: strspn_def)
qed

lemma strcspn_cstr [mem_simps]:
  assumes "cstr m p s" and "cstr m a ds"
  shows "strcspn m p a = Some (length (takeWhile (\<lambda>c. c \<notin> set ds) s))"
proof -
  have "strcspn_loop m p a n = Some (n + length (takeWhile (\<lambda>c. c \<notin> set ds) s))" for n
    using assms(1)
  proof (induction s arbitrary: p n)
    case Nil
    then show ?case by (subst strcspn_loop.simps) (simp add: ld_eq)
  next
    case (Cons x s)
    with assms(2) show ?case
      by (subst strcspn_loop.simps) (simp add: ld_eq span_member_cstr)
  qed
  then show ?thesis by (simp add: strcspn_def)
qed

section \<open>Tokens\<close>

text \<open>What one call of \<^verbatim>\<open>strtok\<close> sees of the remaining string: its token and what follows it.\<close>

definition skip_delims :: "string \<Rightarrow> string \<Rightarrow> string" where
  "skip_delims ds s = dropWhile (\<lambda>c. c \<in> set ds) s"

definition first_token :: "string \<Rightarrow> string \<Rightarrow> string" where
  "first_token ds s = takeWhile (\<lambda>c. c \<notin> set ds) (skip_delims ds s)"

definition after_token :: "string \<Rightarrow> string \<Rightarrow> string" where
  "after_token ds s = tl (dropWhile (\<lambda>c. c \<notin> set ds) (skip_delims ds s))"

text \<open>All the maximal delimiter-free words of a string: the reference for a tokenising loop.\<close>

lemma length_after_token: "skip_delims ds s \<noteq> [] \<Longrightarrow> length (after_token ds s) < length s"
proof -
  assume ne: "skip_delims ds s \<noteq> []"
  then have "s \<noteq> []" by (auto simp: skip_delims_def)
  have "length (dropWhile (\<lambda>c. c \<notin> set ds) (skip_delims ds s)) \<le> length s"
    unfolding skip_delims_def by (meson le_trans length_dropWhile_le)
  with \<open>s \<noteq> []\<close> show ?thesis
    by (cases s; cases "dropWhile (\<lambda>c. c \<notin> set ds) (skip_delims ds s)") (auto simp: after_token_def)
qed

function tokens :: "string \<Rightarrow> string \<Rightarrow> string list" where
  "tokens ds s = (if skip_delims ds s = [] then [] else first_token ds s # tokens ds (after_token ds s))"
  by pat_completeness auto
termination
  by (relation "measure (\<lambda>(ds, s). length s)") (auto simp: length_after_token)

declare tokens.simps [simp del]

lemma first_token_nonempty: "skip_delims ds s \<noteq> [] \<Longrightarrow> first_token ds s \<noteq> []"
  using hd_dropWhile [of "\<lambda>c. c \<in> set ds" s]
  by (auto simp: first_token_def skip_delims_def takeWhile_eq_Nil_iff)

lemma first_token_delims: "c \<in> set (first_token ds s) \<Longrightarrow> c \<notin> set ds"
  by (auto simp: first_token_def dest: set_takeWhileD)

lemma first_token_subset: "set (first_token ds s) \<subseteq> set s"
  by (auto simp: first_token_def skip_delims_def dest: set_takeWhileD set_dropWhileD)

lemma after_token_subset: "set (after_token ds s) \<subseteq> set s"
proof
  fix x
  assume "x \<in> set (after_token ds s)"
  then have "x \<in> set (dropWhile (\<lambda>c. c \<notin> set ds) (skip_delims ds s))"
    unfolding after_token_def
    by (cases "dropWhile (\<lambda>c. c \<notin> set ds) (skip_delims ds s)") auto
  then show "x \<in> set s" by (auto simp: skip_delims_def dest: set_dropWhileD)
qed

lemma tokens_words: "t \<in> set (tokens ds s) \<Longrightarrow> t \<noteq> [] \<and> set t \<inter> set ds = {} \<and> set t \<subseteq> set s"
proof (induction ds s rule: tokens.induct)
  case (1 ds s)
  show ?case
  proof (cases "skip_delims ds s = []")
    case True
    with 1 show ?thesis by (simp add: tokens.simps [of ds s])
  next
    case False
    then consider "t = first_token ds s" | "t \<in> set (tokens ds (after_token ds s))"
      using 1 by (auto simp: tokens.simps [of ds s])
    then show ?thesis
    proof cases
      case 1
      then show ?thesis
        using first_token_nonempty [OF False] first_token_subset [of ds s]
        by (auto dest: first_token_delims)
    next
      case 2
      then show ?thesis using "1.IH" [OF False] after_token_subset [of ds s] by blast
    qed
  qed
qed

text \<open>No byte of a word is lost: the tokens are the string without its delimiters.\<close>

lemma filter_dropWhile: "filter (\<lambda>c. \<not> P c) (dropWhile P s) = filter (\<lambda>c. \<not> P c) s"
  by (induction s) auto

lemma filter_after_token:
  "filter (\<lambda>c. c \<notin> set ds) s = first_token ds s @ filter (\<lambda>c. c \<notin> set ds) (after_token ds s)"
proof -
  let ?r = "skip_delims ds s"
  have "filter (\<lambda>c. c \<notin> set ds) s = filter (\<lambda>c. c \<notin> set ds) ?r"
    using filter_dropWhile [of "\<lambda>c. c \<in> set ds" s] by (simp add: skip_delims_def)
  also have "\<dots> = filter (\<lambda>c. c \<notin> set ds)
      (takeWhile (\<lambda>c. c \<notin> set ds) ?r @ dropWhile (\<lambda>c. c \<notin> set ds) ?r)"
    by simp
  also have "\<dots> = first_token ds s @ filter (\<lambda>c. c \<notin> set ds) (dropWhile (\<lambda>c. c \<notin> set ds) ?r)"
    unfolding filter_append first_token_def
    by (simp add: filter_id_conv) (blast dest: set_takeWhileD)
  also have "filter (\<lambda>c. c \<notin> set ds) (dropWhile (\<lambda>c. c \<notin> set ds) ?r) =
      filter (\<lambda>c. c \<notin> set ds) (after_token ds s)"
  proof (cases "dropWhile (\<lambda>c. c \<notin> set ds) ?r")
    case Nil
    then show ?thesis by (simp only: after_token_def) simp
  next
    case (Cons d v)
    then have "d \<in> set ds" using hd_dropWhile [of "\<lambda>c. c \<notin> set ds" ?r] by auto
    with Cons show ?thesis by (simp only: after_token_def) simp
  qed
  finally show ?thesis .
qed

lemma concat_tokens: "concat (tokens ds s) = filter (\<lambda>c. c \<notin> set ds) s"
proof (induction ds s rule: tokens.induct)
  case (1 ds s)
  show ?case
  proof (cases "skip_delims ds s = []")
    case True
    then have "filter (\<lambda>c. c \<notin> set ds) s = []"
      using filter_dropWhile [of "\<lambda>c. c \<in> set ds" s] by (simp add: skip_delims_def)
    with True show ?thesis by (simp add: tokens.simps [of ds s])
  next
    case False
    with 1 filter_after_token [of ds s] show ?thesis by (simp add: tokens.simps [of ds s])
  qed
qed

section \<open>One call of strtok\<close>

lemma strtok_none:
  assumes "p = (if str \<noteq> NULL then str else last')" and "p \<noteq> NULL"
    and "cstr m p s" and "cstr m a ds" and "skip_delims ds s = []"
  shows "\<exists>l. strtok m last' str a = Some (m, l, NULL)"
proof (cases "s = []")
  case True
  with assms show ?thesis by (auto simp: strtok_def Let_def ld_eq)
next
  case False
  then obtain c u where s: "s = c # u" by (cases s) auto
  have "takeWhile (\<lambda>c. c \<in> set ds) s = s"
    using assms(5) by (simp add: skip_delims_def)
  then have "strspn m p a = Some (length s)"
    using strspn_cstr [OF assms(3,4)] by (simp only:)
  moreover have "m (p + length s) = Some NUL" using assms(3) by (rule cstr_end)
  ultimately show ?thesis
    using assms(1-3) s by (auto simp: strtok_def Let_def ld_eq)
qed

lemma strtok_token:
  assumes "p = (if str \<noteq> NULL then str else last')" and "p \<noteq> NULL"
    and "cstr m p s" and "cstr m a ds" and "skip_delims ds s \<noteq> []"
  shows "\<exists>m' l q. strtok m last' str a = Some (m', l, q) \<and> p \<le> q \<and>
    cstr m' q (first_token ds s) \<and> q + length (first_token ds s) \<le> l \<and>
    cstr m' l (after_token ds s) \<and> l + length (after_token ds s) = p + length s \<and>
    (\<forall>x. x \<le> p \<or> p + length s \<le> x \<longrightarrow> m' x = m x)"
proof -
  obtain pre tok r where s: "s = pre @ tok @ r" and rest: "skip_delims ds s = tok @ r"
    and tok: "first_token ds s = tok" and pre: "takeWhile (\<lambda>c. c \<in> set ds) s = pre"
    and tw: "takeWhile (\<lambda>c. c \<notin> set ds) (tok @ r) = tok" and aft: "after_token ds s = tl r"
    by (rule that [of "takeWhile (\<lambda>c. c \<in> set ds) s" "first_token ds s"
          "dropWhile (\<lambda>c. c \<notin> set ds) (skip_delims ds s)"])
      (simp_all add: first_token_def after_token_def skip_delims_def)
  let ?q = "p + length pre"
  let ?e = "?q + length tok"
  have ne: "tok \<noteq> []" using first_token_nonempty [OF assms(5)] tok by simp
  have at: "NUL \<notin> set tok" "bytes_at m ?q tok" "cstr m ?q (tok @ r)" "cstr m ?e r"
    using assms(3) unfolding s cstr_append by (simp_all add: add.assoc)
  have "s \<noteq> []" using s ne by simp
  then obtain c where c: "m p = Some c" "c \<noteq> NUL"
    using assms(3) by (auto simp: neq_Nil_conv)
  obtain d where d: "m ?q = Some d" "d \<noteq> NUL"
    using at ne by (cases tok) auto
  obtain f where f: "m ?e = Some f" "f \<noteq> NUL \<longleftrightarrow> r \<noteq> []"
    using at(4) by (cases r) auto
  have spn: "strspn m p a = Some (length pre)"
    using strspn_cstr [OF assms(3,4)] by (simp only: pre)
  have cspn: "strcspn m ?q a = Some (length tok)"
    using strcspn_cstr [OF at(3) assms(4)] by (simp only: tw)
  have run: "strtok m last' str a =
      (if r \<noteq> [] then Some (m(?e \<mapsto> NUL), ?e + 1, ?q) else Some (m, ?e, ?q))"
    using assms(1,2) c d f spn cspn by (auto simp: strtok_def Let_def ld_eq st_at)
  show ?thesis
  proof (cases r)
    case Nil
    then show ?thesis using run at s tok aft by auto
  next
    case (Cons g v)
    have "cstr (m(?e \<mapsto> NUL)) ?q tok" using at
      by (simp add: cstr_def bytes_at_append bytes_at_upd)
    moreover have "cstr (m(?e \<mapsto> NUL)) (?e + 1) v" using at(4) Cons
      by (simp add: cstr_upd_apart)
    moreover have "?e + 1 + length v = p + length s" and "p < ?e"
      using s Cons ne by auto
    moreover from this have "\<forall>x. x \<le> p \<or> p + length s \<le> x \<longrightarrow> (m(?e \<mapsto> NUL)) x = m x"
      by auto
    ultimately show ?thesis using run Cons tok aft
      by (intro exI [of _ "m(?e \<mapsto> NUL)"] exI [of _ "?e + 1"] exI [of _ ?q]) auto
  qed
qed

end
