(* ===== verification/CStringNum.thy ===== *)
theory CStringNum
  imports CStringScan
begin

text \<open>
  Contracts of \<^verbatim>\<open>itoa\<close> and \<^verbatim>\<open>atoi\<close>: the digits of a number in a base, the string \<^verbatim>\<open>itoa\<close>
  leaves for every 32-bit value, the value \<^verbatim>\<open>atoi\<close> reads, and the round trip.
\<close>

section \<open>Digits\<close>

definition digit :: "nat \<Rightarrow> byte" where
  "digit d = itoa_digit (of_nat d)"

fun rev_digits :: "nat \<Rightarrow> nat \<Rightarrow> string" where
  "rev_digits b n = (if n = 0 \<or> b < 2 then [] else digit (n mod b) # rev_digits b (n div b))"

declare rev_digits.simps [simp del]

definition show_nat :: "nat \<Rightarrow> nat \<Rightarrow> string" where
  "show_nat b n = (if n = 0 then ''0'' else rev (rev_digits b n))"

definition show_int :: "int \<Rightarrow> string" where
  "show_int z = (if z < 0 then ''-'' @ show_nat 10 (nat (- z)) else show_nat 10 (nat z))"

text \<open>The string \<^verbatim>\<open>itoa\<close> writes: signed in base 10, unsigned in every other base.\<close>

definition itoa_spec :: "u32 \<Rightarrow> u32 \<Rightarrow> string" where
  "itoa_spec value base =
     (if base = 10 then show_int (sint value) else show_nat (unat base) (unat value))"

fun digits_value :: "string \<Rightarrow> int" where
  "digits_value [] = 0"
| "digits_value (c # s) = (schar c - 48) * 10 ^ length s + digits_value s"

section \<open>Facts about digits\<close>

lemma sint_of_nat_small: "d < 2 ^ 31 \<Longrightarrow> sint (of_nat d :: u32) = int d"
  by (simp add: signed_of_nat signed_take_bit_int_eq_self)

lemma digit_small: "d < 10 \<Longrightarrow> digit d = to_char (int d + 48)"
  by (simp add: digit_def itoa_digit_def sint_of_nat_small schar_def)

lemma digit_large: "10 \<le> d \<Longrightarrow> d < 36 \<Longrightarrow> digit d = to_char (int d + 87)"
  by (simp add: digit_def itoa_digit_def sint_of_nat_small schar_def add.commute)

lemma schar_digit: "d < 10 \<Longrightarrow> schar (digit d) = int d + 48"
  by (simp add: digit_small schar_to_char_small)

lemma digit_neq_NUL: "d < 36 \<Longrightarrow> digit d \<noteq> NUL"
proof (cases "d < 10")
  case True
  then have "uchar (digit d) = int d + 48" by (simp add: digit_small uchar_to_char)
  then show ?thesis by (metis uchar_eq_0 add_nonneg_eq_0_iff of_nat_0_le_iff zero_le_numeral zero_neq_numeral)
next
  case False
  moreover assume "d < 36"
  ultimately have "uchar (digit d) = int d + 87" by (simp add: digit_large uchar_to_char)
  then show ?thesis by (metis uchar_eq_0 add_nonneg_eq_0_iff of_nat_0_le_iff zero_le_numeral zero_neq_numeral)
qed

lemma rev_digits_no_NUL: "b \<le> 36 \<Longrightarrow> NUL \<notin> set (rev_digits b n)"
proof (induction b n rule: rev_digits.induct)
  case (1 b n)
  show ?case
  proof (cases "n = 0 \<or> b < 2")
    case True
    then show ?thesis by (auto simp: rev_digits.simps [of b n])
  next
    case False
    then have "n mod b < b" by simp
    with "1.prems" have "n mod b < 36" by linarith
    then have "digit (n mod b) \<noteq> NUL" by (rule digit_neq_NUL)
    then show ?thesis using 1 False by (auto simp: rev_digits.simps [of b n])
  qed
qed

lemma show_nat_no_NUL: "b \<le> 36 \<Longrightarrow> NUL \<notin> set (show_nat b n)"
  by (simp add: show_nat_def rev_digits_no_NUL)

lemma show_int_no_NUL: "NUL \<notin> set (show_int z)"
  by (simp add: show_int_def show_nat_no_NUL)

lemma itoa_spec_no_NUL: "unat base \<le> 36 \<Longrightarrow> NUL \<notin> set (itoa_spec value base)"
  by (simp add: itoa_spec_def show_int_no_NUL show_nat_no_NUL)

lemma rev_digits_nonempty: "0 < n \<Longrightarrow> 2 \<le> b \<Longrightarrow> rev_digits b n \<noteq> []"
  by (subst rev_digits.simps) simp

text \<open>A number below \<open>b ^ k\<close> has at most \<open>k\<close> digits.\<close>

lemma length_rev_digits: "n < b ^ k \<Longrightarrow> 2 \<le> b \<Longrightarrow> length (rev_digits b n) \<le> k"
proof (induction k arbitrary: n)
  case 0
  then show ?case by (simp add: rev_digits.simps)
next
  case (Suc k)
  show ?case
  proof (cases "n = 0")
    case False
    have "n div b < b ^ k" using Suc.prems by (simp add: less_mult_imp_div_less mult.commute)
    then have "length (rev_digits b (n div b)) \<le> k" using Suc by blast
    with False Suc.prems show ?thesis by (simp add: rev_digits.simps [of b n])
  qed (simp add: rev_digits.simps)
qed

section \<open>itoa\<close>

lemma itoa_digits_put:
  assumes "valid m p (length (rev_digits (unat base) (unat tmp)))" and "2 \<le> unat base"
  shows "itoa_digits m p tmp base =
    Some (put m p (rev_digits (unat base) (unat tmp)), p + length (rev_digits (unat base) (unat tmp)))"
  using assms(1)
proof (induction "unat tmp" arbitrary: m p tmp rule: less_induct)
  case less
  show ?case
  proof (cases "tmp = 0")
    case True
    then show ?thesis by (subst itoa_digits.simps) (simp add: rev_digits.simps)
  next
    case False
    let ?b = "unat base" and ?n = "unat tmp"
    from False have n: "0 < ?n" by (simp add: unat_gt_0)
    have b0: "base \<noteq> 0" using assms(2) by auto
    have step: "rev_digits ?b ?n = digit (?n mod ?b) # rev_digits ?b (?n div ?b)"
      using n assms(2) by (subst rev_digits.simps) simp
    have dv: "unat (tmp div base) = ?n div ?b" and md: "unat (tmp mod base) = ?n mod ?b"
      by (simp_all add: unat_div_distrib unat_mod_distrib)
    have dg: "itoa_digit (tmp mod base) = digit (?n mod ?b)"
      by (simp add: digit_def flip: md)
    have "?n div ?b < ?n" using n assms(2) by simp
    with dv have lt: "unat (tmp div base) < ?n" by simp
    have v: "p \<in> dom m" "valid m (Suc p) (length (rev_digits ?b (?n div ?b)))"
      using less.prems step by (simp_all add: valid_Suc)
    let ?m = "m(p \<mapsto> digit (?n mod ?b))"
    have "itoa_digits ?m (p + 1) (tmp div base) base =
        Some (put ?m (p + 1) (rev_digits ?b (?n div ?b)), p + 1 + length (rev_digits ?b (?n div ?b)))"
      using less.hyps [OF lt, of ?m "p + 1"] v(2) by (simp add: dv del: fun_upd_apply)
    then show ?thesis
      using False b0 v(1) step dg by (subst itoa_digits.simps) (simp add: st_eq del: fun_upd_apply)
  qed
qed

lemma reverse_loop_put:
  "bytes_at m p xs \<Longrightarrow> reverse_loop m p (p + length xs - 1) = Some (put m p (rev xs))"
proof (induction "length xs" arbitrary: m p xs rule: less_induct)
  case less
  consider "xs = []" | x where "xs = [x]" | x ys y where "xs = x # ys @ [y]"
    by (metis append_butlast_last_id neq_Nil_conv)
  then show ?case
  proof cases
    case 1
    then have "\<not> p < p + length xs - 1" by simp
    with 1 show ?thesis by (subst reverse_loop.simps) (simp only: if_False, simp)
  next
    case 2
    with less.prems show ?thesis by (subst reverse_loop.simps) (auto simp: fun_upd_idem)
  next
    case 3
    let ?q = "Suc p + length ys"
    have at: "m p = Some x" "m ?q = Some y" "bytes_at m (Suc p) ys"
      using less.prems 3 by (simp_all add: bytes_at_append)
    let ?m = "m(p \<mapsto> y, ?q \<mapsto> x)"
    have "bytes_at ?m (Suc p) ys" using at(3) by (simp add: bytes_at_upd)
    then have "reverse_loop ?m (Suc p) (Suc p + length ys - 1) = Some (put ?m (Suc p) (rev ys))"
      using 3 by (intro less.hyps) simp_all
    moreover have "put ?m (Suc p) (rev ys) = put m p (rev xs)"
      unfolding 3 by (simp add: put_append put_upd_commute)
    ultimately show ?thesis
      using at 3 by (subst reverse_loop.simps) (simp add: ld_eq st_eq domI)
  qed
qed

lemma itoa_tail:
  assumes "valid m p (Suc (length ds))" and "ds = rev_digits (unat base) (unat tmp)"
    and "2 \<le> unat base"
  shows "do { (m, q) \<leftarrow> itoa_digits m p tmp base; m \<leftarrow> st m q NUL; reverse_loop m p (q - 1) } =
    Some (put m p (rev ds @ [NUL]))"
proof -
  have v: "valid m p (length ds)" "p + length ds \<in> dom m"
    using assms(1) by (simp_all add: valid_snoc)
  have "itoa_digits m p tmp base = Some (put m p ds, p + length ds)"
    using itoa_digits_put [of m p base tmp] v(1) assms(2,3) by simp
  moreover have "st (put m p ds) (p + length ds) NUL = Some (put m p (ds @ [NUL]))"
    using v(2) by (simp add: st_eq dom_put put_snoc)
  moreover have "bytes_at (put m p (ds @ [NUL])) p ds"
    using bytes_at_put [of m p "ds @ [NUL]"] by (simp add: bytes_at_append)
  then have "reverse_loop (put m p (ds @ [NUL])) p (p + length ds - 1) =
      Some (put (put m p (ds @ [NUL])) p (rev ds))"
    by (rule reverse_loop_put)
  moreover have "put (put m p (ds @ [NUL])) p (rev ds) = put m p (rev ds @ [NUL])"
    by (simp add: put_snoc put_upd_commute put_put_overwrite)
  ultimately show ?thesis by simp
qed

lemma itoa_put:
  assumes "valid m p (Suc (length (itoa_spec value base)))" and "2 \<le> unat base"
  shows "itoa m value p base = Some (put m p (itoa_spec value base @ [NUL]))"
proof (cases "value = 0")
  case True
  then have "itoa_spec value base = ''0''"
    by (simp add: itoa_spec_def show_int_def show_nat_def)
  with True assms(1) show ?thesis
    by (simp add: itoa_def st_eq valid_Suc)
next
  case False
  show ?thesis
  proof (cases "sint value < 0 \<and> base = 10")
    case True
    let ?ds = "rev_digits (unat base) (unat (- value))"
    have "unat (- value) = nat (- sint value)"
      using uint_minus_neg True by (simp add: unat_eq_nat_uint)
    then have spec: "itoa_spec value base = CHR ''-'' # rev ?ds"
      using True by (simp add: itoa_spec_def show_int_def show_nat_def)
    let ?m = "m(p \<mapsto> CHR ''-'')"
    have "valid ?m (Suc p) (Suc (length ?ds))" and "p \<in> dom m"
      using assms(1) spec by (simp_all add: valid_Suc)
    then show ?thesis
      using itoa_tail [of ?m "Suc p" ?ds base "- value"] False True assms(2) spec
      by (simp add: itoa_def st_eq)
  next
    case neg: False
    let ?ds = "rev_digits (unat base) (unat value)"
    have "0 < unat value" using False by (simp add: unat_gt_0)
    have spec: "itoa_spec value base = rev ?ds"
    proof (cases "base = 10")
      case True
      with neg have "unat value = nat (sint value)"
        using uint_sint_nonneg [of "value"] by (simp add: unat_eq_nat_uint)
      with True neg \<open>0 < unat value\<close> show ?thesis
        by (simp add: itoa_spec_def show_int_def show_nat_def)
    next
      case False
      with \<open>0 < unat value\<close> show ?thesis
        by (simp add: itoa_spec_def show_nat_def)
    qed
    with assms(1) have "valid m p (Suc (length ?ds))" by simp
    with spec neg False show ?thesis
      using itoa_tail [of m p ?ds base "value"] assms(2) by (auto simp: itoa_def)
  qed
qed

text \<open>The widest results: 11 bytes with the sign in base 10, 8 in base 16.\<close>

lemma length_show_nat: "n < b ^ k \<Longrightarrow> 2 \<le> b \<Longrightarrow> 0 < k \<Longrightarrow> length (show_nat b n) \<le> k"
  using length_rev_digits [of n b k] by (simp add: show_nat_def)

lemma length_show_int: "- (2 ^ 31) \<le> z \<Longrightarrow> z < 2 ^ 32 \<Longrightarrow> length (show_int z) \<le> 11"
proof -
  assume "- (2 ^ 31) \<le> z" "z < 2 ^ 32"
  then have "nat z < 10 ^ 10" "nat (- z) < 10 ^ 10" by (simp_all add: nat_less_iff)
  then have "length (show_nat 10 (nat z)) \<le> 10" "length (show_nat 10 (nat (- z))) \<le> 10"
    by (intro length_show_nat; simp)+
  then show ?thesis by (simp add: show_int_def)
qed

lemma length_itoa_spec_10: "length (itoa_spec value 10) \<le> 11"
  using length_show_int [of "sint value"] sint_range_u32 [of "value"] by (simp add: itoa_spec_def)

lemma length_itoa_spec_16: "length (itoa_spec value 16) \<le> 8"
  using length_show_nat [of "unat value" 16 8] unsigned_less [of "value", where ?'a = nat]
  by (simp add: itoa_spec_def)

section \<open>atoi\<close>

text \<open>The value \<^verbatim>\<open>atoi\<close> reads, before it is reduced to 32 bits.\<close>

definition strip_sign :: "string \<Rightarrow> int \<times> string" where
  "strip_sign s =
     (case s of [] \<Rightarrow> (1, [])
      | c # t \<Rightarrow> if c = CHR ''-'' then (- 1, t) else if c = CHR ''+'' then (1, t) else (1, s))"

definition atoi_spec :: "string \<Rightarrow> int" where
  "atoi_spec s =
     (case strip_sign (dropWhile is_space s) of
        (sign, u) \<Rightarrow> sign * digits_value (takeWhile is_digit u))"

lemma is_digit_NUL [simp]: "\<not> is_digit NUL"
  by (simp add: is_digit_def schar_def)

lemma is_space_NUL [simp]: "\<not> is_space NUL"
  by (simp add: is_space_def)

lemma schar_0 [simp]: "schar (CHR ''0'') = 48"
  by (simp add: schar_def)

lemma atoi_skip_cstr:
  "cstr m p s \<Longrightarrow> atoi_skip m p = Some (p + length (takeWhile is_space s))"
proof (induction s arbitrary: p)
  case Nil
  then show ?case by (subst atoi_skip.simps) (simp add: ld_eq)
next
  case (Cons c s)
  then show ?case by (subst atoi_skip.simps) (simp add: ld_eq)
qed

lemma atoi_digits_cstr:
  "cstr m p s \<Longrightarrow> atoi_digits m p r =
     Some (r * 10 ^ length (takeWhile is_digit s) + word_of_int (digits_value (takeWhile is_digit s)))"
proof (induction s arbitrary: p r)
  case Nil
  then show ?case by (subst atoi_digits.simps) (simp add: ld_eq)
next
  case (Cons c s)
  let ?r = "r * 10 + word_of_int (schar c - 48)"
  have "atoi_digits m (Suc p) ?r = Some (?r * 10 ^ length (takeWhile is_digit s) +
      word_of_int (digits_value (takeWhile is_digit s)))"
    using Cons by simp
  then show ?case
    using Cons.prems by (subst atoi_digits.simps) (simp add: ld_eq algebra_simps)
qed

lemma atoi_cstr [mem_simps]:
  assumes "cstr m p s"
  shows "atoi m p = Some (word_of_int (atoi_spec s))"
proof -
  let ?t = "dropWhile is_space s" and ?q = "p + length (takeWhile is_space s)"
  have t: "cstr m ?q ?t" using assms by (metis cstr_append takeWhile_dropWhile_id)
  have skip: "atoi_skip m p = Some ?q" using assms by (rule atoi_skip_cstr)
  show ?thesis
  proof (cases ?t)
    case Nil
    with t skip show ?thesis
      using atoi_digits_cstr [OF t, of 0]
      by (simp add: atoi_def ld_eq atoi_spec_def strip_sign_def del: dropWhile_eq_Nil_conv)
  next
    case (Cons c u)
    then have u: "cstr m (Suc ?q) u" and c: "m ?q = Some c" using t by simp_all
    show ?thesis
      using skip c Cons atoi_digits_cstr [OF u, of 0] atoi_digits_cstr [OF t, of 0]
      by (simp add: atoi_def ld_eq atoi_spec_def strip_sign_def)
  qed
qed

section \<open>Round trip\<close>

lemma digits_value_snoc: "digits_value (s @ [c]) = digits_value s * 10 + (schar c - 48)"
  by (induction s) (simp_all add: algebra_simps)

lemma digits_value_rev_digits: "digits_value (rev (rev_digits 10 n)) = int n"
proof (induction "10 :: nat" n rule: rev_digits.induct)
  case (1 n)
  have "int n = int (n div 10) * 10 + int (n mod 10)" by presburger
  with 1 show ?case
    by (subst rev_digits.simps) (auto simp: digits_value_snoc schar_digit)
qed

lemma digits_value_show_nat: "digits_value (show_nat 10 n) = int n"
  by (simp add: show_nat_def digits_value_rev_digits)

lemma is_digit_digit: "d < 10 \<Longrightarrow> is_digit (digit d)"
  by (simp add: is_digit_def schar_digit) (simp add: schar_def)

lemma rev_digits_are_digits: "\<forall>c \<in> set (rev_digits 10 n). is_digit c"
proof (induction "10 :: nat" n rule: rev_digits.induct)
  case (1 n)
  then show ?case by (subst rev_digits.simps) (auto simp: is_digit_digit)
qed

lemma show_nat_are_digits: "\<forall>c \<in> set (show_nat 10 n). is_digit c"
  using rev_digits_are_digits by (simp add: show_nat_def is_digit_def schar_def)

lemma is_digit_not_sign: "is_digit c \<Longrightarrow> \<not> is_space c \<and> c \<noteq> CHR ''-'' \<and> c \<noteq> CHR ''+''"
  by (auto simp: is_digit_def is_space_def schar_def)

lemma show_nat_nonempty: "show_nat 10 n \<noteq> []"
  using rev_digits_nonempty [of n 10] by (simp add: show_nat_def)

lemma atoi_spec_show_int: "atoi_spec (show_int z) = z"
proof -
  have tw: "takeWhile is_digit (show_nat 10 n) = show_nat 10 n" for n
    using show_nat_are_digits [of n] by (simp add: takeWhile_eq_all_conv)
  show ?thesis
  proof (cases "z < 0")
    case True
    then show ?thesis
      by (simp add: atoi_spec_def show_int_def is_space_def strip_sign_def tw digits_value_show_nat)
  next
    case False
    obtain c s where s: "show_nat 10 (nat z) = c # s"
      using show_nat_nonempty [of "nat z"] by (auto simp: neq_Nil_conv)
    then have "\<not> is_space c \<and> c \<noteq> CHR ''-'' \<and> c \<noteq> CHR ''+''"
      using show_nat_are_digits [of "nat z"] is_digit_not_sign by auto
    then have "strip_sign (dropWhile is_space (show_nat 10 (nat z))) = (1, show_nat 10 (nat z))"
      using s by (simp add: strip_sign_def)
    with False show ?thesis
      by (simp add: atoi_spec_def show_int_def tw digits_value_show_nat)
  qed
qed

end
