(* ===== verification/Kheap.thy ===== *)
theory Kheap
  imports Prelude
begin

text \<open>
  The kernel heap, \<^verbatim>\<open>kernel/memory.c\<close>: a bump allocator over the static array \<^verbatim>\<open>heap\<close> of
  64 KiB. \<open>heap_base\<close> is the address the linker gives to \<^verbatim>\<open>heap[0]\<close>; the model keeps it as a
  field because pointers are addresses. The interface \<open>allocator\<close> states what the callers of
  \<^verbatim>\<open>kmalloc\<close> rely on.
\<close>

section \<open>State and operations\<close>

record kheap =
  heap_base :: addr
  heap_pos :: u32
  total_memory :: u32

definition HEAP_SIZE :: u32 where
  "HEAP_SIZE = 0x10000"

definition heap_init :: "addr \<Rightarrow> kheap" where
  "heap_init base = \<lparr>heap_base = base, heap_pos = 0, total_memory = 0\<rparr>"

definition detect_memory :: "kheap \<Rightarrow> kheap \<times> u32" where
  "detect_memory h = (let h' = h\<lparr>total_memory := 64 * 1024 * 1024\<rparr> in (h', total_memory h'))"

text \<open>\<^verbatim>\<open>(size + 3) & ~3\<close>\<close>

definition align4 :: "u32 \<Rightarrow> u32" where
  "align4 sz = (sz + 3) AND NOT 3"

definition kmalloc :: "kheap \<Rightarrow> u32 \<Rightarrow> kheap \<times> addr" where
  "kmalloc h sz =
     (if heap_pos h + sz > HEAP_SIZE then (h, NULL)
      else (h\<lparr>heap_pos := heap_pos h + align4 sz\<rparr>, heap_base h + unat (heap_pos h)))"

text \<open>\<^verbatim>\<open>&heap[heap_pos - 1]\<close>: the index wraps when the heap is empty, and so does the address.\<close>

definition kfree :: "kheap \<Rightarrow> addr \<Rightarrow> kheap" where
  "kfree h ptr =
     (if ptr = (heap_base h + unat (heap_pos h - 1)) mod 2 ^ 32
      then h\<lparr>heap_pos := of_nat ptr - of_nat (heap_base h)\<rparr> else h)"

declare kmalloc_def [exec_simps] HEAP_SIZE_def [exec_simps] align4_def [exec_simps]

section \<open>Invariant\<close>

text \<open>The position is a multiple of 4 inside the array, and the array is inside the address space.\<close>

definition kheap_inv :: "kheap \<Rightarrow> bool" where
  "kheap_inv h \<longleftrightarrow> unat (heap_pos h) mod 4 = 0 \<and> unat (heap_pos h) \<le> 0x10000 \<and>
     0 < heap_base h \<and> heap_base h + 0x10000 < 2 ^ 32"

definition frontier :: "kheap \<Rightarrow> addr" where
  "frontier h = heap_base h + unat (heap_pos h)"

lemma kheap_inv_init [inv_intros]: "0 < base \<Longrightarrow> base + 0x10000 < 2 ^ 32 \<Longrightarrow> kheap_inv (heap_init base)"
  by (simp add: kheap_inv_def heap_init_def)

text \<open>Rounding up to a multiple of 4 commutes with the wrap-around of a word.\<close>

lemma mod_once: "(N :: nat) \<le> x \<Longrightarrow> x < N + N \<Longrightarrow> x mod N = x - N"
  by (simp add: le_mod_geq)

lemma align_wrap:
  fixes N k n :: nat
  assumes "n < 4 * N" and "4 * k < 4 * N" and "(4 * k + n) mod (4 * N) + 3 < 4 * N"
  shows "(4 * k + (n + 3) mod (4 * N) div 4 * 4) mod (4 * N) = ((4 * k + n) mod (4 * N) + 3) div 4 * 4"
proof (cases "4 * k + n < 4 * N")
  case True
  with assms(3) have n: "4 * k + n + 3 < 4 * N" by simp
  then have "(n + 3) mod (4 * N) = n + 3" by simp
  moreover have "4 * k + (n + 3) div 4 * 4 = (4 * k + n + 3) div 4 * 4" by presburger
  moreover have "(4 * k + n + 3) div 4 * 4 < 4 * N" using n by presburger
  ultimately show ?thesis using True by simp
next
  case False
  have w: "(4 * k + n) mod (4 * N) = 4 * k + n - 4 * N"
    by (rule mod_once) (use False assms(1,2) in linarith)+
  have N1: "1 \<le> N" using assms(1) by (cases N) auto
  define j where "j = N - k"
  have j: "N = k + j" using assms(2) by (simp add: j_def)
  define r where "r = n - 4 * j"
  have r: "n = 4 * j + r" using False j by (simp add: r_def)
  have sub: "4 * k + n - 4 * N = r" using j r by simp
  have up: "(n + 3) div 4 * 4 = 4 * j + (r + 3) div 4 * 4" unfolding r by presburger
  show ?thesis
  proof (cases "n + 3 < 4 * N")
    case True
    have "(r + 3) div 4 * 4 \<le> r + 3" by simp
    with True j r have "4 * k + (n + 3) div 4 * 4 < 4 * N + 4 * N" using up by linarith
    moreover have "4 * k + (n + 3) div 4 * 4 = 4 * N + (r + 3) div 4 * 4" using up j by simp
    ultimately show ?thesis using True w sub by (simp add: mod_once)
  next
    case big: False
    have "(n + 3) mod (4 * N) = n + 3 - 4 * N" by (intro mod_once) (use big N1 assms(1) in linarith)+
    moreover have "n + 3 - 4 * N < 4" using assms(1) by simp
    then have "(n + 3 - 4 * N) div 4 * 4 = 0" by simp
    moreover have "4 * k \<le> r + 3" and "r < 4 * k" using big assms(1) j r by linarith+
    then have "(r + 3) div 4 * 4 = 4 * k" by presburger
    ultimately show ?thesis using assms(2) w sub by simp
  qed
qed

lemma kmalloc_pos:
  assumes "unat (heap_pos h) mod 4 = 0" and "heap_pos h + sz \<le> HEAP_SIZE"
  shows "unat (heap_pos h + align4 sz) = (unat (heap_pos h + sz) + 3) div 4 * 4"
proof -
  let ?p = "heap_pos h" and ?s = "align4 sz"
  obtain k where k: "unat ?p = 4 * k" using assms(1) by auto
  have s: "unat ?s = (unat sz + 3) mod 2 ^ 32 div 4 * 4"
    by (simp only: align4_def unat_and_not_3 minus_mod_eq_div_mult) (simp add: unat_word_ariths)
  have sum: "unat (?p + sz) = (4 * k + unat sz) mod 2 ^ 32"
    by (simp add: unat_word_ariths k)
  have le: "unat (?p + sz) \<le> 65536"
    using assms(2) by (simp add: HEAP_SIZE_def word_le_nat_alt)
  have "unat sz < 2 ^ 32" "unat ?p < 2 ^ 32"
    using unsigned_less [of sz, where ?'a = nat] unsigned_less [of ?p, where ?'a = nat] by simp_all
  then have "(4 * k + (unat sz + 3) mod (4 * 2 ^ 30) div 4 * 4) mod (4 * 2 ^ 30) =
      ((4 * k + unat sz) mod (4 * 2 ^ 30) + 3) div 4 * 4"
    using le k unfolding sum by (intro align_wrap) simp_all
  then show ?thesis by (simp add: unat_word_ariths k s sum)
qed

lemma kmalloc_inv [inv_intros]: "kheap_inv h \<Longrightarrow> kheap_inv (fst (kmalloc h sz))"
proof -
  assume inv: "kheap_inv h"
  show ?thesis
  proof (cases "heap_pos h + sz > HEAP_SIZE")
    case True
    with inv show ?thesis by (simp add: kmalloc_def)
  next
    case False
    then have "unat (heap_pos h + sz) \<le> 65536"
      by (simp add: HEAP_SIZE_def word_le_nat_alt not_less)
    then have "(unat (heap_pos h + sz) + 3) div 4 * 4 \<le> 65536" by presburger
    with inv False show ?thesis
      by (simp add: kmalloc_def kheap_inv_def not_less) (simp add: kmalloc_pos)
  qed
qed

lemma kmalloc_base [simp]: "heap_base (fst (kmalloc h sz)) = heap_base h"
  by (simp add: kmalloc_def)

lemma kmalloc_total [simp]: "total_memory (fst (kmalloc h sz)) = total_memory h"
  by (simp add: kmalloc_def)

text \<open>A request that cannot wrap fails exactly when the block does not fit.\<close>

lemma kmalloc_small:
  assumes "kheap_inv h" and "unat sz \<le> 0xFFFE0000"
  shows "kmalloc h sz =
    (if unat (heap_pos h) + unat sz \<le> 0x10000
     then (h\<lparr>heap_pos := of_nat ((unat (heap_pos h) + unat sz + 3) div 4 * 4)\<rparr>, frontier h)
     else (h, NULL))"
proof -
  have sum: "unat (heap_pos h + sz) = unat (heap_pos h) + unat sz"
    using assms by (intro unat_add_less) (simp add: kheap_inv_def)
  have fits: "heap_pos h + sz \<le> HEAP_SIZE \<longleftrightarrow> unat (heap_pos h) + unat sz \<le> 0x10000"
    by (simp add: HEAP_SIZE_def word_le_nat_alt sum)
  show ?thesis
  proof (cases "unat (heap_pos h) + unat sz \<le> 0x10000")
    case True
    then have "unat (heap_pos h + align4 sz) = (unat (heap_pos h) + unat sz + 3) div 4 * 4"
      using assms(1) fits kmalloc_pos [of h sz] by (simp add: kheap_inv_def sum)
    then have "heap_pos h + align4 sz = of_nat ((unat (heap_pos h) + unat sz + 3) div 4 * 4)"
      by (metis of_nat_unat ucast_id)
    moreover have "\<not> HEAP_SIZE < heap_pos h + sz" using True fits by (simp only: not_less)
    ultimately show ?thesis using True by (simp only: kmalloc_def frontier_def if_False if_True)
  next
    case False
    with fits show ?thesis by (simp add: kmalloc_def not_less)
  qed
qed

lemma kmalloc_block:
  assumes "kheap_inv h" and "unat sz \<le> 0xFFFE0000" and "kmalloc h sz = (h', p)" and "p \<noteq> NULL"
  shows "p = frontier h" and "p + unat sz \<le> frontier h'"
    and "frontier h' \<le> heap_base h + 0x10000" and "kheap_inv h'" and "heap_base h' = heap_base h"
proof -
  have fit: "unat (heap_pos h) + unat sz \<le> 0x10000" and p: "p = frontier h"
    and h': "h' = h\<lparr>heap_pos := of_nat ((unat (heap_pos h) + unat sz + 3) div 4 * 4)\<rparr>"
    using assms kmalloc_small [OF assms(1,2)] by (auto split: if_splits)
  show "p = frontier h" by (rule p)
  have "(unat (heap_pos h) + unat sz + 3) div 4 * 4 \<le> 65536" using fit by presburger
  then have "unat (of_nat ((unat (heap_pos h) + unat sz + 3) div 4 * 4) :: u32) =
      (unat (heap_pos h) + unat sz + 3) div 4 * 4"
    by (intro unat_of_nat_u32) simp
  then have "unat (heap_pos h') = (unat (heap_pos h) + unat sz + 3) div 4 * 4"
    unfolding h' by simp
  with p show "p + unat sz \<le> frontier h'" by (simp add: frontier_def h')
  show "kheap_inv h'" using kmalloc_inv [OF assms(1), of sz] assms(3) by simp
  then show "frontier h' \<le> heap_base h + 0x10000" by (simp add: frontier_def h' kheap_inv_def)
  show "heap_base h' = heap_base h" by (simp add: h')
qed

lemma kmalloc_round:
  assumes "kheap_inv h" and "unat sz \<le> 0xFFFE0000" and "kmalloc h sz = (h', p)" and "p \<noteq> NULL"
  shows "unat (heap_pos h') \<le> unat (heap_pos h) + unat sz + 3"
proof -
  have fit: "heap_pos h + sz \<le> HEAP_SIZE" and h': "heap_pos h' = heap_pos h + align4 sz"
    using assms(3,4) by (auto simp: kmalloc_def split: if_splits)
  have "unat (heap_pos h + sz) = unat (heap_pos h) + unat sz"
    using assms by (intro unat_add_less) (simp add: kheap_inv_def)
  then have "unat (heap_pos h') = (unat (heap_pos h) + unat sz + 3) div 4 * 4"
    using kmalloc_pos [OF _ fit] assms(1) by (simp add: h' kheap_inv_def)
  then show ?thesis by simp
qed

lemma kmalloc_fail: "kheap_inv h \<Longrightarrow> kmalloc h sz = (h', NULL) \<Longrightarrow> h' = h"
  by (auto simp: kmalloc_def kheap_inv_def split: if_splits)

text \<open>\<^verbatim>\<open>kfree\<close> compares with an odd address, so it never gives back an aligned block.\<close>

lemma kfree_aligned:
  assumes "kheap_inv h" and "heap_base h \<le> ptr" and "ptr \<le> heap_base h + 0x10000"
    and "(ptr - heap_base h) mod 4 = 0"
  shows "kfree h ptr = h"
proof (cases "heap_pos h = 0")
  case True
  then have "unat (heap_pos h - 1) = 2 ^ 32 - 1" by (simp add: unat_minus_1_u32)
  moreover have "(heap_base h + (2 ^ 32 - 1)) mod 2 ^ 32 = heap_base h - 1"
  proof -
    have "heap_base h + (2 ^ 32 - 1) = (heap_base h - 1) + 2 ^ 32" "heap_base h - 1 < 2 ^ 32"
      using assms(1) by (auto simp: kheap_inv_def)
    then show ?thesis by (simp only: mod_add_self2 mod_less)
  qed
  ultimately show ?thesis using assms by (auto simp: kfree_def kheap_inv_def)
next
  case False
  then have "0 < unat (heap_pos h)" by (simp add: unat_gt_0)
  have "unat (heap_pos h - 1) = unat (heap_pos h) - 1" using False by (rule unat_minus_one)
  moreover have "heap_base h + (unat (heap_pos h) - 1) < 2 ^ 32"
    using assms(1) by (auto simp: kheap_inv_def)
  moreover have "ptr \<noteq> heap_base h + (unat (heap_pos h) - 1)"
  proof
    assume "ptr = heap_base h + (unat (heap_pos h) - 1)"
    then have "(unat (heap_pos h) - 1) mod 4 = 0" using assms(4) by simp
    moreover have "unat (heap_pos h) mod 4 = 0" using assms(1) by (simp add: kheap_inv_def)
    ultimately show False using \<open>0 < unat (heap_pos h)\<close> by presburger
  qed
  ultimately show ?thesis by (simp add: kfree_def)
qed

section \<open>The interface of an allocator\<close>

text \<open>
  What a client of \<^verbatim>\<open>kmalloc\<close> relies on: a successful request that is not absurdly large
  gives a block between the old and the new frontier, a failed one changes nothing.
\<close>

locale allocator =
  fixes alloc :: "'h \<Rightarrow> u32 \<Rightarrow> 'h \<times> addr"
    and inv :: "'h \<Rightarrow> bool"
    and front :: "'h \<Rightarrow> nat"
    and lim :: "'h \<Rightarrow> nat"
  assumes alloc_inv: "inv h \<Longrightarrow> inv (fst (alloc h n))"
    and alloc_lim: "lim (fst (alloc h n)) = lim h"
    and alloc_fail: "inv h \<Longrightarrow> alloc h n = (h', NULL) \<Longrightarrow> h' = h"
    and alloc_block: "inv h \<Longrightarrow> unat n \<le> 0xFFFE0000 \<Longrightarrow> alloc h n = (h', p) \<Longrightarrow> p \<noteq> NULL \<Longrightarrow>
      p = front h \<and> p + unat n \<le> front h'"
    and front_lim: "inv h \<Longrightarrow> front h \<le> lim h"

text \<open>A run of requests, and the blocks it obtained, newest first.\<close>

fun alloc_run :: "('h \<Rightarrow> u32 \<Rightarrow> 'h \<times> addr) \<Rightarrow> 'h \<Rightarrow> u32 list \<Rightarrow> 'h \<times> (addr \<times> nat) list" where
  "alloc_run alloc h [] = (h, [])"
| "alloc_run alloc h (n # ns) =
     (case alloc_run alloc h ns of (h1, bs) \<Rightarrow>
        (case alloc h1 n of (h2, p) \<Rightarrow> (h2, if p = NULL then bs else (p, unat n) # bs)))"

fun blocks_apart :: "(addr \<times> nat) list \<Rightarrow> bool" where
  "blocks_apart [] = True"
| "blocks_apart ((p, n) # bs) = ((\<forall>(q, k) \<in> set bs. q + k \<le> p \<or> p + n \<le> q) \<and> blocks_apart bs)"

context allocator
begin

lemma front_mono: "inv h \<Longrightarrow> unat n \<le> 0xFFFE0000 \<Longrightarrow> front h \<le> front (fst (alloc h n))"
proof (cases "snd (alloc h n) = NULL")
  case True
  assume "inv h"
  with True alloc_fail [of h n "fst (alloc h n)"] show ?thesis
    by (metis order_refl prod.collapse)
next
  case False
  assume "inv h" "unat n \<le> 0xFFFE0000"
  with False show ?thesis using alloc_block [of h n "fst (alloc h n)" "snd (alloc h n)"] by simp
qed

lemma run_blocks:
  "inv h \<Longrightarrow> \<forall>n \<in> set ns. unat n \<le> 0xFFFE0000 \<Longrightarrow> alloc_run alloc h ns = (h', bs) \<Longrightarrow>
   inv h' \<and> front h \<le> front h' \<and> lim h' = lim h \<and> blocks_apart bs \<and>
   (\<forall>(p, n) \<in> set bs. front h \<le> p \<and> p + n \<le> front h')"
proof (induction ns arbitrary: h' bs)
  case Nil
  then show ?case by simp
next
  case (Cons n ns)
  obtain h1 bs1 where run: "alloc_run alloc h ns = (h1, bs1)" by fastforce
  obtain p where al: "alloc h1 n = (h', p)" and bs: "bs = (if p = NULL then bs1 else (p, unat n) # bs1)"
    using Cons.prems(3) run by (auto split: prod.splits)
  have IH: "inv h1" "front h \<le> front h1" "lim h1 = lim h" "blocks_apart bs1"
      "\<forall>(p, n) \<in> set bs1. front h \<le> p \<and> p + n \<le> front h1"
    using Cons.IH [OF Cons.prems(1) _ run] Cons.prems(2) by auto
  have n: "unat n \<le> 0xFFFE0000" using Cons.prems(2) by simp
  have h': "inv h'" "front h1 \<le> front h'" "lim h' = lim h"
    using alloc_inv [OF IH(1), of n] front_mono [OF IH(1) n] alloc_lim [of h1 n] al IH(3) by simp_all
  show ?case
  proof (cases "p = NULL")
    case True
    with IH h' bs show ?thesis by fastforce
  next
    case False
    with alloc_block [OF IH(1) n al] have "p = front h1" "p + unat n \<le> front h'" by simp_all
    with IH h' bs False show ?thesis by fastforce
  qed
qed

end

interpretation km: allocator kmalloc kheap_inv frontier "\<lambda>h. heap_base h + 0x10000"
proof unfold_locales
  fix h h' :: kheap and n :: u32 and p :: addr
  show "kheap_inv h \<Longrightarrow> kheap_inv (fst (kmalloc h n))" by (rule kmalloc_inv)
  show "heap_base (fst (kmalloc h n)) + 0x10000 = heap_base h + 0x10000" by simp
  show "kheap_inv h \<Longrightarrow> kmalloc h n = (h', NULL) \<Longrightarrow> h' = h" by (rule kmalloc_fail)
  show "kheap_inv h \<Longrightarrow> unat n \<le> 0xFFFE0000 \<Longrightarrow> kmalloc h n = (h', p) \<Longrightarrow> p \<noteq> NULL \<Longrightarrow>
      p = frontier h \<and> p + unat n \<le> frontier h'"
    using kmalloc_block(1,2) by blast
  show "kheap_inv h \<Longrightarrow> frontier h \<le> heap_base h + 0x10000"
    by (simp add: frontier_def kheap_inv_def)
qed

end
