(* ===== verification/LibProps.thy ===== *)
theory LibProps
  imports CStringMem CStringScan CStringNum Kheap
begin

text \<open>
  The properties of the C library (\<^verbatim>\<open>lib/string.c\<close>) and of the kernel heap
  (\<^verbatim>\<open>kernel/memory.c\<close>), with their witnesses on concrete memories.
\<close>

section \<open>Blocks and strings\<close>

text \<open>C27: \<^verbatim>\<open>memmove\<close> moves a block correctly however the two ranges overlap: the destination
  receives the bytes the source held before the call, and every other byte is unchanged.\<close>

theorem memmove_overlap:
  assumes "bytes_at m s bs" and "valid m d (length bs)"
  shows "\<exists>m'. memmove m d s (length bs) = Some m' \<and> bytes_at m' d bs \<and>
    (\<forall>a. a < d \<or> d + length bs \<le> a \<longrightarrow> m' a = m a)"
  using memmove_put [OF assms] by (auto simp: bytes_at_put put_outside)

lemma memmove_overlap_witness:
  "\<exists>m'. memmove (put Map.empty 10 ''abcdef'') 12 10 (length ''abcd'') = Some m' \<and>
    bytes_at m' 12 ''abcd'' \<and>
    (\<forall>a. a < 12 \<or> 12 + length ''abcd'' \<le> a \<longrightarrow> m' a = put Map.empty 10 ''abcdef'' a)"
  by (rule memmove_overlap) (simp_all add: valid_eval)

text \<open>\<^verbatim>\<open>strcat\<close> leaves the concatenation of the two strings at the destination, does not touch
  a byte outside the space of the result, and leaves the source readable.\<close>

theorem strcat_concat:
  assumes "cstr m d a" and "cstr m s b" and "valid m d (Suc (length a + length b))"
    and "apart d (Suc (length a + length b)) s (Suc (length b))"
  shows "\<exists>m'. strcat m d s = Some m' \<and> cstr m' d (a @ b) \<and> cstr m' s b \<and>
    (\<forall>x. x < d + length a \<or> d + length a + length b < x \<longrightarrow> m' x = m x)"
proof -
  let ?m = "put m (d + length a) (b @ [NUL])"
  have "NUL \<notin> set b" using assms(2) by (simp add: cstr_def)
  then have "cstr ?m d (a @ b)" by (rule cstr_after_append [OF assms(1)])
  moreover have "cstr ?m s b"
    using assms(2,4) by (subst cstr_put_apart) (auto simp: apart_def)
  ultimately show ?thesis using strcat_put [OF assms] by (auto simp: put_outside)
qed

lemma strcat_concat_witness:
  "\<exists>m'. strcat (put (put Map.empty 10 (''ab'' @ NUL # ''xxxxx'')) 30 (''cd'' @ [NUL])) 10 30 = Some m' \<and>
    cstr m' 10 (''ab'' @ ''cd'') \<and> cstr m' 30 ''cd'' \<and>
    (\<forall>x. x < 10 + length ''ab'' \<or> 10 + length ''ab'' + length ''cd'' < x \<longrightarrow>
      m' x = put (put Map.empty 10 (''ab'' @ NUL # ''xxxxx'')) 30 (''cd'' @ [NUL]) x)"
  by (rule strcat_concat) (simp_all add: valid_eval apart_def)

text \<open>\<^verbatim>\<open>strncpy\<close> writes exactly \<open>n\<close> bytes: the string cut to \<open>n\<close> bytes, then null bytes. The
  result is a C string exactly when the source is shorter than \<open>n\<close>.\<close>

theorem strncpy_bounded:
  assumes "cstr m s t" and "valid m d n" and "apart d n s (Suc (length t))"
  shows "\<exists>m'. strncpy m d s n = Some m' \<and>
    bytes_at m' d (take n t @ replicate (n - length t) NUL) \<and>
    (\<forall>a. a < d \<or> d + n \<le> a \<longrightarrow> m' a = m a) \<and>
    (length t < n \<longrightarrow> cstr m' d t) \<and>
    (n \<le> length t \<longrightarrow> (\<forall>i < n. m' (d + i) \<noteq> Some NUL))"
proof -
  let ?m = "put m d (padded n t)"
  have t: "NUL \<notin> set t" using assms(1) by (simp add: cstr_def)
  have b: "bytes_at ?m d (padded n t)" by (rule bytes_at_put)
  have short: "cstr ?m d t" if "length t < n"
  proof -
    have "padded n t = (t @ [NUL]) @ replicate (n - length t - 1) NUL"
      using that by (cases "n - length t") (auto simp: padded_def)
    with b t show ?thesis by (simp only: cstr_def bytes_at_append) simp
  qed
  have long: "?m (d + i) \<noteq> Some NUL" if "n \<le> length t" "i < n" for i
  proof -
    have "padded n t ! i = t ! i" using that by (simp add: padded_def)
    moreover have "t ! i \<in> set t" using that by simp
    moreover have "?m (d + i) = Some (padded n t ! i)" using that(2) by (simp add: put_apply)
    ultimately show ?thesis using t by auto
  qed
  show ?thesis using strncpy_put [OF assms] b short long
    by (auto simp: put_outside padded_def)
qed

lemma strncpy_bounded_witness:
  "\<exists>m'. strncpy (put (put Map.empty 10 ''zzzzz'') 30 (''ab'' @ [NUL])) 10 30 4 = Some m' \<and>
    bytes_at m' 10 (take 4 ''ab'' @ replicate (4 - length ''ab'') NUL) \<and>
    (\<forall>a. a < 10 \<or> 10 + 4 \<le> a \<longrightarrow> m' a = put (put Map.empty 10 ''zzzzz'') 30 (''ab'' @ [NUL]) a) \<and>
    (length ''ab'' < 4 \<longrightarrow> cstr m' 10 ''ab'') \<and>
    (4 \<le> length ''ab'' \<longrightarrow> (\<forall>i < 4. m' (10 + i) \<noteq> Some NUL))"
  by (rule strncpy_bounded) (simp_all add: valid_eval apart_def)

text \<open>\<^verbatim>\<open>strcpy\<close> checks nothing: when the destination object ends before the copy does, the
  call writes past it.\<close>

theorem strcpy_unchecked:
  assumes "cstr m s t" and "k \<le> length t" and "d + k \<notin> dom m"
    and "apart d (Suc (length t)) s (Suc (length t))"
  shows "strcpy m d s = None"
  by (rule strcpy_overflow [OF assms])

lemma strcpy_unchecked_witness:
  "strcpy (put (put Map.empty 10 ''zz'') 30 (''ab'' @ [NUL])) 10 30 = None"
  by (rule strcpy_unchecked [of _ _ "''ab''" 2]) (simp_all add: apart_def)

text \<open>\<^verbatim>\<open>strcmp\<close> returns on every pair of C strings and its sign is the lexicographic order
  on unsigned bytes: zero exactly for equal strings, negative exactly when the first is less.\<close>

theorem strcmp_order:
  assumes "cstr m p s" and "cstr m q t"
  shows "\<exists>r. strcmp m p q = Some r \<and> (r = 0 \<longleftrightarrow> s = t) \<and> (r < 0 \<longleftrightarrow> str_less s t)"
proof -
  have "NUL \<notin> set s" "NUL \<notin> set t" using assms by (simp_all add: cstr_def)
  then show ?thesis using strcmp_cstr [OF assms] by (simp add: strcmp_spec_eq_0 strcmp_spec_neg)
qed

lemma strcmp_order_witness:
  "\<exists>r. strcmp (put (put Map.empty 10 (''ab'' @ [NUL])) 30 (''b'' @ [NUL])) 10 30 = Some r \<and>
    (r = 0 \<longleftrightarrow> ''ab'' = ''b'') \<and> (r < 0 \<longleftrightarrow> str_less ''ab'' ''b'')"
  by (rule strcmp_order) simp_all

text \<open>\<^verbatim>\<open>strchr\<close> finds the first and \<^verbatim>\<open>strrchr\<close> the last occurrence of a byte, and both return
  null exactly when the byte is not in the string; the terminator is never found.\<close>

theorem strchr_strrchr:
  assumes "cstr m p s" and "p \<noteq> NULL"
  shows "(\<exists>r. strchr m p c = Some r \<and> (r = NULL \<longleftrightarrow> c \<notin> set s) \<and>
      (r \<noteq> NULL \<longrightarrow> (\<exists>i < length s. r = p + i \<and> s ! i = c \<and> c \<notin> set (take i s)))) \<and>
    (\<exists>r. strrchr m p c = Some r \<and> (r = NULL \<longleftrightarrow> c \<notin> set s) \<and>
      (r \<noteq> NULL \<longrightarrow> (\<exists>i < length s. r = p + i \<and> s ! i = c \<and> c \<notin> set (drop (Suc i) s))))"
proof (cases "c \<in> set s")
  case False
  then show ?thesis using strchr_cstr [OF assms(1), of c] strrchr_cstr [OF assms(1), of c] by simp
next
  case True
  let ?i = "length (takeWhile (\<lambda>x. x \<noteq> c) s)" and ?k = "length (takeWhile (\<lambda>x. x \<noteq> c) (rev s))"
  obtain u v where s: "s = u @ c # v" "c \<notin> set u" using True by (meson split_list_first)
  obtain x y where s': "s = x @ c # y" "c \<notin> set y" using True by (meson split_list_last)
  have i: "takeWhile (\<lambda>x. x \<noteq> c) s = u" using s by (auto simp: takeWhile_append)
  have k: "takeWhile (\<lambda>x. x \<noteq> c) (rev s) = rev y" using s' by (auto simp: takeWhile_append)
  have "strchr m p c = Some (p + length u)" using strchr_cstr [OF assms(1), of c] True i by simp
  moreover have "strrchr m p c = Some (p + length x)"
    using strrchr_cstr [OF assms(1), of c] True k s'(1) by simp
  moreover have "s ! length u = c" "take (length u) s = u" "length u < length s" using s(1) by simp_all
  moreover have "s ! length x = c" "drop (Suc (length x)) s = y" "length x < length s" using s'(1) by simp_all
  ultimately show ?thesis using True s(2) s'(2) assms(2) by auto
qed

lemma strchr_strrchr_witness:
  "\<exists>r. strrchr (put Map.empty 10 (''abca'' @ [NUL])) 10 (CHR ''a'') = Some r \<and>
    (r = 0 \<longleftrightarrow> CHR ''a'' \<notin> set ''abca'') \<and>
    (r \<noteq> 0 \<longrightarrow> (\<exists>i < length ''abca''. r = 10 + i \<and> ''abca'' ! i = CHR ''a'' \<and>
      CHR ''a'' \<notin> set (drop (Suc i) ''abca'')))"
  by (rule strchr_strrchr [THEN conjunct2]) simp_all

section \<open>Numbers\<close>

text \<open>C26: for every 32-bit value \<^verbatim>\<open>itoa\<close> in base 10 writes the decimal numeral of the signed value and
  in base 16 the hexadecimal numeral of the unsigned one; 12 bytes of buffer always suffice, and
  nothing outside the numeral and its terminator is written.\<close>

theorem itoa_correct:
  assumes "valid m p 12" and "base = 10 \<or> base = 16"
  shows "\<exists>m' str. itoa m v p base = Some m' \<and> cstr m' p str \<and> length str \<le> 11 \<and>
    str = (if base = 10 then show_int (sint v) else show_nat 16 (unat v)) \<and>
    (\<forall>a. a < p \<or> p + length str < a \<longrightarrow> m' a = m a)"
proof -
  let ?str = "itoa_spec v base"
  have len: "length ?str \<le> 11"
    using assms(2) length_itoa_spec_10 [of v] length_itoa_spec_16 [of v] by auto
  have b: "2 \<le> unat base" "unat base \<le> 36" using assms(2) by auto
  have "valid m p (Suc (length ?str))" using assms(1) len by (elim valid_mono) simp
  then have "itoa m v p base = Some (put m p (?str @ [NUL]))" by (rule itoa_put) (rule b)
  moreover have "?str = (if base = 10 then show_int (sint v) else show_nat 16 (unat v))"
    using assms(2) by (auto simp: itoa_spec_def)
  ultimately show ?thesis
    using len itoa_spec_no_NUL [OF b(2), of v] by (auto simp: cstr_put put_outside)
qed

lemma itoa_correct_witness:
  "\<exists>m' str. itoa (put Map.empty 100 (replicate 12 (CHR ''?''))) (- 2147483648) 100 10 = Some m' \<and>
    cstr m' 100 str \<and> length str \<le> 11 \<and>
    str = (if 10 = (10 :: u32) then show_int (sint (- 2147483648 :: u32)) else show_nat 16 (unat (- 2147483648 :: u32))) \<and>
    (\<forall>a. a < 100 \<or> 100 + length str < a \<longrightarrow> m' a = put Map.empty 100 (replicate 12 (CHR ''?'')) a)"
  by (rule itoa_correct) (simp_all add: valid_put_block)

text \<open>\<^verbatim>\<open>atoi\<close> reads back what \<^verbatim>\<open>itoa\<close> writes in base 10, for all \<open>2 ^ 32\<close> values,
  \<^verbatim>\<open>INT_MIN\<close> included.\<close>

theorem atoi_itoa:
  assumes "valid m p 12"
  shows "do { m' \<leftarrow> itoa m v p 10; atoi m' p } = Some v"
proof -
  have "valid m p (Suc (length (itoa_spec v 10)))"
    using assms length_itoa_spec_10 [of v] by (elim valid_mono) simp
  then have "itoa m v p 10 = Some (put m p (itoa_spec v 10 @ [NUL]))" by (rule itoa_put) simp
  moreover have "cstr (put m p (itoa_spec v 10 @ [NUL])) p (itoa_spec v 10)"
    by (rule cstr_put) (rule itoa_spec_no_NUL, simp)
  ultimately show ?thesis
    by (simp add: atoi_cstr) (simp add: itoa_spec_def atoi_spec_show_int)
qed

lemma atoi_itoa_witness:
  "do { m' \<leftarrow> itoa (put Map.empty 100 (replicate 12 (CHR ''?''))) (- 2147483648) 100 10; atoi m' 100 } =
    Some (- 2147483648)"
  by (rule atoi_itoa) (simp add: valid_put_block)

section \<open>The heap\<close>

text \<open>C20: from a heap in good order any sequence of requests, each of at most 0xFFFE0000 bytes, keeps it so, and the
  blocks obtained, whatever requests failed in between, lie inside the heap array and are pairwise disjoint.
  A request within 128 KiB of \<open>2 ^ 32\<close> is left out because the code's limit test can wrap for it (\<open>kmalloc_wraps\<close>).\<close>

theorem kmalloc_blocks_disjoint:
  assumes "kheap_inv h" and "\<forall>n \<in> set ns. unat n \<le> 0xFFFE0000"
    and "alloc_run kmalloc h ns = (h', bs)"
  shows "kheap_inv h' \<and> blocks_apart bs \<and>
    (\<forall>(p, n) \<in> set bs. heap_base h \<le> p \<and> p + n \<le> heap_base h + 0x10000)"
  using km.run_blocks [OF assms] km.front_lim [of h'] by (fastforce simp: frontier_def)

lemma kmalloc_blocks_disjoint_witness:
  "\<exists>h' bs. alloc_run kmalloc (heap_init 0x100000) [10, 0x400000, 7] = (h', bs) \<and> kheap_inv h' \<and>
    blocks_apart bs \<and> bs = [(0x100008, 10), (0x100000, 7)]"
proof -
  have "alloc_run kmalloc (heap_init 0x100000) [10, 0x400000, 7] =
      (\<lparr>heap_base = 0x100000, heap_pos = 20, total_memory = 0\<rparr>, [(0x100008, 10), (0x100000, 7)])"
    by (simp add: heap_init_def exec_simps)
  then show ?thesis
    using kmalloc_blocks_disjoint [of "heap_init 0x100000" "[10, 0x400000, 7]"]
    by (simp add: kheap_inv_init)
qed

text \<open>a request close to \<open>2 ^ 32\<close> is granted although it cannot fit: the bound is checked on a
  sum that wraps, and a request that wraps exactly to zero rewinds the heap, so that the next
  block is the one handed out first.\<close>

theorem kmalloc_wraps:
  assumes "kheap_inv h" and "4 \<le> unat (heap_pos h)"
  shows "\<exists>h'. kmalloc h (- heap_pos h) = (h', frontier h) \<and> heap_pos h' = 0 \<and>
    snd (kmalloc h' 4) = heap_base h \<and> unat (- heap_pos h) > 0x10000"
proof -
  let ?p = "heap_pos h"
  have m4: "unat ?p mod 4 = 0" and le: "unat ?p \<le> 65536" using assms(1) by (simp_all add: kheap_inv_def)
  have "unat (?p + align4 (- ?p)) = 0" using kmalloc_pos [OF m4, of "- ?p"] by simp
  then have pos: "?p + align4 (- ?p) = 0" by (simp add: unsigned_eq_0_iff)
  have "?p \<noteq> 0" using assms(2) by auto
  then have "unat (- ?p) = 2 ^ 32 - unat ?p" by (rule unat_neg_u32)
  then have big: "unat (- ?p) > 0x10000" using le by simp
  have "align4 4 = 4" by (simp add: align4_def)
  with pos big show ?thesis by (simp add: kmalloc_def HEAP_SIZE_def frontier_def)
qed

lemma kmalloc_wraps_witness:
  "\<exists>h'. kmalloc (fst (kmalloc (heap_init 0x100000) 4)) (- 4) = (h', 0x100004) \<and>
    snd (kmalloc h' 4) = 0x100000"
proof -
  have "fst (kmalloc (heap_init 0x100000) 4) = \<lparr>heap_base = 0x100000, heap_pos = 4, total_memory = 0\<rparr>"
    by (simp add: heap_init_def exec_simps)
  then show ?thesis
    using kmalloc_wraps [of "\<lparr>heap_base = 0x100000, heap_pos = 4, total_memory = 0\<rparr>"]
    by (auto simp: kheap_inv_def frontier_def)
qed

text \<open>\<^verbatim>\<open>kfree\<close> gives nothing back: on a block that the heap handed out last it changes nothing,
  although the comment promises that a block at the end of the heap is released.\<close>

theorem kfree_never_frees:
  assumes "kheap_inv h" and "unat n \<le> 0xFFFE0000" and "kmalloc h n = (h', p)" and "p \<noteq> NULL"
  shows "kfree h' p = h'"
proof -
  note b = kmalloc_block [OF assms]
  have "p = heap_base h + unat (heap_pos h)" using b(1) by (simp add: frontier_def)
  moreover have "unat (heap_pos h) mod 4 = 0" "unat (heap_pos h) \<le> 0x10000"
    using assms(1) by (simp_all add: kheap_inv_def)
  ultimately show ?thesis using b(4,5) by (intro kfree_aligned) simp_all
qed

lemma kfree_never_frees_witness:
  "kfree (fst (kmalloc (heap_init 0x100000) 10)) 0x100000 = fst (kmalloc (heap_init 0x100000) 10)"
proof -
  have "kmalloc (heap_init 0x100000) 10 = (\<lparr>heap_base = 0x100000, heap_pos = 12, total_memory = 0\<rparr>, 0x100000)"
    by (simp add: heap_init_def exec_simps)
  then show ?thesis
    using kfree_never_frees [of "heap_init 0x100000" 10 "\<lparr>heap_base = 0x100000, heap_pos = 12, total_memory = 0\<rparr>" "0x100000"]
    by (simp add: kheap_inv_init)
qed

end
