(* ===== verification/Terminal.thy ===== *)
theory Terminal
  imports CStringNum
begin

text \<open>
  The VGA text terminal, \<^verbatim>\<open>kernel/terminal.c\<close>. Video memory is a map from cell numbers (as
  the code's \<^verbatim>\<open>int\<close> index \<^verbatim>\<open>y * 80 + x\<close>) to 16-bit cells; the screen is the cells 0 to 1999 and
  a write elsewhere would hit other memory, so the bounds are theorems. Port writes are
  recorded in a log, oldest first.
\<close>

section \<open>Ports\<close>

type_synonym port_log = "(u16 \<times> u8) list"

definition outb :: "u16 \<Rightarrow> u8 \<Rightarrow> port_log \<Rightarrow> port_log" where
  "outb port val log = log @ [(port, val)]"

definition io_wait :: "port_log \<Rightarrow> port_log" where
  "io_wait log = outb 0x80 0 log"

section \<open>State\<close>

record terminal =
  video :: "int \<Rightarrow> u16"
  cursor_x :: int
  cursor_y :: int
  text_attribute :: u8
  ports :: port_log

section \<open>Cursor and screen\<close>

text \<open>\<^verbatim>\<open>(text_attribute << 8) | c\<close>: the attribute is promoted, the signed character extended.\<close>

definition cell :: "u8 \<Rightarrow> byte \<Rightarrow> u16" where
  "cell attr c = push_bit 8 (ucast attr) OR word_of_int (schar c)"

definition update_cursor :: "terminal \<Rightarrow> terminal" where
  "update_cursor t =
     (let pos = (word_of_int (cursor_y t * 80 + cursor_x t) :: u16) in
      t\<lparr>ports := outb 0x3D5 (ucast (drop_bit 8 pos AND 0xFF)) (outb 0x3D4 0x0E
                (outb 0x3D5 (ucast (pos AND 0xFF)) (outb 0x3D4 0x0F (ports t))))\<rparr>)"

text \<open>The inner loops over the 80 columns of a line.\<close>

definition clear_row :: "u16 \<Rightarrow> int \<Rightarrow> (int \<Rightarrow> u16) \<Rightarrow> int \<Rightarrow> u16" where
  "clear_row c y v = fold (\<lambda>x v. v(y * 80 + x := c)) [0..79] v"

definition copy_row :: "int \<Rightarrow> (int \<Rightarrow> u16) \<Rightarrow> int \<Rightarrow> u16" where
  "copy_row y v = fold (\<lambda>x v. v(y * 80 + x := v ((y + 1) * 80 + x))) [0..79] v"

definition terminal_initialize :: "terminal \<Rightarrow> terminal" where
  "terminal_initialize t =
     update_cursor (t\<lparr>
       video := fold (clear_row (cell (text_attribute t) (CHR '' ''))) [0..24] (video t),
       cursor_x := 0, cursor_y := 0\<rparr>)"

definition terminal_clear :: "terminal \<Rightarrow> terminal" where
  "terminal_clear t = terminal_initialize t"

definition put_glyph :: "byte \<Rightarrow> terminal \<Rightarrow> terminal" where
  "put_glyph c t =
     (if c = CHR 0x0A then t\<lparr>cursor_x := 0, cursor_y := cursor_y t + 1\<rparr>
      else if c = CHR 0x0D then t\<lparr>cursor_x := 0\<rparr>
      else if c = CHR 0x08 then
        (if cursor_x t > 0
         then t\<lparr>cursor_x := cursor_x t - 1,
                video := (video t)(cursor_y t * 80 + (cursor_x t - 1) := cell (text_attribute t) (CHR '' ''))\<rparr>
         else t)
      else if c = CHR 0x09 then t\<lparr>cursor_x := (cursor_x t + 8) AND NOT 7\<rparr>
      else t\<lparr>video := (video t)(cursor_y t * 80 + cursor_x t := cell (text_attribute t) c),
             cursor_x := cursor_x t + 1\<rparr>)"

definition wrap_line :: "terminal \<Rightarrow> terminal" where
  "wrap_line t = (if cursor_x t \<ge> 80 then t\<lparr>cursor_x := 0, cursor_y := cursor_y t + 1\<rparr> else t)"

definition scroll :: "terminal \<Rightarrow> terminal" where
  "scroll t =
     (if cursor_y t \<ge> 25
      then t\<lparr>video := clear_row (cell (text_attribute t) (CHR '' '')) 24
                      (fold copy_row [0..23] (video t)),
             cursor_y := 24\<rparr>
      else t)"

definition putchar :: "byte \<Rightarrow> terminal \<Rightarrow> terminal" where
  "putchar c t = update_cursor (scroll (wrap_line (put_glyph c t)))"

text \<open>The colours of \<^verbatim>\<open>basedos.h\<close>.\<close>

definition VGA_COLOR_WHITE :: u8 where "VGA_COLOR_WHITE = 15"
definition VGA_COLOR_RED :: u8 where "VGA_COLOR_RED = 4"
definition VGA_COLOR_GREEN :: u8 where "VGA_COLOR_GREEN = 2"
definition VGA_COLOR_BLUE :: u8 where "VGA_COLOR_BLUE = 1"
definition VGA_COLOR_YELLOW :: u8 where "VGA_COLOR_YELLOW = 14"

definition terminal_setcolor :: "u8 \<Rightarrow> u8 \<Rightarrow> terminal \<Rightarrow> terminal" where
  "terminal_setcolor fg bg t = t\<lparr>text_attribute := push_bit 4 bg OR (fg AND 0x0F)\<rparr>"

section \<open>Strings and numbers\<close>

fun terminal_writestring :: "string \<Rightarrow> terminal \<Rightarrow> terminal" where
  "terminal_writestring [] t = t"
| "terminal_writestring (c # s) t = terminal_writestring s (putchar c t)"

text \<open>The eight digits are written from \<^verbatim>\<open>buffer[7]\<close> down to \<^verbatim>\<open>buffer[0]\<close>.\<close>

definition hex_digits :: string where
  "hex_digits = ''0123456789ABCDEF''"

fun hex_loop :: "nat \<Rightarrow> u32 \<Rightarrow> string \<Rightarrow> string" where
  "hex_loop 0 val buf = buf"
| "hex_loop (Suc i) val buf =
     hex_loop i (drop_bit 4 val) (buf[i := hex_digits ! unat (val AND 0xF)])"

definition terminal_write_hex :: "u32 \<Rightarrow> terminal \<Rightarrow> terminal" where
  "terminal_write_hex val t =
     terminal_writestring (hex_loop 8 val (replicate 8 NUL)) (terminal_writestring ''0x'' t)"

text \<open>
  \<^verbatim>\<open>terminal_write_dec\<close> fills an 11-byte buffer from its end; \<open>None\<close> if the pointer would
  leave the buffer at the front.
\<close>

partial_function (option) dec_loop :: "u32 \<Rightarrow> nat \<Rightarrow> string \<Rightarrow> string option" where
  "dec_loop val room s =
     (if val > 0
      then if room = 0 then None
           else dec_loop (val div 10) (room - 1) (to_char (48 + uint (val mod 10)) # s)
      else Some s)"

declare dec_loop.simps [code]

definition dec_string :: "u32 \<Rightarrow> string option" where
  "dec_string val = (if val = 0 then Some ''0'' else dec_loop val 10 '''')"

definition terminal_write_dec :: "u32 \<Rightarrow> terminal \<Rightarrow> terminal option" where
  "terminal_write_dec val t =
     do { s \<leftarrow> dec_string val; Some (terminal_writestring s t) }"

section \<open>printk\<close>

text \<open>
  One argument slot: an \<^verbatim>\<open>int\<close> or \<^verbatim>\<open>unsigned\<close>, or a \<^verbatim>\<open>char*\<close> (\<open>None\<close> for a null pointer).
  A conversion that finds no argument, or one of the other kind, has no defined result, and
  neither has a format that ends in \<^verbatim>\<open>%\<close>: the code then steps over the terminator.
\<close>

datatype varg = VInt u32 | VStr "string option"

text \<open>A 32-byte local buffer at some address, of unknown contents, filled by \<^verbatim>\<open>itoa\<close> and written out.\<close>

partial_function (option) read_cstr :: "mem \<Rightarrow> addr \<Rightarrow> string option" where
  "read_cstr m p =
     do { c \<leftarrow> ld m p; if c \<noteq> NUL then do { s \<leftarrow> read_cstr m (p + 1); Some (c # s) } else Some [] }"

declare read_cstr.simps [code]

definition itoa_buffer :: "u32 \<Rightarrow> u32 \<Rightarrow> string option" where
  "itoa_buffer val base =
     do { m \<leftarrow> itoa (put Map.empty 4096 (replicate 32 (CHR ''?''))) val 4096 base; read_cstr m 4096 }"

fun printk :: "string \<Rightarrow> varg list \<Rightarrow> terminal \<Rightarrow> terminal option" where
  "printk [] args t = Some t"
| "printk (c # fmt) args t =
     (if c \<noteq> CHR ''%'' then printk fmt args (putchar c t)
      else case fmt of
        [] \<Rightarrow> None
      | f # fmt' \<Rightarrow>
          if f = CHR ''d'' \<or> f = CHR ''i'' \<or> f = CHR ''u'' then
            (case args of
               VInt n # args' \<Rightarrow>
                 do { s \<leftarrow> itoa_buffer n 10; printk fmt' args' (terminal_writestring s t) }
             | _ \<Rightarrow> None)
          else if f = CHR ''x'' \<or> f = CHR ''X'' then
            (case args of
               VInt n # args' \<Rightarrow>
                 do { s \<leftarrow> itoa_buffer n 16; printk fmt' args' (terminal_writestring s t) }
             | _ \<Rightarrow> None)
          else if f = CHR ''c'' then
            (case args of
               VInt n # args' \<Rightarrow> printk fmt' args' (putchar (to_char (sint n)) t)
             | _ \<Rightarrow> None)
          else if f = CHR ''s'' then
            (case args of
               VStr s # args' \<Rightarrow>
                 printk fmt' args'
                   (terminal_writestring (case s of None \<Rightarrow> ''(null)'' | Some str \<Rightarrow> str) t)
             | _ \<Rightarrow> None)
          else if f = CHR ''%'' then printk fmt' args (putchar (CHR ''%'') t)
          else printk fmt' args (putchar f (putchar (CHR ''%'') t)))"

end
