(* ===== verification/TerminalFacts.thy ===== *)
theory TerminalFacts
  imports Terminal
begin

text \<open>
  Contracts of the terminal: the cursor stays on the screen and no byte outside it is
  written, scrolling shifts the lines, a short line of text appears where the cursor was,
  and \<^verbatim>\<open>printk\<close> writes exactly the string its format describes.
\<close>

section \<open>Bounds\<close>

definition term_inv :: "terminal \<Rightarrow> bool" where
  "term_inv t \<longleftrightarrow> 0 \<le> cursor_x t \<and> cursor_x t < 80 \<and> 0 \<le> cursor_y t \<and> cursor_y t < 25"

definition on_screen :: "int \<Rightarrow> bool" where
  "on_screen i \<longleftrightarrow> 0 \<le> i \<and> i < 2000"

lemma update_cursor_simps [simp]:
  "video (update_cursor t) = video t"
  "cursor_x (update_cursor t) = cursor_x t"
  "cursor_y (update_cursor t) = cursor_y t"
  "text_attribute (update_cursor t) = text_attribute t"
  by (simp_all add: update_cursor_def Let_def)

text \<open>The loops over the screen, in closed form.\<close>

lemma upto_snoc: "0 \<le> n \<Longrightarrow> [0..n + 1] = [0..n] @ [n + 1]"
  by (simp add: upto_rec2)

lemma clear_row_eq: "clear_row c y v = (\<lambda>i. if y * 80 \<le> i \<and> i < y * 80 + 80 then c else v i)"
proof -
  have "fold (\<lambda>x v. v(y * 80 + x := c)) [0..n] v =
      (\<lambda>i. if y * 80 \<le> i \<and> i \<le> y * 80 + n then c else v i)" if "0 \<le> n" for n
    using that
  proof (induction n rule: int_ge_induct)
    case base
    then show ?case by (auto simp: fun_eq_iff)
  next
    case (step n)
    then show ?case by (auto simp: fun_eq_iff upto_snoc)
  qed
  from this [of 79] show ?thesis by (auto simp: clear_row_def fun_eq_iff)
qed

lemma copy_row_eq: "copy_row y v = (\<lambda>i. if y * 80 \<le> i \<and> i < y * 80 + 80 then v (i + 80) else v i)"
proof -
  have "fold (\<lambda>x v. v(y * 80 + x := v ((y + 1) * 80 + x))) [0..n] v =
     (\<lambda>i. if y * 80 \<le> i \<and> i \<le> y * 80 + n then v (i + 80) else v i)" if "0 \<le> n" "n < 80" for n
    using that
  proof (induction n rule: int_ge_induct)
    case base
    show ?case by (rule ext) (auto simp: algebra_simps)
  next
    case (step n)
    then show ?case by (simp add: upto_snoc) (auto simp: fun_eq_iff algebra_simps)
  qed
  from this [of 79] show ?thesis by (auto simp: copy_row_def fun_eq_iff)
qed

lemma clear_rows_eq:
  "0 \<le> n \<Longrightarrow> fold (clear_row c) [0..n] v = (\<lambda>i. if 0 \<le> i \<and> i < (n + 1) * 80 then c else v i)"
proof (induction n rule: int_ge_induct)
  case base
  then show ?case by (simp add: clear_row_eq)
next
  case (step n)
  then show ?case by (auto simp: fun_eq_iff clear_row_eq upto_snoc)
qed

lemma copy_rows_eq:
  "0 \<le> n \<Longrightarrow> fold copy_row [0..n] v = (\<lambda>i. if 0 \<le> i \<and> i < (n + 1) * 80 then v (i + 80) else v i)"
proof (induction n rule: int_ge_induct)
  case base
  then show ?case by (simp add: copy_row_eq)
next
  case (step n)
  have "fold copy_row [0..n + 1] v = copy_row (n + 1) (fold copy_row [0..n] v)"
    using step.hyps by (simp add: upto_snoc)
  also have "\<dots> = copy_row (n + 1) (\<lambda>i. if 0 \<le> i \<and> i < (n + 1) * 80 then v (i + 80) else v i)"
    by (simp only: step.IH)
  also have "\<dots> = (\<lambda>i. if 0 \<le> i \<and> i < (n + 1 + 1) * 80 then v (i + 80) else v i)"
    unfolding copy_row_eq using step.hyps by (intro ext) auto
  finally show ?case .
qed

lemma scroll_video:
  "cursor_y t \<ge> 25 \<Longrightarrow> video (scroll t) =
     (\<lambda>i. if 0 \<le> i \<and> i < 1920 then video t (i + 80)
          else if on_screen i then cell (text_attribute t) (CHR '' '') else video t i)"
  by (auto simp: scroll_def clear_row_eq copy_rows_eq on_screen_def fun_eq_iff)

lemma scroll_still: "cursor_y t < 25 \<Longrightarrow> scroll t = t"
  by (simp add: scroll_def)

lemma scroll_cursor:
  "cursor_x (scroll t) = cursor_x t" "cursor_y (scroll t) = (if cursor_y t \<ge> 25 then 24 else cursor_y t)"
  "text_attribute (scroll t) = text_attribute t"
  by (simp_all add: scroll_def)

lemma putchar_inv [inv_intros]: "term_inv t \<Longrightarrow> term_inv (putchar c t)"
  by (auto simp: term_inv_def putchar_def scroll_cursor wrap_line_def put_glyph_def int_and_not_7)

lemma put_glyph_frame: "term_inv t \<Longrightarrow> \<not> on_screen i \<Longrightarrow> video (put_glyph c t) i = video t i"
  by (auto simp: put_glyph_def term_inv_def on_screen_def)

lemma putchar_frame: "term_inv t \<Longrightarrow> \<not> on_screen i \<Longrightarrow> video (putchar c t) i = video t i"
proof -
  assume inv: "term_inv t" and off: "\<not> on_screen i"
  have "video (scroll (wrap_line (put_glyph c t))) i = video (wrap_line (put_glyph c t)) i"
  proof (cases "cursor_y (wrap_line (put_glyph c t)) \<ge> 25")
    case True
    with off show ?thesis by (auto simp: scroll_video on_screen_def)
  qed (simp add: scroll_still)
  with put_glyph_frame [OF inv off] show ?thesis by (simp add: putchar_def wrap_line_def)
qed

lemma putchar_attribute [simp]: "text_attribute (putchar c t) = text_attribute t"
  by (simp add: putchar_def scroll_cursor wrap_line_def put_glyph_def)

section \<open>The console interface\<close>

text \<open>
  Everything that prints goes through one character operation. The interface says that the
  operation keeps a condition; its clients are the string and number writers.
\<close>

locale console =
  fixes putc :: "byte \<Rightarrow> 't \<Rightarrow> 't"
    and ok :: "'t \<Rightarrow> bool"
  assumes putc_ok: "ok t \<Longrightarrow> ok (putc c t)"
begin

lemma puts_ok: "ok t \<Longrightarrow> ok (fold putc s t)"
  by (induction s arbitrary: t) (auto simp: putc_ok)

lemma puts_concat_ok: "ok t \<Longrightarrow> ok (fold (fold putc) ss t)"
  by (induction ss arbitrary: t) (auto simp: puts_ok)

end

text \<open>The condition: the cursor is on the screen, and memory off the screen is as it was.\<close>

definition screen_ok :: "(int \<Rightarrow> u16) \<Rightarrow> terminal \<Rightarrow> bool" where
  "screen_ok v t \<longleftrightarrow> term_inv t \<and> (\<forall>i. \<not> on_screen i \<longrightarrow> video t i = v i)"

lemma putchar_screen_ok: "screen_ok v t \<Longrightarrow> screen_ok v (putchar c t)"
  by (simp add: screen_ok_def putchar_inv putchar_frame)

interpretation vga: console putchar "screen_ok v"
  by unfold_locales (rule putchar_screen_ok)

lemma terminal_writestring_fold: "terminal_writestring s t = fold putchar s t"
  by (induction s arbitrary: t) auto

lemma writestring_screen_ok [inv_intros]: "screen_ok v t \<Longrightarrow> screen_ok v (terminal_writestring s t)"
  by (simp only: terminal_writestring_fold) (rule vga.puts_ok)

lemma writestring_append:
  "terminal_writestring (s @ u) t = terminal_writestring u (terminal_writestring s t)"
  by (simp add: terminal_writestring_fold)

lemma writestring_attribute [simp]: "text_attribute (terminal_writestring s t) = text_attribute t"
  by (induction s arbitrary: t) simp_all

lemma initialize_screen_ok: "screen_ok v t' \<Longrightarrow> screen_ok v (terminal_initialize t')"
  by (auto simp: screen_ok_def term_inv_def terminal_initialize_def clear_rows_eq on_screen_def)

section \<open>Text on the screen\<close>

definition glyph :: "byte \<Rightarrow> bool" where
  "glyph c \<longleftrightarrow> c \<noteq> CHR 0x0A \<and> c \<noteq> CHR 0x0D \<and> c \<noteq> CHR 0x08 \<and> c \<noteq> CHR 0x09"

lemma putchar_glyph:
  assumes "glyph c" and "term_inv t" and "cursor_x t + 1 < 80"
  shows "video (putchar c t) = (video t)(cursor_y t * 80 + cursor_x t := cell (text_attribute t) c)"
    and "cursor_x (putchar c t) = cursor_x t + 1" and "cursor_y (putchar c t) = cursor_y t"
  using assms by (auto simp: putchar_def put_glyph_def wrap_line_def glyph_def term_inv_def scroll_still)

lemma writestring_line:
  assumes "\<forall>c \<in> set s. glyph c" and "term_inv t" and "cursor_x t + int (length s) < 80"
  shows "cursor_x (terminal_writestring s t) = cursor_x t + int (length s) \<and>
    cursor_y (terminal_writestring s t) = cursor_y t \<and>
    (\<forall>i. video (terminal_writestring s t) i =
      (let k = i - (cursor_y t * 80 + cursor_x t) in
       if 0 \<le> k \<and> k < int (length s) then cell (text_attribute t) (s ! nat k) else video t i))"
  using assms
proof (induction s arbitrary: t)
  case Nil
  then show ?case by (auto simp: Let_def)
next
  case (Cons c s)
  let ?t = "putchar c t"
  have c: "glyph c" "cursor_x t + 1 < 80" using Cons.prems by simp_all
  note step = putchar_glyph [OF c(1) Cons.prems(2) c(2)]
  have IH: "cursor_x (terminal_writestring s ?t) = cursor_x ?t + int (length s) \<and>
    cursor_y (terminal_writestring s ?t) = cursor_y ?t \<and>
    (\<forall>i. video (terminal_writestring s ?t) i =
      (let k = i - (cursor_y ?t * 80 + cursor_x ?t) in
       if 0 \<le> k \<and> k < int (length s) then cell (text_attribute ?t) (s ! nat k) else video ?t i))"
    using Cons.prems step by (intro Cons.IH) (auto intro: putchar_inv)
  have pred: "nat (i - b) - Suc 0 = nat (i - (1 + b))" for i b :: int by arith
  from IH show ?case using step
    by (auto simp: Let_def nth_Cons' pred algebra_simps)
qed

section \<open>Numbers\<close>

lemma dec_loop_digits:
  assumes "length (rev_digits 10 (unat val)) \<le> room"
  shows "dec_loop val room s = Some (rev (rev_digits 10 (unat val)) @ s)"
  using assms
proof (induction "unat val" arbitrary: val room s rule: less_induct)
  case less
  show ?case
  proof (cases "val = 0")
    case True
    then show ?thesis by (subst dec_loop.simps) (simp add: rev_digits.simps)
  next
    case False
    then have n: "0 < unat val" "val > 0" by (simp_all add: unat_gt_0 word_gt_0)
    have step: "rev_digits 10 (unat val) = digit (unat val mod 10) # rev_digits 10 (unat val div 10)"
      using n by (subst rev_digits.simps) simp
    have dv: "unat (val div 10) = unat val div 10" and md: "uint (val mod 10) = int (unat val mod 10)"
      by (simp_all add: unat_div_distrib uint_mod_distrib zmod_int)
    have dg: "to_char (48 + uint (val mod 10)) = digit (unat val mod 10)"
      unfolding md by (simp add: digit_small add.commute)
    obtain r where r: "room = Suc r" using less.prems step by (cases room) auto
    have "dec_loop (val div 10) r (digit (unat val mod 10) # s) =
        Some (rev (rev_digits 10 (unat (val div 10))) @ digit (unat val mod 10) # s)"
      using less.prems step r n by (intro less.hyps) (simp_all add: dv)
    then show ?thesis using n r dg step dv by (subst dec_loop.simps) simp
  qed
qed

lemma dec_string_eq: "dec_string val = Some (show_nat 10 (unat val))"
proof (cases "val = 0")
  case True
  then show ?thesis by (simp add: dec_string_def show_nat_def)
next
  case False
  have "unat val < 10 ^ 10" using unsigned_less [of val, where ?'a = nat] by simp
  then have "length (rev_digits 10 (unat val)) \<le> 10" by (rule length_rev_digits) simp
  with False show ?thesis
    by (simp add: dec_string_def show_nat_def dec_loop_digits unat_eq_0)
qed

lemma write_dec_eq:
  "terminal_write_dec val t = Some (terminal_writestring (show_nat 10 (unat val)) t)"
  by (simp add: terminal_write_dec_def dec_string_eq)

text \<open>The hexadecimal writer: digit \<open>i\<close> from the left is nibble \<open>7 - i\<close> of the word.\<close>

lemma hex_loop_length [simp]: "length (hex_loop n val buf) = length buf"
  by (induction n arbitrary: val buf) simp_all

lemma hex_loop_nth:
  "n \<le> length buf \<Longrightarrow> i < length buf \<Longrightarrow> hex_loop n val buf ! i =
     (if i < n then hex_digits ! unat (drop_bit (4 * (n - 1 - i)) val AND 0xF) else buf ! i)"
proof (induction n arbitrary: val buf)
  case 0
  then show ?case by simp
next
  case (Suc n)
  consider "i < n" | "i = n" | "n < i" by linarith
  then show ?case
  proof cases
    case 1
    then have "4 * (n - 1 - i) + 4 = 4 * (n - i)" by simp
    with 1 Suc show ?thesis by (simp add: drop_bit_drop_bit add.commute)
  qed (use Suc in simp_all)
qed

section \<open>printk\<close>

lemma read_cstr_cstr [mem_simps]: "cstr m p s \<Longrightarrow> read_cstr m p = Some s"
proof (induction s arbitrary: p)
  case Nil
  then show ?case by (subst read_cstr.simps) (simp add: ld_eq)
next
  case (Cons c s)
  then show ?case by (subst read_cstr.simps) (simp add: ld_eq)
qed

lemma itoa_buffer_eq:
  assumes "length (itoa_spec val base) < 32" and "2 \<le> unat base" and "unat base \<le> 36"
  shows "itoa_buffer val base = Some (itoa_spec val base)"
proof -
  let ?m = "put Map.empty 4096 (replicate 32 (CHR ''?''))"
  have "valid ?m 4096 32" by (simp add: valid_def dom_put)
  then have "valid ?m 4096 (Suc (length (itoa_spec val base)))"
    by (rule valid_mono) (use assms(1) in simp)
  then have "itoa ?m val 4096 base = Some (put ?m 4096 (itoa_spec val base @ [NUL]))"
    using assms(2) by (rule itoa_put)
  moreover have "read_cstr (put ?m 4096 (itoa_spec val base @ [NUL])) 4096 = Some (itoa_spec val base)"
    using assms(3) by (intro read_cstr_cstr cstr_put itoa_spec_no_NUL)
  ultimately show ?thesis by (simp add: itoa_buffer_def)
qed

lemma itoa_buffer_10: "itoa_buffer val 10 = Some (show_int (sint val))"
  using itoa_buffer_eq [of val 10] length_itoa_spec_10 [of val] by (simp add: itoa_spec_def)

lemma itoa_buffer_16: "itoa_buffer val 16 = Some (show_nat 16 (unat val))"
  using itoa_buffer_eq [of val 16] length_itoa_spec_16 [of val] by (simp add: itoa_spec_def)

text \<open>The string a format and its arguments describe; \<open>None\<close> where they do not fit.\<close>

fun render :: "string \<Rightarrow> varg list \<Rightarrow> string option" where
  "render [] args = Some []"
| "render (c # fmt) args =
     (if c \<noteq> CHR ''%'' then map_option ((#) c) (render fmt args)
      else case fmt of
        [] \<Rightarrow> None
      | f # fmt' \<Rightarrow>
          if f \<in> set ''diu'' then
            (case args of VInt n # args' \<Rightarrow> map_option ((@) (show_int (sint n))) (render fmt' args') | _ \<Rightarrow> None)
          else if f \<in> set ''xX'' then
            (case args of VInt n # args' \<Rightarrow> map_option ((@) (show_nat 16 (unat n))) (render fmt' args') | _ \<Rightarrow> None)
          else if f = CHR ''c'' then
            (case args of VInt n # args' \<Rightarrow> map_option ((#) (to_char (sint n))) (render fmt' args') | _ \<Rightarrow> None)
          else if f = CHR ''s'' then
            (case args of VStr s # args' \<Rightarrow>
               map_option ((@) (case s of None \<Rightarrow> ''(null)'' | Some u \<Rightarrow> u)) (render fmt' args') | _ \<Rightarrow> None)
          else if f = CHR ''%'' then map_option ((#) (CHR ''%'')) (render fmt' args)
          else map_option ((@) [CHR ''%'', f]) (render fmt' args))"

lemma writestring_Cons: "terminal_writestring s (putchar c t) = terminal_writestring (c # s) t"
  by simp

lemma printk_render:
  "printk fmt args t = map_option (\<lambda>s. terminal_writestring s t) (render fmt args)"
proof (induction fmt args t rule: printk.induct)
  case (1 args t)
  then show ?case by simp
next
  case (2 c fmt args t)
  show ?case
  proof (cases "c \<noteq> CHR ''%''")
    case True
    with 2 show ?thesis by (simp add: option.map_comp comp_def)
  next
    case False
    show ?thesis
    proof (cases fmt)
      case Nil
      with False show ?thesis by simp
    next
      case (Cons f fmt')
      with False 2 show ?thesis
        by (auto simp: itoa_buffer_10 itoa_buffer_16 option.map_comp comp_def writestring_append
            split: list.splits varg.splits)
    qed
  qed
qed

lemma printk_screen_ok [inv_intros]: "screen_ok v t \<Longrightarrow> printk fmt args t = Some t' \<Longrightarrow> screen_ok v t'"
  by (auto simp: printk_render writestring_screen_ok)

end
