(* ===== verification/Interrupts.thy ===== *)
theory Interrupts
  imports Terminal
begin

text \<open>
  Interrupt descriptors, the interrupt controller and the keyboard:
  \<^verbatim>\<open>kernel/interrupts.c\<close>, and the PC speaker of \<^verbatim>\<open>kernel/sound.c\<close>. Addresses of handlers are
  words given by the linker. A value read from a port is an argument of the operation that
  reads it; port writes go to the log. The interrupt flag of the processor is a field.
\<close>

section \<open>State\<close>

record idt_entry =
  base_lo :: u16
  sel :: u16
  always0 :: u8
  gate_flags :: u8
  base_hi :: u16

record idt_ptr =
  idt_limit :: u16
  idt_base :: u32

text \<open>The statics of the file, with the descriptor table register and the interrupt flag of the processor.\<close>

record intr =
  idt :: "u8 \<Rightarrow> idt_entry"
  idtp :: idt_ptr
  idtr :: "idt_ptr option"
  int_flag :: bool
  key_buffer :: "byte list"
  key_buffer_pos :: int
  iports :: port_log

definition KEY_BUFFER_SIZE :: int where
  "KEY_BUFFER_SIZE = 256"

text \<open>The zero-initialised statics of the translation unit; interrupts are off after boot.\<close>

definition empty_entry :: idt_entry where
  "empty_entry = \<lparr>base_lo = 0, sel = 0, always0 = 0, gate_flags = 0, base_hi = 0\<rparr>"

definition intr_init :: intr where
  "intr_init = \<lparr>idt = (\<lambda>_. empty_entry),
     idtp = \<lparr>idt_limit = 0, idt_base = 0\<rparr>, idtr = None, int_flag = False,
     key_buffer = replicate 256 NUL, key_buffer_pos = 0, iports = []\<rparr>"

definition scancode_to_ascii :: "byte list" where
  "scancode_to_ascii =
     [NUL, NUL] @ ''1234567890-='' @ [CHR 0x08] @
     [CHR 0x09] @ ''qwertyuiop[]'' @ [CHR 0x0D] @
     [NUL] @ ''asdfghjkl;'' @ [CHR 0x27] @ ''`'' @ [NUL] @
     [CHR 0x5C] @ ''zxcvbnm,./'' @ [NUL] @ ''*'' @ [NUL] @ '' '' @
     replicate 88 NUL"

section \<open>Descriptors and the controller\<close>

definition gate :: "u32 \<Rightarrow> idt_entry" where
  "gate handler_addr =
     \<lparr>base_lo = ucast (handler_addr AND 0xFFFF), sel = 0x08, always0 = 0, gate_flags = 0x8E,
      base_hi = ucast (drop_bit 16 handler_addr AND 0xFFFF)\<rparr>"

definition register_interrupt_handler :: "u8 \<Rightarrow> u32 \<Rightarrow> intr \<Rightarrow> intr" where
  "register_interrupt_handler n handler s = s\<lparr>idt := (idt s)(n := gate handler)\<rparr>"

definition pic_setup :: "port_log" where
  "pic_setup =
     [(0x20, 0x11), (0xA0, 0x11), (0x21, 0x20), (0xA1, 0x28), (0x21, 0x04), (0xA1, 0x02),
      (0x21, 0x01), (0xA1, 0x01), (0x21, 0xFD), (0xA1, 0xFF)]"

definition lidt :: "idt_ptr \<Rightarrow> intr \<Rightarrow> intr" where
  "lidt p s = s\<lparr>idtr := Some p\<rparr>"

definition init_interrupts :: "u32 \<Rightarrow> u32 \<Rightarrow> intr \<Rightarrow> intr" where
  "init_interrupts keyboard_handler idt_addr s =
     (let s = s\<lparr>idt := (idt s)(0x21 := gate keyboard_handler)\<rparr>;
          s = s\<lparr>iports := fold (\<lambda>(p, v). outb p v) pic_setup (iports s)\<rparr>;
          s = s\<lparr>idtp := \<lparr>idt_limit = 256 * 8 - 1, idt_base = idt_addr\<rparr>\<rparr> in
      lidt (idtp s) s)"

definition enable_interrupts :: "intr \<Rightarrow> intr" where
  "enable_interrupts s = s\<lparr>int_flag := True\<rparr>"

definition disable_interrupts :: "intr \<Rightarrow> intr" where
  "disable_interrupts s = s\<lparr>int_flag := False\<rparr>"

section \<open>Keyboard\<close>

definition keyboard_handler_internal :: "u8 \<Rightarrow> intr \<Rightarrow> intr" where
  "keyboard_handler_internal scancode s =
     (let s = s\<lparr>iports := outb 0x20 0x20 (iports s)\<rparr> in
      if scancode AND 0x80 \<noteq> 0 then s
      else if unat scancode < length scancode_to_ascii then
        (let ascii = scancode_to_ascii ! unat scancode in
         if ascii \<noteq> NUL \<and> key_buffer_pos s < KEY_BUFFER_SIZE - 1
         then s\<lparr>key_buffer := (key_buffer s)[nat (key_buffer_pos s) := ascii],
                key_buffer_pos := key_buffer_pos s + 1\<rparr>
         else s)
      else s)"

text \<open>
  \<^verbatim>\<open>keyboard_getchar\<close> once the buffer is not empty, and before that: \<^verbatim>\<open>hlt\<close> resumes only when an
  interrupt is taken, so with the interrupt flag clear, or no further key, it does not return.
  The list is the sequence of scancodes the keyboard delivers.
\<close>

definition shift_keys :: "int \<Rightarrow> byte list \<Rightarrow> byte list" where
  "shift_keys pos buf = fold (\<lambda>i b. b[i := b ! (i + 1)]) [0..<nat (pos - 1)] buf"

definition take_key :: "intr \<Rightarrow> byte \<times> intr" where
  "take_key s =
     (key_buffer s ! 0,
      s\<lparr>key_buffer := shift_keys (key_buffer_pos s) (key_buffer s),
        key_buffer_pos := key_buffer_pos s - 1\<rparr>)"

fun keyboard_getchar :: "u8 list \<Rightarrow> intr \<Rightarrow> (byte \<times> intr \<times> u8 list) option" where
  "keyboard_getchar [] s =
     (if key_buffer_pos s = 0 then None else case take_key s of (c, s') \<Rightarrow> Some (c, s', []))"
| "keyboard_getchar (sc # scs) s =
     (if key_buffer_pos s = 0
      then (if int_flag s then keyboard_getchar scs (keyboard_handler_internal sc s) else None)
      else case take_key s of (c, s') \<Rightarrow> Some (c, s', sc # scs))"

section \<open>Speaker\<close>

definition beep :: "u32 \<Rightarrow> u8 \<Rightarrow> port_log \<Rightarrow> port_log" where
  "beep frequency in61 log =
     (if frequency = 0 then log
      else let divisor = 1193180 div frequency in
        outb 0x61 (in61 OR 0x03)
          (outb 0x42 (ucast (drop_bit 8 divisor AND 0xFF))
            (outb 0x42 (ucast (divisor AND 0xFF)) (outb 0x43 0xB6 log))))"

definition nosound :: "u8 \<Rightarrow> port_log \<Rightarrow> port_log" where
  "nosound in61 log = outb 0x61 (in61 AND 0xFC) log"

section \<open>Invariant and the queue of pending keys\<close>

definition kbd_inv :: "intr \<Rightarrow> bool" where
  "kbd_inv s \<longleftrightarrow> length (key_buffer s) = 256 \<and> 0 \<le> key_buffer_pos s \<and> key_buffer_pos s \<le> 255"

definition pending :: "intr \<Rightarrow> byte list" where
  "pending s = take (nat (key_buffer_pos s)) (key_buffer s)"

text \<open>The key, if any, that a scancode stands for.\<close>

definition key_of :: "u8 \<Rightarrow> byte option" where
  "key_of sc =
     (if sc AND 0x80 \<noteq> 0 then None
      else let c = scancode_to_ascii ! unat sc in if c = NUL then None else Some c)"

lemma kbd_inv_init [inv_intros]: "kbd_inv intr_init"
  by (simp add: kbd_inv_def intr_init_def)

lemma length_scancodes: "length scancode_to_ascii = 146"
  by (simp add: scancode_to_ascii_def)

lemma make_code_bound: "sc AND 0x80 = (0 :: u8) \<Longrightarrow> unat sc < 128"
proof (rule ccontr)
  assume z: "sc AND 0x80 = 0" and "\<not> unat sc < 128"
  then have "128 \<le> unat sc" "unat sc < 256" using unsigned_less [of sc, where ?'a = nat] by simp_all
  then have "unat sc div 128 = 1" by simp
  then have "bit (unat sc) 7" by (simp add: bit_iff_odd)
  then have "bit sc 7" by (simp add: bit_unsigned_iff)
  moreover have "bit (0x80 :: u8) 7" by simp
  ultimately have "bit (sc AND 0x80) 7" by (simp add: bit_and_iff)
  with z show False by simp
qed

lemma shift_loop:
  "n < length buf \<Longrightarrow> fold (\<lambda>i b. b[i := b ! (i + 1)]) [0..<n] buf = take n (tl buf) @ drop n buf"
proof (induction n)
  case 0
  then show ?case by simp
next
  case (Suc n)
  let ?b = "take n (tl buf) @ drop n buf"
  have len: "length (take n (tl buf)) = n" using Suc.prems by simp
  have "drop n buf = buf ! n # drop (Suc n) buf" using Suc.prems by (simp add: Cons_nth_drop_Suc)
  then have "?b[n := ?b ! (n + 1)] = take n (tl buf) @ buf ! (n + 1) # drop (Suc n) buf"
    using len Suc.prems by (simp add: list_update_append nth_append)
  also have "\<dots> = take (Suc n) (tl buf) @ drop (Suc n) buf"
    using Suc.prems by (simp add: take_Suc_conv_app_nth nth_tl)
  finally show ?case using Suc by simp
qed

lemma shift_keys_eq:
  assumes "1 \<le> pos" and "pos \<le> int (length buf)"
  shows "shift_keys pos buf = take (nat pos - 1) (tl buf) @ drop (nat pos - 1) buf"
  using assms shift_loop [of "nat (pos - 1)" buf] by (simp add: shift_keys_def nat_diff_distrib)

lemma key_handler_pending:
  assumes "kbd_inv s"
  shows "kbd_inv (keyboard_handler_internal sc s)"
    and "pending (keyboard_handler_internal sc s) =
      (case key_of sc of None \<Rightarrow> pending s
       | Some c \<Rightarrow> if length (pending s) < 255 then pending s @ [c] else pending s)"
    and "int_flag (keyboard_handler_internal sc s) = int_flag s"
proof -
  have len: "length (pending s) = nat (key_buffer_pos s)" "length (key_buffer s) = 256"
    using assms by (auto simp: pending_def kbd_inv_def min_def)
  have tk: "take (nat (key_buffer_pos s + 1)) ((key_buffer s)[nat (key_buffer_pos s) := c]) =
      take (nat (key_buffer_pos s)) (key_buffer s) @ [c]" if "key_buffer_pos s < 255" for c
    using assms that
    by (simp add: kbd_inv_def nat_add_distrib take_Suc_conv_app_nth take_update_cancel)
  show "kbd_inv (keyboard_handler_internal sc s)"
    using assms by (auto simp: keyboard_handler_internal_def kbd_inv_def KEY_BUFFER_SIZE_def Let_def)
  show "int_flag (keyboard_handler_internal sc s) = int_flag s"
    by (simp add: keyboard_handler_internal_def Let_def)
  show "pending (keyboard_handler_internal sc s) =
      (case key_of sc of None \<Rightarrow> pending s
       | Some c \<Rightarrow> if length (pending s) < 255 then pending s @ [c] else pending s)"
  proof (cases "sc AND 0x80 = 0 \<and> scancode_to_ascii ! unat sc \<noteq> NUL")
    case True
    then have "unat sc < length scancode_to_ascii"
      using make_code_bound [of sc] by (simp add: length_scancodes)
    then show ?thesis
      using True len assms tk [of "scancode_to_ascii ! unat sc"]
      by (auto simp: keyboard_handler_internal_def pending_def key_of_def KEY_BUFFER_SIZE_def
          kbd_inv_def Let_def)
  next
    case False
    then show ?thesis
      by (auto simp: keyboard_handler_internal_def pending_def key_of_def Let_def)
  qed
qed

lemma take_key_pending:
  assumes "kbd_inv s" and "pending s \<noteq> []"
  shows "fst (take_key s) = hd (pending s)" and "pending (snd (take_key s)) = tl (pending s)"
    and "kbd_inv (snd (take_key s))" and "int_flag (snd (take_key s)) = int_flag s"
proof -
  have pos: "0 < key_buffer_pos s" using assms by (auto simp: pending_def kbd_inv_def)
  define k where "k = nat (key_buffer_pos s - 1)"
  have k: "nat (key_buffer_pos s) = Suc k" "key_buffer_pos s = int (Suc k)"
    using pos by (simp_all add: k_def)
  then have bound: "Suc k \<le> 255" "length (key_buffer s) = 256" using assms(1) by (auto simp: kbd_inv_def)
  then obtain c bs where b: "key_buffer s = c # bs" by (cases "key_buffer s") auto
  show "fst (take_key s) = hd (pending s)"
    using k b by (simp add: take_key_def pending_def)
  have sh: "shift_keys (key_buffer_pos s) (key_buffer s) = take k bs @ drop k (key_buffer s)"
    using shift_keys_eq [of "key_buffer_pos s" "key_buffer s"] k bound b by simp
  then show "pending (snd (take_key s)) = tl (pending s)"
    using k b bound by (simp add: take_key_def pending_def)
  show "kbd_inv (snd (take_key s))"
    using sh k b bound by (simp add: take_key_def kbd_inv_def)
  show "int_flag (snd (take_key s)) = int_flag s" by (simp add: take_key_def)
qed

lemma pending_empty: "kbd_inv s \<Longrightarrow> pending s = [] \<longleftrightarrow> key_buffer_pos s = 0"
  by (auto simp: pending_def kbd_inv_def)

section \<open>The interface of a bounded queue\<close>

text \<open>What the line editor relies on: keys come out in the order they were put in.\<close>

locale bounded_queue =
  fixes enq :: "'a \<Rightarrow> 'q \<Rightarrow> 'q"
    and deq :: "'q \<Rightarrow> 'b \<times> 'q"
    and inv :: "'q \<Rightarrow> bool"
    and items :: "'q \<Rightarrow> 'b list"
    and item :: "'a \<Rightarrow> 'b option"
    and cap :: nat
  assumes inv_enq: "inv q \<Longrightarrow> inv (enq a q)"
    and items_enq: "inv q \<Longrightarrow> items (enq a q) =
      (case item a of None \<Rightarrow> items q | Some b \<Rightarrow> if length (items q) < cap then items q @ [b] else items q)"
    and inv_deq: "inv q \<Longrightarrow> items q \<noteq> [] \<Longrightarrow> inv (snd (deq q))"
    and items_deq: "inv q \<Longrightarrow> items q \<noteq> [] \<Longrightarrow>
      fst (deq q) = hd (items q) \<and> items (snd (deq q)) = tl (items q)"

text \<open>Taking \<open>n\<close> items in a row.\<close>

fun deq_many :: "('q \<Rightarrow> 'b \<times> 'q) \<Rightarrow> nat \<Rightarrow> 'q \<Rightarrow> 'b list \<times> 'q" where
  "deq_many deq 0 q = ([], q)"
| "deq_many deq (Suc n) q =
     (case deq q of (b, q1) \<Rightarrow> (case deq_many deq n q1 of (bs, q2) \<Rightarrow> (b # bs, q2)))"

context bounded_queue
begin

lemma inv_enq_many: "inv q \<Longrightarrow> inv (fold enq as q)"
  by (induction as arbitrary: q) (auto simp: inv_enq)

lemma items_enq_many:
  "inv q \<Longrightarrow> length (items q) \<le> cap \<Longrightarrow>
   items (fold enq as q) = take cap (items q @ List.map_filter item as)"
proof (induction as arbitrary: q)
  case Nil
  then show ?case by (simp add: List.map_filter_def)
next
  case (Cons a as)
  have "length (items (enq a q)) \<le> cap"
    using Cons.prems by (auto simp: items_enq split: option.splits)
  then have "items (fold enq as (enq a q)) = take cap (items (enq a q) @ List.map_filter item as)"
    using Cons.prems by (intro Cons.IH inv_enq)
  moreover have "cap - Suc l = n" if "cap - l = Suc n" for l n using that by simp
  ultimately show ?case
    using Cons.prems
    by (cases "item a"; cases "cap - length (items q)")
      (auto simp: items_enq List.map_filter_def take_Cons')
qed

lemma deq_many_items:
  "inv q \<Longrightarrow> n \<le> length (items q) \<Longrightarrow>
   fst (deq_many deq n q) = take n (items q) \<and> items (snd (deq_many deq n q)) = drop n (items q)"
proof (induction n arbitrary: q)
  case 0
  then show ?case by simp
next
  case (Suc n)
  then have ne: "items q \<noteq> []" by auto
  have "n \<le> length (items (snd (deq q)))" using Suc.prems items_deq [OF _ ne] by simp
  with Suc.IH [of "snd (deq q)"] inv_deq [OF _ ne] items_deq [OF _ ne] Suc.prems ne show ?case
    by (cases "items q") (auto simp: case_prod_beta)
qed

end

interpretation kb: bounded_queue keyboard_handler_internal take_key kbd_inv pending key_of 255
proof unfold_locales
  fix q :: intr and a :: u8
  show "kbd_inv q \<Longrightarrow> kbd_inv (keyboard_handler_internal a q)" by (rule key_handler_pending)
  show "kbd_inv q \<Longrightarrow> pending (keyboard_handler_internal a q) =
      (case key_of a of None \<Rightarrow> pending q
       | Some b \<Rightarrow> if length (pending q) < 255 then pending q @ [b] else pending q)"
    by (rule key_handler_pending)
  show "kbd_inv q \<Longrightarrow> pending q \<noteq> [] \<Longrightarrow> kbd_inv (snd (take_key q))" by (rule take_key_pending)
  show "kbd_inv q \<Longrightarrow> pending q \<noteq> [] \<Longrightarrow>
      fst (take_key q) = hd (pending q) \<and> pending (snd (take_key q)) = tl (pending q)"
    by (simp add: take_key_pending)
qed

end
