(* ===== verification/VarArgs.thy ===== *)
theory VarArgs
  imports TerminalFacts
begin

text \<open>
  \<^verbatim>\<open>printk\<close> over the caller's stack: the \<^verbatim>\<open>va_start\<close> and \<^verbatim>\<open>va_arg\<close> of \<^verbatim>\<open>basedos.h\<close>, and the loop of
  \<^verbatim>\<open>printk\<close> reading its format and its arguments from memory. The model of \<^verbatim>\<open>printk\<close> that the other
  theories use, over a string and a list of arguments, is what this one does when the memory holds them.
\<close>

section \<open>Variadic arguments\<close>

text \<open>A word of memory, its low byte first.\<close>

definition load32 :: "mem \<Rightarrow> addr \<Rightarrow> u32 option" where
  "load32 m p =
     do { a \<leftarrow> ld m p; b \<leftarrow> ld m (p + 1); c \<leftarrow> ld m (p + 2); d \<leftarrow> ld m (p + 3);
          Some (word_of_int (uchar a + 256 * (uchar b + 256 * (uchar c + 256 * uchar d)))) }"

definition va_slot :: "u32 \<Rightarrow> nat" where
  "va_slot n = unat ((n + 3) AND NOT 3)"

text \<open>\<open>va_start\<close> takes the address and the size of the last named parameter.\<close>

definition va_start :: "addr \<Rightarrow> u32 \<Rightarrow> addr" where
  "va_start param n = param + va_slot n"

text \<open>\<open>va_arg\<close> for a type of four bytes: \<^verbatim>\<open>int\<close>, \<^verbatim>\<open>unsigned int\<close> and the pointers.\<close>

definition va_arg :: "mem \<Rightarrow> addr \<Rightarrow> (u32 \<times> addr) option" where
  "va_arg m ap =
     do { let ap = ap + va_slot 4;
          v \<leftarrow> load32 m (ap - va_slot 4);
          Some (v, ap) }"

section \<open>printk\<close>

partial_function (option) printk_loop :: "mem \<Rightarrow> addr \<Rightarrow> addr \<Rightarrow> terminal \<Rightarrow> terminal option" where
  "printk_loop m format ap t =
     do { c \<leftarrow> ld m format;
          if c = NUL then Some t
          else if c = CHR ''%'' then
            do { f \<leftarrow> ld m (format + 1);
                 if f = CHR ''d'' \<or> f = CHR ''i'' \<or> f = CHR ''u''
                 then do { (num, ap) \<leftarrow> va_arg m ap; s \<leftarrow> itoa_buffer num 10;
                           printk_loop m (format + 2) ap (terminal_writestring s t) }
                 else if f = CHR ''x'' \<or> f = CHR ''X''
                 then do { (num, ap) \<leftarrow> va_arg m ap; s \<leftarrow> itoa_buffer num 16;
                           printk_loop m (format + 2) ap (terminal_writestring s t) }
                 else if f = CHR ''c''
                 then do { (num, ap) \<leftarrow> va_arg m ap;
                           printk_loop m (format + 2) ap (putchar (to_char (sint num)) t) }
                 else if f = CHR ''s''
                 then do { (str, ap) \<leftarrow> va_arg m ap;
                           s \<leftarrow> (if str = 0 then Some ''(null)'' else read_cstr m (unat str));
                           printk_loop m (format + 2) ap (terminal_writestring s t) }
                 else if f = CHR ''%''
                 then printk_loop m (format + 2) ap (putchar (CHR ''%'') t)
                 else printk_loop m (format + 2) ap (putchar f (putchar (CHR ''%'') t)) }
          else printk_loop m (format + 1) ap (putchar c t) }"

text \<open>The call: the frame holds the pointer to the format, and after it the arguments.\<close>

definition printk_va :: "mem \<Rightarrow> addr \<Rightarrow> terminal \<Rightarrow> terminal option" where
  "printk_va m frame_addr t =
     do { let ap = va_start frame_addr 4;
          format \<leftarrow> load32 m frame_addr;
          printk_loop m (unat format) ap t }"

section \<open>The two models agree\<close>

lemma va_slot_4 [simp]: "va_slot 4 = 4"
  by (simp add: va_slot_def)

lemma va_arg_eq: "load32 m ap = Some v \<Longrightarrow> va_arg m ap = Some (v, ap + 4)"
  by (simp add: va_arg_def Let_def)

text \<open>A memory that holds arguments: an integer as a word, a string by a pointer to it, a null pointer as 0.\<close>

fun arg_at :: "mem \<Rightarrow> addr \<Rightarrow> varg \<Rightarrow> bool" where
  "arg_at m ap (VInt n) \<longleftrightarrow> load32 m ap = Some n"
| "arg_at m ap (VStr None) \<longleftrightarrow> load32 m ap = Some 0"
| "arg_at m ap (VStr (Some s)) \<longleftrightarrow> (\<exists>p. load32 m ap = Some p \<and> p \<noteq> 0 \<and> cstr m (unat p) s)"

fun args_at :: "mem \<Rightarrow> addr \<Rightarrow> varg list \<Rightarrow> bool" where
  "args_at m ap [] \<longleftrightarrow> True"
| "args_at m ap (a # as) \<longleftrightarrow> arg_at m ap a \<and> args_at m (ap + 4) as"

lemma arg_at_str:
  assumes "arg_at m ap (VStr s)"
  shows "\<exists>p. va_arg m ap = Some (p, ap + 4) \<and>
    (if p = 0 then Some ''(null)'' else read_cstr m (unat p)) = Some (case s of None \<Rightarrow> ''(null)'' | Some u \<Rightarrow> u)"
proof (cases s)
  case None
  then show ?thesis using assms va_arg_eq [of m ap 0] by simp
next
  case (Some u)
  then obtain p where p: "load32 m ap = Some p" "p \<noteq> 0" "cstr m (unat p) u" using assms by auto
  show ?thesis using va_arg_eq [OF p(1)] p(2) read_cstr_cstr [OF p(3)] Some by simp
qed

lemma printk_loop_list:
  "cstr m format fmt \<Longrightarrow> args_at m ap args \<Longrightarrow> render fmt args \<noteq> None \<Longrightarrow>
   printk_loop m format ap t = printk fmt args t"
proof (induction "length fmt" arbitrary: fmt args format ap t rule: less_induct)
  case less
  show ?case
  proof (cases fmt)
    case Nil
    with less.prems(1) show ?thesis by (subst printk_loop.simps) (simp add: cstr_def ld_eq)
  next
    case (Cons c rest)
    have c: "c \<noteq> NUL" "ld m format = Some c" "cstr m (format + 1) rest"
      using less.prems(1) Cons by (simp_all add: ld_eq)
    show ?thesis
    proof (cases "c = CHR ''%''")
      case False
      have "printk_loop m (format + 1) ap (putchar c t) = printk rest args (putchar c t)"
        by (rule less.hyps [OF _ c(3) less.prems(2)]) (use less.prems(3) Cons False in auto)
      then show ?thesis using Cons False c(1,2) by (subst printk_loop.simps) simp
    next
      case True
      then obtain f fmt' where rest: "rest = f # fmt'" using less.prems(3) Cons by (cases rest) auto
      have f: "ld m (format + 1) = Some f" "cstr m (format + 2) fmt'" using c(3) rest by (simp_all add: ld_eq)
      have go: "printk_loop m (format + 2) ap' t' = printk fmt' as t'"
        if "args_at m ap' as" "render fmt' as \<noteq> None" for ap' as t'
        by (rule less.hyps [OF _ f(2) that]) (simp add: Cons rest)
      have int_arg: "\<exists>n as. args = VInt n # as \<and> va_arg m ap = Some (n, ap + 4) \<and> args_at m (ap + 4) as \<and> render fmt' as \<noteq> None"
        if "f \<in> set ''diuxXc''"
        using less.prems(2,3) that unfolding Cons rest True
        by (cases args; cases "hd args") (auto simp: va_arg_eq)
      have str_arg: "\<exists>v as. args = VStr v # as \<and> args_at m (ap + 4) as \<and> render fmt' as \<noteq> None \<and> arg_at m ap (VStr v)"
        if "f = CHR ''s''"
        using less.prems(2,3) that unfolding Cons rest True
        by (cases args; cases "hd args") auto
      consider "f \<in> set ''diuxXc''" | "f = CHR ''s''" | "f \<notin> set ''diuxXcs''" by auto
      then show ?thesis
      proof cases
        case 1
        then obtain n as where a: "args = VInt n # as" "va_arg m ap = Some (n, ap + 4)"
          "args_at m (ap + 4) as" "render fmt' as \<noteq> None" using int_arg by blast
        show ?thesis using 1 c(2) f(1) go [OF a(3,4)] unfolding Cons rest True a(1)
          by (subst printk_loop.simps) (auto simp: a(2) itoa_buffer_10 itoa_buffer_16)
      next
        case 2
        then obtain v as where a: "args = VStr v # as" "args_at m (ap + 4) as" "render fmt' as \<noteq> None"
          "arg_at m ap (VStr v)" using str_arg by blast
        from arg_at_str [OF a(4)] obtain p where p: "va_arg m ap = Some (p, ap + 4)"
          "(if p = 0 then Some ''(null)'' else read_cstr m (unat p)) = Some (case v of None \<Rightarrow> ''(null)'' | Some u \<Rightarrow> u)" by blast
        show ?thesis using 2 c(2) f(1) go [OF a(2,3)] unfolding Cons rest True a(1)
          by (subst printk_loop.simps) (simp add: p)
      next
        case 3
        have r: "render fmt' args \<noteq> None" using less.prems(3) 3 unfolding Cons rest True by (auto split: if_splits)
        show ?thesis using 3 c(2) f(1) go [OF less.prems(2) r] unfolding Cons rest True
          by (subst printk_loop.simps) simp
      qed
    qed
  qed
qed

end
