(* ===== verification/DeviceProps.thy ===== *)
theory DeviceProps
  imports TerminalFacts Interrupts VarArgs
begin

text \<open>
  The properties of the terminal (\<^verbatim>\<open>kernel/terminal.c\<close>), of the interrupt and keyboard code
  (\<^verbatim>\<open>kernel/interrupts.c\<close>) and of the speaker (\<^verbatim>\<open>kernel/sound.c\<close>), with their witnesses.
\<close>

section \<open>The terminal\<close>

definition blank_terminal :: terminal where
  "blank_terminal = \<lparr>video = (\<lambda>_. 0), cursor_x = 0, cursor_y = 0, text_attribute = 0x07, ports = []\<rparr>"

text \<open>C28: whatever bytes are written, control characters among them, the cursor stays on the
  80 by 25 screen and no cell outside video memory is written, through any number of wraps and
  scrolls.\<close>

theorem writestring_stays_on_screen:
  assumes "0 \<le> cursor_x t" "cursor_x t < 80" "0 \<le> cursor_y t" "cursor_y t < 25"
  shows "let t' = terminal_writestring s t in
    0 \<le> cursor_x t' \<and> cursor_x t' < 80 \<and> 0 \<le> cursor_y t' \<and> cursor_y t' < 25 \<and>
    (\<forall>i. i < 0 \<or> 2000 \<le> i \<longrightarrow> video t' i = video t i)"
proof -
  have "screen_ok (video t) t" using assms by (simp add: screen_ok_def term_inv_def)
  then have "screen_ok (video t) (terminal_writestring s t)" by (rule writestring_screen_ok)
  then show ?thesis by (auto simp: screen_ok_def term_inv_def on_screen_def Let_def)
qed

lemma writestring_stays_on_screen_witness:
  "let t' = terminal_writestring ''abc'' blank_terminal in
    0 \<le> cursor_x t' \<and> cursor_x t' < 80 \<and> 0 \<le> cursor_y t' \<and> cursor_y t' < 25 \<and>
    (\<forall>i. i < 0 \<or> 2000 \<le> i \<longrightarrow> video t' i = video blank_terminal i)"
  by (rule writestring_stays_on_screen) (simp_all add: blank_terminal_def)

text \<open>a newline on the last line scrolls: each line takes the contents of the line below it,
  the last line becomes blank in the current colour, and the cursor is at its start.\<close>

theorem newline_scrolls:
  assumes "cursor_y t = 24"
  shows "let t' = putchar (CHR 0x0A) t in cursor_x t' = 0 \<and> cursor_y t' = 24 \<and>
    (\<forall>x y. 0 \<le> x \<and> x < 80 \<and> 0 \<le> y \<and> y < 25 \<longrightarrow>
      video t' (y * 80 + x) =
        (if y < 24 then video t ((y + 1) * 80 + x) else cell (text_attribute t) (CHR '' '')))"
proof -
  let ?t = "t\<lparr>cursor_x := 0, cursor_y := cursor_y t + 1\<rparr>"
  have p: "putchar (CHR 0x0A) t = update_cursor (scroll ?t)"
    by (simp add: putchar_def put_glyph_def wrap_line_def)
  have v: "video (scroll ?t) = (\<lambda>i. if 0 \<le> i \<and> i < 1920 then video t (i + 80)
      else if on_screen i then cell (text_attribute t) (CHR '' '') else video t i)"
    using assms by (simp add: scroll_video fun_eq_iff)
  have "video (scroll ?t) (y * 80 + x) =
      (if y < 24 then video t ((y + 1) * 80 + x) else cell (text_attribute t) (CHR '' ''))"
    if "0 \<le> x" "x < 80" "0 \<le> y" "y < 25" for x y :: int
  proof -
    have e: "y * 80 + x + 80 = (y + 1) * 80 + x" by simp
    with that show ?thesis unfolding v e by (auto simp: on_screen_def)
  qed
  then show ?thesis using assms by (simp add: p scroll_cursor Let_def)
qed

lemma newline_scrolls_witness:
  "let t' = putchar (CHR 0x0A) (blank_terminal\<lparr>cursor_y := 24\<rparr>) in cursor_x t' = 0 \<and> cursor_y t' = 24 \<and>
    (\<forall>x y. 0 \<le> x \<and> x < 80 \<and> 0 \<le> y \<and> y < 25 \<longrightarrow>
      video t' (y * 80 + x) =
        (if y < 24 then video (blank_terminal\<lparr>cursor_y := 24\<rparr>) ((y + 1) * 80 + x)
         else cell (text_attribute (blank_terminal\<lparr>cursor_y := 24\<rparr>)) (CHR '' '')))"
  by (rule newline_scrolls) simp

text \<open>printable text that fits on the line appears there cell by cell, in the current colour,
  and changes nothing else on the screen; the cursor ends just after it.\<close>

theorem writestring_on_line:
  assumes "\<forall>c \<in> set s. glyph c" and "0 \<le> cursor_x t" "0 \<le> cursor_y t" "cursor_y t < 25"
    and "cursor_x t + int (length s) < 80"
  shows "let t' = terminal_writestring s t in
    cursor_x t' = cursor_x t + int (length s) \<and> cursor_y t' = cursor_y t \<and>
    (\<forall>k < length s. video t' (cursor_y t * 80 + cursor_x t + int k) = cell (text_attribute t) (s ! k)) \<and>
    (\<forall>i. i < cursor_y t * 80 + cursor_x t \<or> cursor_y t * 80 + cursor_x t + int (length s) \<le> i \<longrightarrow>
      video t' i = video t i)"
proof -
  have "term_inv t" using assms by (auto simp: term_inv_def)
  from writestring_line [OF assms(1) this assms(5)] show ?thesis by (auto simp: Let_def)
qed

lemma writestring_on_line_witness:
  "let t' = terminal_writestring ''ab'' blank_terminal in
    cursor_x t' = cursor_x blank_terminal + int (length ''ab'') \<and> cursor_y t' = cursor_y blank_terminal \<and>
    (\<forall>k < length ''ab''. video t' (cursor_y blank_terminal * 80 + cursor_x blank_terminal + int k) =
      cell (text_attribute blank_terminal) (''ab'' ! k)) \<and>
    (\<forall>i. i < cursor_y blank_terminal * 80 + cursor_x blank_terminal \<or>
      cursor_y blank_terminal * 80 + cursor_x blank_terminal + int (length ''ab'') \<le> i \<longrightarrow>
      video t' i = video blank_terminal i)"
  by (rule writestring_on_line) (simp_all add: blank_terminal_def glyph_def)

text \<open>the hardware cursor follows the text: the last four port writes of \<^verbatim>\<open>putchar\<close> program the
  VGA cursor registers, and the two bytes together are the cell number of the new position.\<close>

theorem putchar_moves_hardware_cursor:
  assumes "0 \<le> cursor_x t" "cursor_x t < 80" "0 \<le> cursor_y t" "cursor_y t < 25"
  shows "\<exists>lo hi. ports (putchar c t) =
      ports t @ [(0x3D4, 0x0F), (0x3D5, lo), (0x3D4, 0x0E), (0x3D5, hi)] \<and>
    uint hi * 256 + uint lo = cursor_y (putchar c t) * 80 + cursor_x (putchar c t)"
proof -
  define u where "u = scroll (wrap_line (put_glyph c t))"
  define pos :: u16 where "pos = word_of_int (cursor_y u * 80 + cursor_x u)"
  have p: "putchar c t = update_cursor u" by (simp add: putchar_def u_def)
  have "term_inv t" using assms by (simp add: term_inv_def)
  then have "term_inv (update_cursor u)" unfolding p [symmetric] by (rule putchar_inv)
  then have r: "0 \<le> cursor_x u" "cursor_x u < 80" "0 \<le> cursor_y u" "cursor_y u < 25"
    by (simp_all add: term_inv_def)
  have ports_u: "ports u = ports t"
    by (simp add: u_def put_glyph_def wrap_line_def scroll_def)
  have pos: "uint pos = cursor_y u * 80 + cursor_x u"
    using r unfolding pos_def by (subst uint_word_of_int) (intro mod_pos_pos_trivial; simp)
  have bytes: "uint (ucast (drop_bit 8 pos AND 0xFF) :: u8) * 256 + uint (ucast (pos AND 0xFF) :: u8) = uint pos"
    by (rule word16_bytes)
  have log: "ports (update_cursor u) = ports t @ [(0x3D4, 0x0F), (0x3D5, ucast (pos AND 0xFF)),
      (0x3D4, 0x0E), (0x3D5, ucast (drop_bit 8 pos AND 0xFF))]"
    unfolding update_cursor_def Let_def outb_def pos_def [symmetric] by (simp add: ports_u)
  show ?thesis using pos bytes log unfolding p by auto
qed

lemma putchar_moves_hardware_cursor_witness:
  "\<exists>lo hi. ports (putchar (CHR ''a'') blank_terminal) =
      ports blank_terminal @ [(0x3D4, 0x0F), (0x3D5, lo), (0x3D4, 0x0E), (0x3D5, hi)] \<and>
    uint hi * 256 + uint lo =
      cursor_y (putchar (CHR ''a'') blank_terminal) * 80 + cursor_x (putchar (CHR ''a'') blank_terminal)"
  by (rule putchar_moves_hardware_cursor) (simp_all add: blank_terminal_def)

text \<open>a backspace after a printable character that stayed on the line takes it back: the cursor
  is where it was and the cell is blank, the rest of the screen unchanged.\<close>

theorem backspace_undoes:
  assumes "glyph c" and "0 \<le> cursor_x t" "cursor_x t + 1 < 80" "0 \<le> cursor_y t" "cursor_y t < 25"
  shows "let t' = putchar (CHR 0x08) (putchar c t) in
    cursor_x t' = cursor_x t \<and> cursor_y t' = cursor_y t \<and>
    video t' = (video t)(cursor_y t * 80 + cursor_x t := cell (text_attribute t) (CHR '' ''))"
proof -
  have inv: "term_inv t" using assms by (simp add: term_inv_def)
  note g = putchar_glyph [OF assms(1) inv assms(3)]
  show ?thesis using assms g unfolding Let_def putchar_def [of "CHR 0x08"]
    by (simp add: put_glyph_def wrap_line_def scroll_still)
qed

lemma backspace_undoes_witness:
  "let t' = putchar (CHR 0x08) (putchar (CHR ''a'') blank_terminal) in
    cursor_x t' = cursor_x blank_terminal \<and> cursor_y t' = cursor_y blank_terminal \<and>
    video t' = (video blank_terminal)(cursor_y blank_terminal * 80 + cursor_x blank_terminal :=
      cell (text_attribute blank_terminal) (CHR '' ''))"
  by (rule backspace_undoes) (simp_all add: blank_terminal_def glyph_def)

text \<open>\<^verbatim>\<open>printk\<close> has a result exactly when the format and its arguments describe a string, and
  then it writes that string, as \<^verbatim>\<open>terminal_writestring\<close> would; the fixed buffer of a number never
  overflows.\<close>

theorem printk_writes_rendering:
  "printk fmt args t = (case render fmt args of None \<Rightarrow> None | Some s \<Rightarrow> Some (terminal_writestring s t))"
  by (simp add: printk_render map_option_case)

text \<open>C22: The call as the compiler makes it: when the stack holds the pointer to the format and after it the
  arguments, an integer or a pointer to a string each, \<^verbatim>\<open>printk\<close> walks over them with \<^verbatim>\<open>va_arg\<close> and writes the
  rendering of the format; a null string pointer is written as \<^verbatim>\<open>(null)\<close>.\<close>

theorem printk_reads_stack:
  assumes "load32 m fp = Some format" and "cstr m (unat format) fmt" and "args_at m (fp + 4) args"
    and "render fmt args = Some out"
  shows "printk_va m fp t = Some (terminal_writestring out t)"
proof -
  have "render fmt args \<noteq> None" using assms(4) by simp
  from printk_loop_list [OF assms(2,3) this, of t] show ?thesis
    using assms(1,4) by (simp add: printk_va_def va_start_def printk_render Let_def)
qed

definition stack_memory :: mem where
  "stack_memory = put (put (put Map.empty 16 (''n=%d %s %s'' @ [NUL])) 64 (''ok'' @ [NUL])) 100
     [CHR 0x10, NUL, NUL, NUL, CHR 0x07, NUL, NUL, NUL, CHR 0x40, NUL, NUL, NUL, NUL, NUL, NUL, NUL]"

lemma printk_reads_stack_witness:
  "printk_va stack_memory 100 blank_terminal = Some (terminal_writestring ''n=7 ok (null)'' blank_terminal)"
proof -
  have w: "load32 stack_memory 100 = Some 16" "load32 stack_memory 104 = Some 7" "load32 stack_memory 108 = Some 64"
    "load32 stack_memory 112 = Some 0"
    by (simp_all add: stack_memory_def load32_def ld_def uchar_def)
  have c: "cstr stack_memory 16 ''n=%d %s %s''" "cstr stack_memory 64 ''ok''"
    by (simp_all add: stack_memory_def cstr_def)
  have "args_at stack_memory 104 [VInt 7, VStr (Some ''ok''), VStr None]" using w(2-4) c(2) by simp
  moreover have "show_int 7 = ''7''" 
    by (simp add: show_int_def show_nat_def rev_digits.simps [of 10 7] rev_digits.simps [of 10 0] digit_def itoa_digit_def
        to_char_def char_of_def)
  then have "render ''n=%d %s %s'' [VInt 7, VStr (Some ''ok''), VStr None] = Some ''n=7 ok (null)''" by simp
  moreover have "cstr stack_memory (unat (16 :: u32)) ''n=%d %s %s''" using c(1) by simp
  moreover have "100 + 4 = (104 :: nat)" by simp
  ultimately show ?thesis using printk_reads_stack [OF w(1)] by metis
qed

text \<open>\<^verbatim>\<open>%u\<close> of a value from \<open>2 ^ 31\<close> up prints a negative number, where
  \<^verbatim>\<open>terminal_write_dec\<close> prints the value.\<close>

theorem printk_unsigned_negative:
  assumes "2 ^ 31 \<le> unat v"
  shows "printk ''%u'' [VInt v] t = Some (terminal_writestring (''-'' @ show_nat 10 (2 ^ 32 - unat v)) t) \<and>
    terminal_write_dec v t = Some (terminal_writestring (show_nat 10 (unat v)) t)"
proof -
  have "sint v < 0" "nat (- sint v) = 2 ^ 32 - unat v" using sint_large_u32 [OF assms] by simp_all
  then show ?thesis by (simp add: printk_render show_int_def write_dec_eq)
qed

lemma printk_unsigned_negative_witness:
  "printk ''%u'' [VInt 3000000000] blank_terminal =
    Some (terminal_writestring (''-'' @ show_nat 10 (2 ^ 32 - unat (3000000000 :: u32))) blank_terminal) \<and>
    terminal_write_dec 3000000000 blank_terminal =
    Some (terminal_writestring (show_nat 10 (unat (3000000000 :: u32))) blank_terminal)"
  by (rule printk_unsigned_negative) simp

section \<open>Keyboard and interrupts\<close>

text \<open>C29: the keyboard buffer is a queue that loses nothing below its bound and reorders nothing:
  after any sequence of scancodes the keys come out of \<^verbatim>\<open>keyboard_getchar\<close>'s dequeue in the order in
  which they were pressed, the oldest 255 of them; releases and dead keys leave no trace.\<close>

theorem keyboard_fifo:
  assumes "kbd_inv s" and "pending s = []"
    and "keys = take 255 (List.map_filter key_of scancodes)"
  shows "let s' = fold keyboard_handler_internal scancodes s in
    kbd_inv s' \<and> fst (deq_many take_key (length keys) s') = keys \<and>
    pending (snd (deq_many take_key (length keys) s')) = []"
proof -
  let ?s = "fold keyboard_handler_internal scancodes s"
  have "kbd_inv ?s" by (rule kb.inv_enq_many [OF assms(1)])
  moreover have "pending ?s = keys"
    using kb.items_enq_many [OF assms(1), of scancodes] assms(2,3) by simp
  ultimately show ?thesis using kb.deq_many_items [of ?s "length keys"] by (simp add: Let_def)
qed

lemma keyboard_fifo_witness:
  "let s' = fold keyboard_handler_internal [0x23, 0xA3, 0x17, 0x2A] intr_init in
    kbd_inv s' \<and>
    fst (deq_many take_key (length (take 255 (List.map_filter key_of [0x23, 0xA3, 0x17, 0x2A]))) s') =
      take 255 (List.map_filter key_of [0x23, 0xA3, 0x17, 0x2A]) \<and>
    pending (snd (deq_many take_key (length (take 255 (List.map_filter key_of [0x23, 0xA3, 0x17, 0x2A]))) s')) = []"
  by (rule keyboard_fifo) (simp_all add: kbd_inv_init, simp add: pending_def intr_init_def)

text \<open>\<^verbatim>\<open>keyboard_getchar\<close> on an empty buffer waits for the first press of a key that has a
  character and returns that character; with interrupts disabled it never returns, whatever
  keys are pressed.\<close>

theorem keyboard_getchar_waits:
  assumes "kbd_inv s" and "pending s = []"
  shows "(int_flag s \<longrightarrow> (\<forall>quiet sc c rest. (\<forall>q \<in> set quiet. key_of q = None) \<and> key_of sc = Some c \<longrightarrow>
      (\<exists>s'. keyboard_getchar (quiet @ sc # rest) s = Some (c, s', rest) \<and> kbd_inv s' \<and> pending s' = []))) \<and>
    (\<not> int_flag s \<longrightarrow> (\<forall>scs. keyboard_getchar scs s = None))"
proof (intro conjI impI allI)
  fix quiet sc c rest
  assume "int_flag s" and q: "(\<forall>q \<in> set quiet. key_of q = None) \<and> key_of sc = Some c"
  then show "\<exists>s'. keyboard_getchar (quiet @ sc # rest) s = Some (c, s', rest) \<and> kbd_inv s' \<and> pending s' = []"
    using assms
  proof (induction quiet arbitrary: s)
    case Nil
    have e: "key_buffer_pos s = 0" using Nil pending_empty by blast
    note h = key_handler_pending [OF Nil.prems(3), of sc]
    have p: "pending (keyboard_handler_internal sc s) = [c]" using h(2) Nil by simp
    then have n: "key_buffer_pos (keyboard_handler_internal sc s) \<noteq> 0"
      using pending_empty [OF h(1)] by auto
    note t = take_key_pending [OF h(1)]
    have "keyboard_getchar rest (keyboard_handler_internal sc s) =
        Some (c, snd (take_key (keyboard_handler_internal sc s)), rest)"
      using n t(1) p by (cases rest) (auto simp: case_prod_beta)
    then show ?case using e Nil.prems(1) t p by simp
  next
    case (Cons q quiet)
    have e: "key_buffer_pos s = 0" using Cons.prems pending_empty by blast
    note h = key_handler_pending [OF Cons.prems(3), of q]
    have "\<exists>s'. keyboard_getchar (quiet @ sc # rest) (keyboard_handler_internal q s) = Some (c, s', rest) \<and>
        kbd_inv s' \<and> pending s' = []"
      using Cons.prems h by (intro Cons.IH) simp_all
    then show ?case using e Cons.prems(1) by simp
  qed
next
  fix scs
  assume "\<not> int_flag s"
  moreover have "key_buffer_pos s = 0" using assms pending_empty by blast
  ultimately show "keyboard_getchar scs s = None" by (cases scs) simp_all
qed

lemma keyboard_getchar_waits_witness:
  "\<forall>scs. keyboard_getchar scs intr_init = None"
  using keyboard_getchar_waits [of intr_init] kbd_inv_init
  by (simp add: pending_def intr_init_def)

text \<open>no key produces a code outside the table's characters: the capital letters that the shell
  compares with to recognise the arrow keys never come out of the keyboard.\<close>

theorem keyboard_no_capitals:
  "key_of sc = Some c \<Longrightarrow> c \<notin> set ''ABCDEFGHIJKLMNOPQRSTUVWXYZ''"
proof -
  assume k: "key_of sc = Some c"
  then have "sc AND 0x80 = 0" "c = scancode_to_ascii ! unat sc"
    by (auto simp: key_of_def Let_def split: if_splits)
  moreover have "unat sc < length scancode_to_ascii"
    using make_code_bound [OF calculation(1)] by (simp add: length_scancodes)
  ultimately have "c \<in> set scancode_to_ascii" by simp
  then show ?thesis by (auto simp: scancode_to_ascii_def)
qed

lemma keyboard_no_capitals_witness:
  "key_of 0x23 = Some (CHR ''h'') \<and> CHR ''h'' \<notin> set ''ABCDEFGHIJKLMNOPQRSTUVWXYZ''"
proof -
  have k: "key_of 0x23 = Some (CHR ''h'')" by (simp add: key_of_def scancode_to_ascii_def)
  with keyboard_no_capitals [OF k] show ?thesis by blast
qed

text \<open>an interrupt gate splits the address of its handler over two fields without losing a bit,
  registering a handler leaves every other vector alone, and registration in sequence keeps the
  last handler of a vector.\<close>

theorem register_interrupt_handler_gate:
  "let e = idt (register_interrupt_handler n handler s) in
    uint (base_hi (e n)) * 65536 + uint (base_lo (e n)) = uint handler \<and>
    sel (e n) = 0x08 \<and> gate_flags (e n) = 0x8E \<and> (\<forall>k. k \<noteq> n \<longrightarrow> e k = idt s k) \<and>
    idt (register_interrupt_handler n handler (register_interrupt_handler n h' s)) = e"
  by (simp add: register_interrupt_handler_def gate_def word32_halves)

lemma register_interrupt_handler_gate_witness:
  "idt (register_interrupt_handler 0x20 0x12345678 intr_init) 0x21 = idt intr_init 0x21"
  using register_interrupt_handler_gate [of "0x20" "0x12345678" intr_init] by (simp add: Let_def)

text \<open>\<^verbatim>\<open>init_interrupts\<close> leaves only the keyboard line open at the interrupt controllers: the last
  mask written to the master has bit 1 clear and every other bit set, so the timer, line 0, stays
  masked; the keyboard vector holds its handler and the processor's interrupt flag is not
  touched.\<close>

theorem init_interrupts_masks_timer:
  "\<exists>before after. iports (init_interrupts handler base s) = before @ (0x21, 0xFD) # after \<and>
    (\<forall>(p, v) \<in> set after. p \<noteq> 0x21) \<and>
    (\<forall>i < 8. bit (0xFD :: u8) i \<longleftrightarrow> i \<noteq> 1) \<and>
    idt (init_interrupts handler base s) 0x21 = gate handler \<and>
    int_flag (init_interrupts handler base s) = int_flag s"
proof -
  have "iports (init_interrupts handler base s) =
      (iports s @ take 8 pic_setup) @ (0x21, 0xFD) # [(0xA1, 0xFF)]"
    by (simp add: init_interrupts_def lidt_def Let_def pic_setup_def outb_def)
  moreover have "\<forall>i < 8. bit (0xFD :: u8) i \<longleftrightarrow> i \<noteq> 1"
  proof (intro allI impI)
    fix i :: nat
    assume "i < 8"
    then have "i \<in> {0, 1, 2, 3, 4, 5, 6, 7}" by auto
    then show "bit (0xFD :: u8) i \<longleftrightarrow> i \<noteq> 1" by (auto simp: bit_simps)
  qed
  ultimately show ?thesis
    by (intro exI [of _ "iports s @ take 8 pic_setup"] exI [of _ "[(0xA1, 0xFF)]"])
      (simp add: init_interrupts_def lidt_def Let_def)
qed

lemma init_interrupts_masks_timer_witness:
  "\<exists>before after. iports (init_interrupts 0x101234 0x5000 intr_init) = before @ (0x21, 0xFD) # after \<and>
    (\<forall>(p, v) \<in> set after. p \<noteq> 0x21)"
  using init_interrupts_masks_timer by blast

text \<open>\<^verbatim>\<open>beep\<close> programs the speaker with the divisor of the frequency when that fits in 16 bits,
  that is from 19 Hz up; below, the high bits of the divisor are lost.\<close>

theorem beep_divisor:
  assumes "0 < unat f"
  shows "\<exists>lo hi. beep f in61 log = log @ [(0x43, 0xB6), (0x42, lo), (0x42, hi), (0x61, in61 OR 0x03)] \<and>
    (unat hi * 256 + unat lo = 1193180 div unat f \<longleftrightarrow> 19 \<le> unat f)"
proof -
  let ?d = "1193180 div f :: u32"
  have d: "unat ?d = 1193180 div unat f" by (simp add: unat_div_distrib)
  have b: "unat (ucast (drop_bit 8 ?d AND 0xFF) :: u8) * 256 + unat (ucast (?d AND 0xFF) :: u8) =
      unat ?d mod 65536"
    by (rule word32_low_bytes)
  have "(1193180 div unat f) mod 65536 = 1193180 div unat f \<longleftrightarrow> 19 \<le> unat f"
  proof
    assume "19 \<le> unat f"
    then have "1193180 div unat f \<le> 1193180 div 19" by (intro div_le_mono2) simp_all
    then show "(1193180 div unat f) mod 65536 = 1193180 div unat f" by simp
  next
    assume e: "(1193180 div unat f) mod 65536 = 1193180 div unat f"
    show "19 \<le> unat f"
    proof (rule ccontr)
      assume "\<not> 19 \<le> unat f"
      then have "1193180 div 18 \<le> 1193180 div unat f" using assms by (intro div_le_mono2) simp_all
      with e show False using mod_less_divisor [of 65536 "1193180 div unat f"] by simp
    qed
  qed
  moreover have "f \<noteq> 0" using assms by auto
  ultimately show ?thesis using b d by (simp add: beep_def Let_def outb_def)
qed

lemma beep_divisor_witness:
  "\<exists>lo hi. beep 440 0 [] = [] @ [(0x43, 0xB6), (0x42, lo), (0x42, hi), (0x61, 0 OR 0x03)] \<and>
    (unat hi * 256 + unat lo = 1193180 div unat (440 :: u32) \<longleftrightarrow> 19 \<le> unat (440 :: u32))"
  by (rule beep_divisor) simp

end
