(* ===== verification/VfsTypes.thy ===== *)
theory VfsTypes
  imports Kheap CStringNum
begin

text \<open>
  The data of the file system layer: \<^verbatim>\<open>include/fs/vfs.h\<close>, \<^verbatim>\<open>include/sys/types.h\<close> and the
  statics of \<^verbatim>\<open>fs/vfs.c\<close> and \<^verbatim>\<open>fs/memfs.c\<close>, with the operations that allocate and register.
  Structs live in typed stores indexed by their address (one for \<^verbatim>\<open>fs_node_t\<close>, one for
  \<^verbatim>\<open>memfs_inode_t\<close>); raw bytes, file contents among them, live in the byte memory. All
  addresses come from the one kernel heap. A function pointer is \<open>None\<close> or the file system
  that implements it.
\<close>

section \<open>Flags\<close>

definition FS_FILE :: u32 where "FS_FILE = 0x01"
definition FS_DIRECTORY :: u32 where "FS_DIRECTORY = 0x02"
definition O_RDONLY :: u32 where "O_RDONLY = 0x0000"
definition O_WRONLY :: u32 where "O_WRONLY = 0x0001"
definition O_RDWR :: u32 where "O_RDWR = 0x0002"
definition O_CREAT :: u32 where "O_CREAT = 0x0100"
definition SEEK_SET :: u32 where "SEEK_SET = 0"
definition SEEK_CUR :: u32 where "SEEK_CUR = 1"
definition SEEK_END :: u32 where "SEEK_END = 2"

definition MAX_FILE_DESCRIPTORS :: nat where "MAX_FILE_DESCRIPTORS = 64"
definition MAX_FILESYSTEMS :: nat where "MAX_FILESYSTEMS = 8"

lemmas flag_defs = FS_FILE_def FS_DIRECTORY_def O_RDONLY_def O_WRONLY_def O_RDWR_def O_CREAT_def
  SEEK_SET_def SEEK_CUR_def SEEK_END_def MAX_FILE_DESCRIPTORS_def MAX_FILESYSTEMS_def

section \<open>Structs\<close>

datatype driver = Memfs

lemma case_driver [simp]: "(case d of Memfs \<Rightarrow> r) = r"
  by (cases d) simp

record fs_node =
  n_name :: string
  n_mask :: u32
  n_uid :: u32
  n_gid :: u32
  n_flags :: u32
  n_inode :: u32
  n_length :: u32
  n_impl :: u32
  n_read :: "driver option"
  n_write :: "driver option"
  n_open :: "driver option"
  n_close :: "driver option"
  n_readdir :: "driver option"
  n_finddir :: "driver option"
  n_specific :: addr

text \<open>\<^verbatim>\<open>memset(node, 0, sizeof(fs_node_t))\<close>\<close>

definition zero_node :: fs_node where
  "zero_node = \<lparr>n_name = [], n_mask = 0, n_uid = 0, n_gid = 0, n_flags = 0, n_inode = 0,
     n_length = 0, n_impl = 0, n_read = None, n_write = None, n_open = None, n_close = None,
     n_readdir = None, n_finddir = None, n_specific = NULL\<rparr>"

record memfs_inode =
  i_name :: "string option"
  i_size :: u32
  i_data :: addr
  i_is_dir :: u32
  i_parent :: addr
  i_children :: addr
  i_next :: addr

definition zero_inode :: memfs_inode where
  "zero_inode = \<lparr>i_name = None, i_size = 0, i_data = NULL, i_is_dir = 0, i_parent = NULL,
     i_children = NULL, i_next = NULL\<rparr>"

record file_descriptor =
  fd_node :: addr
  fd_pos :: u32
  fd_flags :: u32

definition zero_fd :: file_descriptor where
  "zero_fd = \<lparr>fd_node = NULL, fd_pos = 0, fd_flags = 0\<rparr>"

record dirent =
  d_ino :: u32
  d_name :: string

record filesystem_ops =
  op_name :: string
  op_mount :: "driver option"
  op_unmount :: "driver option"

definition SIZEOF_FS_NODE :: u32 where "SIZEOF_FS_NODE = 312"
definition SIZEOF_INODE :: u32 where "SIZEOF_INODE = 28"

section \<open>State\<close>

record fs_state =
  kh :: kheap
  bytes :: mem
  fs_nodes :: "addr \<rightharpoonup> fs_node"
  inodes :: "addr \<rightharpoonup> memfs_inode"
  fs_root :: addr
  file_descriptors :: "file_descriptor list"
  next_fd :: u32
  filesystems :: "filesystem_ops option list"
  num_filesystems :: nat
  root_node :: addr
  memfs_nodes :: addr
  block_bitmap :: addr
  blocks :: addr
  dir_entry :: dirent

text \<open>The zero-initialised statics, over a heap and a memory.\<close>

definition fs_init :: "kheap \<Rightarrow> mem \<Rightarrow> fs_state" where
  "fs_init h m = \<lparr>kh = h, bytes = m, fs_nodes = Map.empty, inodes = Map.empty, fs_root = NULL,
     file_descriptors = replicate MAX_FILE_DESCRIPTORS zero_fd, next_fd = 0,
     filesystems = replicate MAX_FILESYSTEMS None, num_filesystems = 0, root_node = NULL,
     memfs_nodes = NULL, block_bitmap = NULL, blocks = NULL, dir_entry = \<lparr>d_ino = 0, d_name = []\<rparr>\<rparr>"

section \<open>Allocation and registration\<close>

definition fs_kmalloc :: "u32 \<Rightarrow> fs_state \<Rightarrow> addr \<times> fs_state" where
  "fs_kmalloc sz s = (case kmalloc (kh s) sz of (h, p) \<Rightarrow> (p, s\<lparr>kh := h\<rparr>))"

text \<open>
  Allocate an \<^verbatim>\<open>fs_node_t\<close> and clear it, as \<^verbatim>\<open>vfs_initialize\<close> and \<^verbatim>\<open>memfs_finddir\<close> do: the result
  of \<^verbatim>\<open>kmalloc\<close> is not checked, so a failed request writes through the null pointer.
\<close>

definition new_node :: "fs_state \<Rightarrow> (addr \<times> fs_state) option" where
  "new_node s =
     (case fs_kmalloc SIZEOF_FS_NODE s of
        (p, s') \<Rightarrow> if p = NULL then None
                   else Some (p, s'\<lparr>fs_nodes := (fs_nodes s')(p \<mapsto> zero_node)\<rparr>))"

definition set_node :: "addr \<Rightarrow> fs_node \<Rightarrow> fs_state \<Rightarrow> fs_state" where
  "set_node p n s = s\<lparr>fs_nodes := (fs_nodes s)(p \<mapsto> n)\<rparr>"

definition register_filesystem :: "filesystem_ops \<Rightarrow> fs_state \<Rightarrow> fs_state" where
  "register_filesystem fs_ops s =
     (if num_filesystems s \<ge> MAX_FILESYSTEMS then s
      else s\<lparr>filesystems := (filesystems s)[num_filesystems s := Some fs_ops],
             num_filesystems := num_filesystems s + 1\<rparr>)"

text \<open>A string stored in a \<^verbatim>\<open>char[256]\<close> by \<^verbatim>\<open>strcpy\<close>: no result when it does not fit.\<close>

definition name256 :: "string \<Rightarrow> string option" where
  "name256 str = (if length str < 256 then Some str else None)"

end
