(* ===== verification/Memfs.thy ===== *)
theory Memfs
  imports VfsTypes
begin

text \<open>
  The memory file system, \<^verbatim>\<open>fs/memfs.c\<close>: initialisation, mounting, and the six operations it
  puts into the nodes it creates. A file's contents are a block of heap bytes owned by its
  inode; a directory is a linked list of inodes.
\<close>

definition MAX_FILES :: nat where "MAX_FILES = 64"
definition MAX_BLOCKS :: nat where "MAX_BLOCKS = 1024"
definition BLOCK_SIZE :: nat where "BLOCK_SIZE = 4096"

definition memfs_ops :: filesystem_ops where
  "memfs_ops = \<lparr>op_name = ''memfs'', op_mount = Some Memfs, op_unmount = None\<rparr>"

section \<open>Initialisation and mounting\<close>

text \<open>The inode table: \<open>MAX_FILES\<close> cleared structs from address \<open>p\<close>.\<close>

definition inode_table :: "addr \<Rightarrow> (addr \<rightharpoonup> memfs_inode) \<Rightarrow> (addr \<rightharpoonup> memfs_inode)" where
  "inode_table p m =
     fold (\<lambda>k m. m(p + k * unat SIZEOF_INODE \<mapsto> zero_inode)) [0..<MAX_FILES] m"

definition memfs_initialize :: "fs_state \<Rightarrow> fs_state option" where
  "memfs_initialize s =
     (case fs_kmalloc (of_nat MAX_FILES * SIZEOF_INODE) s of (p, s) \<Rightarrow>
      if p = NULL then None
      else let s = s\<lparr>memfs_nodes := p, inodes := inode_table p (inodes s)\<rparr> in
      (case fs_kmalloc (of_nat (MAX_BLOCKS div 8)) s of (q, s) \<Rightarrow>
       do { m \<leftarrow> memset (bytes s) q 0 (MAX_BLOCKS div 8);
            (case fs_kmalloc (of_nat (MAX_BLOCKS * BLOCK_SIZE)) (s\<lparr>bytes := m, block_bitmap := q\<rparr>) of
               (r, s) \<Rightarrow>
                 Some (register_filesystem memfs_ops
                   (s\<lparr>blocks := r, root_node := p,
                      inodes := (inodes s)(p \<mapsto> zero_inode\<lparr>i_name := Some ''/'', i_is_dir := 1\<rparr>)\<rparr>))) }))"

text \<open>The allocator of inodes is compiled as a stub; the body under \<^verbatim>\<open>#if 0\<close> is not part of the program.\<close>

definition memfs_alloc_inode :: "string \<Rightarrow> u32 \<Rightarrow> fs_state \<Rightarrow> addr \<times> fs_state" where
  "memfs_alloc_inode nm is_dir s = (NULL, s)"

definition memfs_mount :: "fs_state \<Rightarrow> addr \<times> fs_state" where
  "memfs_mount s =
     (case fs_kmalloc SIZEOF_FS_NODE s of (p, s) \<Rightarrow>
        if p = NULL then (NULL, s)
        else (p, set_node p
          (zero_node\<lparr>n_name := ''root'', n_mask := 0x1FF, n_flags := FS_DIRECTORY,
             n_read := Some Memfs, n_write := Some Memfs, n_open := Some Memfs,
             n_close := Some Memfs, n_readdir := Some Memfs, n_finddir := Some Memfs,
             n_specific := root_node s\<rparr>) s))"

section \<open>Files\<close>

definition memfs_read :: "fs_node \<Rightarrow> u32 \<Rightarrow> u32 \<Rightarrow> addr \<Rightarrow> fs_state \<Rightarrow> (u32 \<times> fs_state) option" where
  "memfs_read node offset sz buffer s =
     do { inode \<leftarrow> inodes s (n_specific node);
          if offset \<ge> i_size inode then Some (0, s)
          else let sz = (if offset + sz > i_size inode then i_size inode - offset else sz) in
            if i_data inode \<noteq> NULL
            then do { m \<leftarrow> memcpy (bytes s) buffer (i_data inode + unat offset) (unat sz);
                      Some (sz, s\<lparr>bytes := m\<rparr>) }
            else Some (sz, s) }"

text \<open>
  Growing a file: a new block of \<open>offset + sz\<close> bytes, the old contents copied to its front.
  The sum is a 32-bit sum and the new block is not checked.
\<close>

definition memfs_grow :: "addr \<Rightarrow> u32 \<Rightarrow> fs_state \<Rightarrow> fs_state option" where
  "memfs_grow ino want s =
     do { inode \<leftarrow> inodes s ino;
          (case fs_kmalloc want s of (new_data, s) \<Rightarrow>
           do { s \<leftarrow> (if i_data inode \<noteq> NULL
                 then do { m \<leftarrow> memcpy (bytes s) new_data (i_data inode) (unat (i_size inode));
                           Some (s\<lparr>bytes := m, kh := kfree (kh s) (i_data inode)\<rparr>) }
                 else Some s);
                Some (s\<lparr>inodes := (inodes s)(ino \<mapsto> inode\<lparr>i_data := new_data, i_size := want\<rparr>)\<rparr>) }) }"

definition memfs_write :: "fs_node \<Rightarrow> u32 \<Rightarrow> u32 \<Rightarrow> addr \<Rightarrow> fs_state \<Rightarrow> (u32 \<times> fs_state) option" where
  "memfs_write node offset sz buffer s =
     do { inode \<leftarrow> inodes s (n_specific node);
          if i_is_dir inode \<noteq> 0 then Some (0, s)
          else do {
            s \<leftarrow> (if offset + sz > i_size inode then memfs_grow (n_specific node) (offset + sz) s
                  else Some s);
            inode \<leftarrow> inodes s (n_specific node);
            m \<leftarrow> memcpy (bytes s) (i_data inode + unat offset) buffer (unat sz);
            Some (sz, s\<lparr>bytes := m\<rparr>) } }"

definition memfs_open :: "fs_node \<Rightarrow> u32 \<Rightarrow> fs_state \<Rightarrow> fs_state" where
  "memfs_open node flags s = s"

definition memfs_close :: "fs_node \<Rightarrow> fs_state \<Rightarrow> fs_state" where
  "memfs_close node s = s"

section \<open>Directories\<close>

text \<open>\<^verbatim>\<open>for (i = 0; i < index && child; i++) child = child->next;\<close>\<close>

fun nth_child :: "(addr \<rightharpoonup> memfs_inode) \<Rightarrow> addr \<Rightarrow> nat \<Rightarrow> addr option" where
  "nth_child m child 0 = Some child"
| "nth_child m child (Suc i) =
     (if child = NULL then Some NULL else do { c \<leftarrow> m child; nth_child m (i_next c) i })"

definition memfs_readdir :: "fs_node \<Rightarrow> u32 \<Rightarrow> fs_state \<Rightarrow> (dirent option \<times> fs_state) option" where
  "memfs_readdir node index s =
     do { inode \<leftarrow> inodes s (n_specific node);
          if i_is_dir inode = 0 then Some (None, s)
          else do {
            child \<leftarrow> nth_child (inodes s) (i_children inode) (unat index);
            if child \<noteq> NULL
            then do { c \<leftarrow> inodes s child; nm \<leftarrow> i_name c; nm \<leftarrow> name256 nm;
                      let e = \<lparr>d_ino = of_nat child, d_name = nm\<rparr>;
                      Some (Some e, s\<lparr>dir_entry := e\<rparr>) }
            else Some (None, s) } }"

partial_function (option) find_child :: "(addr \<rightharpoonup> memfs_inode) \<Rightarrow> addr \<Rightarrow> string \<Rightarrow> addr option" where
  "find_child m child nm =
     (if child = NULL then Some NULL
      else do { c \<leftarrow> m child; cn \<leftarrow> i_name c;
                if strcmp_spec cn nm = 0 then Some child else find_child m (i_next c) nm })"

declare find_child.simps [code]

definition memfs_finddir :: "fs_node \<Rightarrow> string \<Rightarrow> fs_state \<Rightarrow> (addr \<times> fs_state) option" where
  "memfs_finddir node nm s =
     do { inode \<leftarrow> inodes s (n_specific node);
          if i_is_dir inode = 0 then Some (NULL, s)
          else do {
            child \<leftarrow> find_child (inodes s) (i_children inode) nm;
            if child = NULL then Some (NULL, s)
            else do {
              c \<leftarrow> inodes s child;
              (p, s) \<leftarrow> new_node s;
              cn \<leftarrow> i_name c;
              cn \<leftarrow> name256 cn;
              let dir = i_is_dir c \<noteq> 0;
              Some (p, set_node p
                (zero_node\<lparr>n_name := cn, n_flags := (if dir then FS_DIRECTORY else FS_FILE),
                   n_inode := of_nat child, n_length := i_size c,
                   n_read := Some Memfs, n_write := Some Memfs, n_open := Some Memfs,
                   n_close := Some Memfs,
                   n_readdir := (if dir then Some Memfs else None),
                   n_finddir := (if dir then Some Memfs else None),
                   n_specific := child\<rparr>) s) } } }"

end
