(* ===== verification/Vfs.thy ===== *)
theory Vfs
  imports Memfs
begin

text \<open>
  The virtual file system, \<^verbatim>\<open>fs/vfs.c\<close>: initialisation, mounting, path lookup, the dispatch
  through the function pointers of a node, and the descriptor table. A call through a node
  whose address is not that of a live node has no result.
\<close>

section \<open>Initialisation and mounting\<close>

definition vfs_initialize :: "fs_state \<Rightarrow> fs_state option" where
  "vfs_initialize s =
     do { let s = s\<lparr>file_descriptors := replicate MAX_FILE_DESCRIPTORS zero_fd, next_fd := 0\<rparr>;
          (p, s) \<leftarrow> new_node s;
          let s = set_node p (zero_node\<lparr>n_name := ''root'', n_mask := 0x1FF, n_flags := FS_DIRECTORY\<rparr>) s;
          Some (s\<lparr>fs_root := p, filesystems := replicate MAX_FILESYSTEMS None, num_filesystems := 0\<rparr>) }"

text \<open>The search for the file system type; a null entry of the table is followed and faults.\<close>

fun find_filesystem :: "filesystem_ops option list \<Rightarrow> string \<Rightarrow> filesystem_ops option option" where
  "find_filesystem [] fs_type = Some None"
| "find_filesystem (None # fss) fs_type = None"
| "find_filesystem (Some ops # fss) fs_type =
     (if strcmp_spec (op_name ops) fs_type = 0 then Some (Some ops) else find_filesystem fss fs_type)"

definition call_mount :: "driver option \<Rightarrow> fs_state \<Rightarrow> (addr \<times> fs_state) option" where
  "call_mount f s = (case f of None \<Rightarrow> None | Some Memfs \<Rightarrow> Some (memfs_mount s))"

text \<open>
  The local \<^verbatim>\<open>fs_root\<close> of \<^verbatim>\<open>vfs_mount\<close> hides the global one: the \<^verbatim>\<open>memcpy\<close> copies the mounted
  node onto itself, and the flag is set in the mounted node.
\<close>

definition vfs_mount :: "string \<Rightarrow> string \<Rightarrow> fs_state \<Rightarrow> (int \<times> fs_state) option" where
  "vfs_mount mountpoint fs_type s =
     do { fs_ops \<leftarrow> find_filesystem (take (num_filesystems s) (filesystems s)) fs_type;
          case fs_ops of
            None \<Rightarrow> Some (- 1, s)
          | Some ops \<Rightarrow> do {
              (mounted, s) \<leftarrow> call_mount (op_mount ops) s;
              if mounted = NULL then Some (- 1, s)
              else if strcmp_spec mountpoint ''/'' = 0
              then do { n \<leftarrow> fs_nodes s mounted;
                        let s = set_node mounted n s;
                        Some (0, set_node mounted (n\<lparr>n_flags := n_flags n OR FS_DIRECTORY\<rparr>) s) }
              else Some (0, s) } }"

section \<open>Operations on nodes\<close>

definition vfs_finddir :: "addr \<Rightarrow> string \<Rightarrow> fs_state \<Rightarrow> (addr \<times> fs_state) option" where
  "vfs_finddir node nm s =
     do { n \<leftarrow> fs_nodes s node;
          if n_flags n AND 0x7 = FS_DIRECTORY
          then (case n_finddir n of None \<Rightarrow> Some (NULL, s) | Some Memfs \<Rightarrow> memfs_finddir n nm s)
          else Some (NULL, s) }"

definition vfs_readdir :: "addr \<Rightarrow> u32 \<Rightarrow> fs_state \<Rightarrow> (dirent option \<times> fs_state) option" where
  "vfs_readdir node index s =
     do { n \<leftarrow> fs_nodes s node;
          case n_readdir n of None \<Rightarrow> Some (None, s) | Some Memfs \<Rightarrow> memfs_readdir n index s }"

definition vfs_read :: "addr \<Rightarrow> u32 \<Rightarrow> u32 \<Rightarrow> addr \<Rightarrow> fs_state \<Rightarrow> (u32 \<times> fs_state) option" where
  "vfs_read node offset sz buffer s =
     do { n \<leftarrow> fs_nodes s node;
          case n_read n of None \<Rightarrow> Some (0, s) | Some Memfs \<Rightarrow> memfs_read n offset sz buffer s }"

definition vfs_write :: "addr \<Rightarrow> u32 \<Rightarrow> u32 \<Rightarrow> addr \<Rightarrow> fs_state \<Rightarrow> (u32 \<times> fs_state) option" where
  "vfs_write node offset sz buffer s =
     do { n \<leftarrow> fs_nodes s node;
          case n_write n of None \<Rightarrow> Some (0, s) | Some Memfs \<Rightarrow> memfs_write n offset sz buffer s }"

definition vfs_close :: "addr \<Rightarrow> fs_state \<Rightarrow> fs_state option" where
  "vfs_close node s =
     do { n \<leftarrow> fs_nodes s node;
          case n_close n of None \<Rightarrow> Some s | Some Memfs \<Rightarrow> Some (memfs_close n s) }"

section \<open>Path lookup\<close>

text \<open>One turn of the loop takes the component before the next slash, and that slash.\<close>

definition component :: "string \<Rightarrow> string" where
  "component path = takeWhile (\<lambda>c. c \<noteq> CHR ''/'') path"

definition next_path :: "string \<Rightarrow> string" where
  "next_path path =
     (case dropWhile (\<lambda>c. c \<noteq> CHR ''/'') path of [] \<Rightarrow> [] | c # rest \<Rightarrow> rest)"

lemma next_path_shorter: "path \<noteq> [] \<Longrightarrow> length (next_path path) < length path"
proof -
  assume ne: "path \<noteq> []"
  have "length (dropWhile (\<lambda>c. c \<noteq> CHR ''/'') path) \<le> length path" by (rule length_dropWhile_le)
  with ne show ?thesis by (auto simp: next_path_def split: list.splits)
qed

text \<open>With \<^verbatim>\<open>O_CREAT\<close> a missing last component is not created either: both branches return null.\<close>

function vfs_open_loop :: "addr \<Rightarrow> string \<Rightarrow> fs_state \<Rightarrow> (addr \<times> fs_state) option" where
  "vfs_open_loop current path s =
     (if path = [] then Some (current, s)
      else if length (component path) \<ge> 256 then Some (NULL, s)
      else do {
        (nxt, s) \<leftarrow> vfs_finddir current (component path) s;
        if nxt = NULL then Some (NULL, s) else vfs_open_loop nxt (next_path path) s })"
  by pat_completeness auto
termination
  by (relation "measure (\<lambda>(current, path, s). length path)") (auto simp: next_path_shorter)

declare vfs_open_loop.simps [simp del]

definition vfs_open :: "string \<Rightarrow> u32 \<Rightarrow> fs_state \<Rightarrow> (addr \<times> fs_state) option" where
  "vfs_open filename flags s =
     (case filename of
        [] \<Rightarrow> Some (NULL, s)
      | c # path \<Rightarrow>
          if c = CHR ''/''
          then (if path = [] then Some (fs_root s, s) else vfs_open_loop (fs_root s) path s)
          else Some (NULL, s))"

section \<open>Descriptors\<close>

definition set_fd :: "nat \<Rightarrow> file_descriptor \<Rightarrow> fs_state \<Rightarrow> fs_state" where
  "set_fd i d s = s\<lparr>file_descriptors := (file_descriptors s)[i := d]\<rparr>"

fun free_slot :: "file_descriptor list \<Rightarrow> nat \<Rightarrow> nat option" where
  "free_slot [] i = None"
| "free_slot (d # ds) i = (if fd_node d = NULL then Some i else free_slot ds (i + 1))"

definition open_fd :: "string \<Rightarrow> u32 \<Rightarrow> fs_state \<Rightarrow> (int \<times> fs_state) option" where
  "open_fd filename flags s =
     (case free_slot (file_descriptors s) 0 of
        None \<Rightarrow> Some (- 1, s)
      | Some fd \<Rightarrow> do {
          (node, s) \<leftarrow> vfs_open filename flags s;
          if node = NULL then Some (- 1, s)
          else do {
            let s = set_fd fd \<lparr>fd_node = node, fd_pos = 0, fd_flags = flags\<rparr> s;
            n \<leftarrow> fs_nodes s node;
            case n_open n of None \<Rightarrow> Some (int fd, s)
              | Some Memfs \<Rightarrow> Some (int fd, memfs_open n flags s) } })"

text \<open>\<^verbatim>\<open>fd < 0 || fd >= MAX_FILE_DESCRIPTORS || file_descriptors[fd].node == NULL\<close>\<close>

definition bad_fd :: "int \<Rightarrow> fs_state \<Rightarrow> bool" where
  "bad_fd fd s \<longleftrightarrow> fd < 0 \<or> fd \<ge> int MAX_FILE_DESCRIPTORS \<or>
     fd_node (file_descriptors s ! nat fd) = NULL"

definition close_fd :: "int \<Rightarrow> fs_state \<Rightarrow> (int \<times> fs_state) option" where
  "close_fd fd s =
     (if bad_fd fd s then Some (- 1, s)
      else do {
        n \<leftarrow> fs_nodes s (fd_node (file_descriptors s ! nat fd));
        let s = (case n_close n of None \<Rightarrow> s | Some Memfs \<Rightarrow> memfs_close n s);
        Some (0, set_fd (nat fd) \<lparr>fd_node = NULL, fd_pos = 0, fd_flags = 0\<rparr> s) })"

definition read_fd :: "int \<Rightarrow> addr \<Rightarrow> u32 \<Rightarrow> fs_state \<Rightarrow> (int \<times> fs_state) option" where
  "read_fd fd buf sz s =
     (if bad_fd fd s then Some (- 1, s)
      else let desc = file_descriptors s ! nat fd in
        if fd_flags desc AND O_RDONLY = 0 \<and> fd_flags desc AND O_RDWR = 0 then Some (- 1, s)
        else do {
          (bytes_read, s) \<leftarrow> vfs_read (fd_node desc) (fd_pos desc) sz buf s;
          Some (sint bytes_read, set_fd (nat fd) (desc\<lparr>fd_pos := fd_pos desc + bytes_read\<rparr>) s) })"

definition write_fd :: "int \<Rightarrow> addr \<Rightarrow> u32 \<Rightarrow> fs_state \<Rightarrow> (int \<times> fs_state) option" where
  "write_fd fd buf sz s =
     (if bad_fd fd s then Some (- 1, s)
      else let desc = file_descriptors s ! nat fd in
        if fd_flags desc AND O_WRONLY = 0 \<and> fd_flags desc AND O_RDWR = 0 then Some (- 1, s)
        else do {
          (bytes_written, s) \<leftarrow> vfs_write (fd_node desc) (fd_pos desc) sz buf s;
          Some (sint bytes_written, set_fd (nat fd) (desc\<lparr>fd_pos := fd_pos desc + bytes_written\<rparr>) s) })"

definition lseek :: "int \<Rightarrow> u32 \<Rightarrow> u32 \<Rightarrow> fs_state \<Rightarrow> (int \<times> fs_state) option" where
  "lseek fd offset whence s =
     (if bad_fd fd s then Some (- 1, s)
      else let desc = file_descriptors s ! nat fd in
        do { new \<leftarrow>
               (if whence = SEEK_SET then Some (Some offset)
                else if whence = SEEK_CUR then Some (Some (fd_pos desc + offset))
                else if whence = SEEK_END
                then do { n \<leftarrow> fs_nodes s (fd_node desc); Some (Some (n_length n + offset)) }
                else Some None);
             case new of
               None \<Rightarrow> Some (- 1, s)
             | Some pos \<Rightarrow> Some (sint pos, set_fd (nat fd) (desc\<lparr>fd_pos := pos\<rparr>) s) })"

end
