(* ===== verification/MemfsFacts.thy ===== *)
theory MemfsFacts
  imports Memfs CStringMem
begin

text \<open>
  What the file operations of \<^verbatim>\<open>fs/memfs.c\<close> do to the contents of files: the invariant of
  the inodes' blocks, the abstraction of an inode to the list of its bytes, and the laws of
  \<open>memfs_read\<close> and \<open>memfs_write\<close> over it. The interface \<open>file_driver\<close> states what a client of a
  driver relies on; sequences of writes and reads are verified inside it.
\<close>

section \<open>Invariant and abstraction\<close>

definition heap_ok :: "fs_state \<Rightarrow> bool" where
  "heap_ok s \<longleftrightarrow> kheap_inv (kh s) \<and> valid (bytes s) (heap_base (kh s)) 0x10000"

definition block_ok :: "kheap \<Rightarrow> memfs_inode \<Rightarrow> bool" where
  "block_ok h i \<longleftrightarrow>
     (if i_data i = NULL then i_size i = 0
      else heap_base h \<le> i_data i \<and> i_data i + unat (i_size i) \<le> frontier h \<and>
        (i_data i - heap_base h) mod 4 = 0)"

definition inodes_apart :: "memfs_inode \<Rightarrow> memfs_inode \<Rightarrow> bool" where
  "inodes_apart i j \<longleftrightarrow> apart (i_data i) (unat (i_size i)) (i_data j) (unat (i_size j))"

definition memfs_inv :: "fs_state \<Rightarrow> bool" where
  "memfs_inv s \<longleftrightarrow> heap_ok s \<and>
     (\<forall>p i. inodes s p = Some i \<longrightarrow> block_ok (kh s) i) \<and>
     (\<forall>p q i j. p \<noteq> q \<longrightarrow> inodes s p = Some i \<longrightarrow> inodes s q = Some j \<longrightarrow> inodes_apart i j)"

definition inode_data :: "mem \<Rightarrow> memfs_inode \<Rightarrow> byte list" where
  "inode_data m i = map (\<lambda>k. the (m (i_data i + k))) [0..<unat (i_size i)]"

definition file_data :: "fs_state \<Rightarrow> addr \<Rightarrow> byte list" where
  "file_data s p = (case inodes s p of None \<Rightarrow> [] | Some i \<Rightarrow> inode_data (bytes s) i)"

text \<open>The bytes still free in the heap, and a caller's buffer: valid, and outside the heap.\<close>

definition heap_space :: "fs_state \<Rightarrow> nat" where
  "heap_space s = 0x10000 - unat (heap_pos (kh s))"

definition user_buffer :: "fs_state \<Rightarrow> addr \<Rightarrow> nat \<Rightarrow> bool" where
  "user_buffer s p n \<longleftrightarrow> valid (bytes s) p n \<and> apart p n (heap_base (kh s)) 0x10000"

lemma length_inode_data [simp]: "length (inode_data m i) = unat (i_size i)"
  by (simp add: inode_data_def)

lemma frontier_le: "kheap_inv h \<Longrightarrow> frontier h \<le> heap_base h + 0x10000"
  by (simp add: frontier_def kheap_inv_def)

lemma block_in_heap:
  assumes "block_ok h i" and "kheap_inv h" and "a < unat (i_size i)"
  shows "heap_base h \<le> i_data i + a" and "i_data i + a < frontier h"
    and "i_data i + a < heap_base h + 0x10000"
  using assms frontier_le [OF assms(2)] by (auto simp: block_ok_def split: if_splits)

lemma inode_data_bytes_at:
  assumes "heap_ok s" and "block_ok (kh s) i"
  shows "bytes_at (bytes s) (i_data i) (inode_data (bytes s) i)"
  unfolding bytes_at_nth
proof (intro allI impI)
  fix k
  assume "k < length (inode_data (bytes s) i)"
  then have k: "k < unat (i_size i)" by simp
  have "kheap_inv (kh s)" using assms(1) by (simp add: heap_ok_def)
  note in_heap = block_in_heap [OF assms(2) this k]
  have v: "valid (bytes s) (heap_base (kh s)) 0x10000" using assms(1) by (simp add: heap_ok_def)
  have "i_data i + k \<in> dom (bytes s)" by (rule valid_dom [OF v in_heap(1) in_heap(3)])
  then show "bytes s (i_data i + k) = Some (inode_data (bytes s) i ! k)"
    using k by (auto simp: inode_data_def)
qed

lemma inode_data_cong:
  "(\<And>k. k < unat (i_size i) \<Longrightarrow> m' (i_data i + k) = m (i_data i + k)) \<Longrightarrow>
   inode_data m' i = inode_data m i"
  by (simp add: inode_data_def)

lemma inode_data_put_apart:
  "apart d (length bs) (i_data i) (unat (i_size i)) \<Longrightarrow> inode_data (put m d bs) i = inode_data m i"
  by (rule inode_data_cong) (auto simp: put_apply apart_def)

text \<open>Writing a block of bytes over the data of an inode, at an offset inside it.\<close>

definition overwrite :: "byte list \<Rightarrow> nat \<Rightarrow> byte list \<Rightarrow> byte list" where
  "overwrite f off bs = take off f @ bs @ drop (off + length bs) f"

lemma inode_data_put:
  assumes "off + length bs \<le> unat (i_size i)"
  shows "inode_data (put m (i_data i + off) bs) i = overwrite (inode_data m i) off bs"
proof (rule nth_equalityI)
  show "length (inode_data (put m (i_data i + off) bs) i) = length (overwrite (inode_data m i) off bs)"
    using assms by (simp add: overwrite_def)
next
  fix k
  assume "k < length (inode_data (put m (i_data i + off) bs) i)"
  then have k: "k < unat (i_size i)" by simp
  consider "k < off" | "off \<le> k" "k < off + length bs" | "off + length bs \<le> k" by linarith
  then show "inode_data (put m (i_data i + off) bs) i ! k = overwrite (inode_data m i) off bs ! k"
    using k assms by cases (simp_all add: inode_data_def overwrite_def put_apply nth_append less_diff_conv2)
qed

lemma memfs_inv_apart:
  "memfs_inv s \<Longrightarrow> p \<noteq> q \<Longrightarrow> inodes s p = Some i \<Longrightarrow> inodes s q = Some j \<Longrightarrow> inodes_apart i j"
  unfolding memfs_inv_def by blast

section \<open>Reading\<close>

lemma memfs_read_law:
  assumes inv: "memfs_inv s" and ino: "inodes s (n_specific n) = Some i"
    and nowrap: "unat off + unat sz < 2 ^ 32" and buf: "user_buffer s buf (unat sz)"
  shows "memfs_read n off sz buf s =
    Some (of_nat (length (take (unat sz) (drop (unat off) (file_data s (n_specific n))))),
      s\<lparr>bytes := put (bytes s) buf (take (unat sz) (drop (unat off) (file_data s (n_specific n))))\<rparr>)"
proof -
  let ?f = "inode_data (bytes s) i" and ?o = "unat off" and ?n = "unat sz"
  let ?r = "take ?n (drop ?o ?f)"
  have ok: "heap_ok s" "block_ok (kh s) i" using inv ino by (auto simp: memfs_inv_def)
  have f: "file_data s (n_specific n) = ?f" by (simp add: file_data_def ino)
  have sum: "unat (off + sz) = ?o + ?n" using nowrap by (simp add: unat_add_less)
  have beyond: "off \<ge> i_size i \<longleftrightarrow> unat (i_size i) \<le> ?o" by (simp add: word_le_nat_alt)
  show ?thesis
  proof (cases "unat (i_size i) \<le> ?o")
    case True
    then show ?thesis using ino by (simp add: memfs_read_def beyond f)
  next
    case False
    define k where "k = (if off + sz > i_size i then i_size i - off else sz)"
    have k: "unat k = length ?r"
    proof (cases "off + sz > i_size i")
      case True
      then have "unat (i_size i - off) = unat (i_size i) - ?o" "unat (i_size i) < ?o + ?n"
        using False sum by (simp_all add: word_less_nat_alt unat_sub word_le_nat_alt)
      with True show ?thesis by (simp add: k_def)
    next
      case nt: False
      then have "?o + ?n \<le> unat (i_size i)" using sum by (simp add: word_less_nat_alt)
      with nt show ?thesis by (simp add: k_def)
    qed
    have data: "i_data i \<noteq> NULL" using ok(2) False by (auto simp: block_ok_def split: if_splits)
    have src: "bytes_at (bytes s) (i_data i + ?o) ?r"
    proof -
      have "?f = take ?o ?f @ ?r @ drop ?n (drop ?o ?f)" by (simp only: append_take_drop_id)
      then have "bytes_at (bytes s) (i_data i) (take ?o ?f @ ?r @ drop ?n (drop ?o ?f))"
        using inode_data_bytes_at [OF ok] by metis
      then show ?thesis using False by (simp add: bytes_at_append)
    qed
    have "memcpy (bytes s) buf (i_data i + ?o) (length ?r) = Some (put (bytes s) buf ?r)"
    proof (rule memcpy_put [OF src])
      show "valid (bytes s) buf (length ?r)"
        using buf by (auto simp: user_buffer_def intro: valid_mono)
      have "heap_base (kh s) \<le> i_data i" "i_data i + unat (i_size i) \<le> heap_base (kh s) + 0x10000"
        using ok data frontier_le [of "kh s"] by (auto simp: block_ok_def heap_ok_def)
      then show "buf \<le> i_data i + ?o \<or> apart buf (length ?r) (i_data i + ?o) (length ?r)"
        using buf False by (auto simp: user_buffer_def apart_def)
    qed
    moreover have "k = of_nat (length ?r)" using k by (metis of_nat_unat ucast_id)
    ultimately show ?thesis
      using ino False data k by (simp add: memfs_read_def beyond f Let_def k_def [symmetric])
  qed
qed

section \<open>Growing and writing\<close>

lemma memfs_grow_law:
  assumes inv: "memfs_inv s" and ino: "inodes s p = Some i"
    and more: "unat (i_size i) < unat want" and room: "unat want \<le> heap_space s"
  shows "\<exists>h' m'. memfs_grow p want s = Some (s\<lparr>kh := h', bytes := m',
        inodes := (inodes s)(p \<mapsto> i\<lparr>i_data := frontier (kh s), i_size := want\<rparr>)\<rparr>) \<and>
      kheap_inv h' \<and> heap_base h' = heap_base (kh s) \<and>
      frontier (kh s) + unat want \<le> frontier h' \<and>
      unat (heap_pos h') \<le> unat (heap_pos (kh s)) + unat want + 3 \<and>
      m' = put (bytes s) (frontier (kh s)) (inode_data (bytes s) i)"
proof -
  let ?h = "kh s" and ?f = "inode_data (bytes s) i"
  have ok: "heap_ok s" "block_ok ?h i" using inv ino by (auto simp: memfs_inv_def)
  have hinv: "kheap_inv ?h" using ok(1) by (simp add: heap_ok_def)
  have fit: "unat (heap_pos ?h) + unat want \<le> 0x10000" using more room by (simp add: heap_space_def)
  have small: "unat want \<le> 0xFFFE0000" using fit by simp
  define h' where "h' = fst (kmalloc ?h want)"
  have km: "kmalloc ?h want = (h', frontier ?h)"
    using kmalloc_small [OF hinv small] fit by (simp add: h'_def)
  have nz: "frontier ?h \<noteq> NULL" using hinv by (simp add: frontier_def kheap_inv_def)
  note kb = kmalloc_block [OF hinv small km nz]
  have pos: "unat (heap_pos h') \<le> unat (heap_pos ?h) + unat want + 3"
    by (rule kmalloc_round [OF hinv small km nz])
  have in_heap: "frontier ?h + unat want \<le> heap_base ?h + 0x10000" using kb(2,3) by linarith
  have kf: "kfree h' (i_data i) = h'" if "i_data i \<noteq> NULL"
    using that ok(2) kb(4,5) frontier_le [OF hinv] by (intro kfree_aligned) (auto simp: block_ok_def)
  have cp: "memcpy (bytes s) (frontier ?h) (i_data i) (unat (i_size i)) =
      Some (put (bytes s) (frontier ?h) ?f)" if "i_data i \<noteq> NULL"
  proof -
    have "memcpy (bytes s) (frontier ?h) (i_data i) (length ?f) = Some (put (bytes s) (frontier ?h) ?f)"
    proof (rule memcpy_put [OF inode_data_bytes_at [OF ok]])
      have v: "valid (bytes s) (heap_base ?h) 0x10000" using ok(1) by (simp add: heap_ok_def)
      show "valid (bytes s) (frontier ?h) (length ?f)"
        by (rule valid_sub [OF v]) (use more in_heap in \<open>simp_all add: frontier_def\<close>)
      show "frontier ?h \<le> i_data i \<or> apart (frontier ?h) (length ?f) (i_data i) (length ?f)"
        using ok(2) that by (auto simp: block_ok_def apart_def)
    qed
    then show ?thesis by simp
  qed
  show ?thesis
  proof (cases "i_data i = NULL")
    case True
    then have "?f = []" using ok(2) by (simp add: block_ok_def inode_data_def)
    with True ino km kb pos show ?thesis
      by (intro exI [of _ h'] exI [of _ "bytes s"]) (simp add: memfs_grow_def fs_kmalloc_def)
  next
    case False
    with ino km kb pos cp kf show ?thesis
      by (intro exI [of _ h'] exI [of _ "put (bytes s) (frontier ?h) ?f"])
        (simp add: memfs_grow_def fs_kmalloc_def)
  qed
qed

lemma memfs_inv_put [inv_intros]:
  "memfs_inv s \<Longrightarrow> memfs_inv (s\<lparr>bytes := put (bytes s) d bs\<rparr>)"
  by (simp add: memfs_inv_def heap_ok_def)

lemma memfs_inv_grow:
  assumes inv: "memfs_inv s" and ino: "inodes s p = Some i" and pos: "0 < unat want"
    and h': "kheap_inv h'" "heap_base h' = heap_base (kh s)" "frontier (kh s) + unat want \<le> frontier h'"
  shows "memfs_inv (s\<lparr>kh := h', bytes := put (bytes s) d bs,
    inodes := (inodes s)(p \<mapsto> i\<lparr>i_data := frontier (kh s), i_size := want\<rparr>)\<rparr>)"
proof -
  let ?h = "kh s" and ?i = "i\<lparr>i_data := frontier (kh s), i_size := want\<rparr>"
  have hinv: "kheap_inv ?h" using inv by (simp add: memfs_inv_def heap_ok_def)
  have old: "block_ok ?h j" if "inodes s q = Some j" for q j using inv that by (auto simp: memfs_inv_def)
  have new: "block_ok h' ?i" using h' hinv by (simp add: block_ok_def frontier_def kheap_inv_def)
  have kept: "block_ok h' j" if "block_ok ?h j" for j
    using that h' pos by (auto simp: block_ok_def split: if_splits)
  have fresh: "inodes_apart ?i j \<and> inodes_apart j ?i" if "block_ok ?h j" for j
    using that by (auto simp: block_ok_def inodes_apart_def apart_def split: if_splits)
  show ?thesis using inv h' new kept fresh old
    unfolding memfs_inv_def heap_ok_def by (simp add: all_conj_distrib)
qed

text \<open>What an operation on one file leaves alone.\<close>

definition fs_frame :: "fs_state \<Rightarrow> fs_state \<Rightarrow> bool" where
  "fs_frame s s' \<longleftrightarrow> heap_base (kh s') = heap_base (kh s) \<and> dom (bytes s') = dom (bytes s) \<and>
     (\<forall>a. a < heap_base (kh s) \<or> heap_base (kh s) + 0x10000 \<le> a \<longrightarrow> bytes s' a = bytes s a) \<and>
     (\<forall>p. map_option i_is_dir (inodes s' p) = map_option i_is_dir (inodes s p))"

lemma fs_frame_user:
  assumes "fs_frame s s'" and "user_buffer s p n"
  shows "user_buffer s' p n" and "length bs = n \<Longrightarrow> bytes_at (bytes s') p bs = bytes_at (bytes s) p bs"
proof -
  show "user_buffer s' p n" using assms by (simp add: fs_frame_def user_buffer_def valid_def)
  show "bytes_at (bytes s') p bs = bytes_at (bytes s) p bs" if "length bs = n"
    using assms that by (intro bytes_at_cong) (auto simp: fs_frame_def user_buffer_def apart_def)
qed

text \<open>The last step of a write: the bytes go into a block that is large enough.\<close>

lemma memfs_store:
  assumes inv: "memfs_inv s" and ino: "inodes s p = Some i" and fit: "off + length data \<le> unat (i_size i)"
    and buf: "user_buffer s buf (length data)" "bytes_at (bytes s) buf data"
  shows "memcpy (bytes s) (i_data i + off) buf (length data) = Some (put (bytes s) (i_data i + off) data)"
    and "file_data (s\<lparr>bytes := put (bytes s) (i_data i + off) data\<rparr>) p = overwrite (file_data s p) off data"
    and "q \<noteq> p \<Longrightarrow> file_data (s\<lparr>bytes := put (bytes s) (i_data i + off) data\<rparr>) q = file_data s q"
    and "fs_frame s (s\<lparr>bytes := put (bytes s) (i_data i + off) data\<rparr>)"
proof -
  let ?h = "kh s"
  have ok: "heap_ok s" "block_ok ?h i" using inv ino by (auto simp: memfs_inv_def)
  have hinv: "kheap_inv ?h" using ok(1) by (simp add: heap_ok_def)
  have in_heap: "data \<noteq> [] \<Longrightarrow> heap_base ?h \<le> i_data i" "data \<noteq> [] \<Longrightarrow> i_data i + unat (i_size i) \<le> heap_base ?h + 0x10000"
    using ok(2) fit frontier_le [OF hinv] by (auto simp: block_ok_def split: if_splits)
  have v: "valid (bytes s) (i_data i + off) (length data)"
  proof (cases "data = []")
    case False
    have "valid (bytes s) (heap_base ?h) 0x10000" using ok(1) by (simp add: heap_ok_def)
    then show ?thesis by (rule valid_sub) (use False in_heap fit in simp_all)
  qed simp
  show "memcpy (bytes s) (i_data i + off) buf (length data) = Some (put (bytes s) (i_data i + off) data)"
  proof (rule memcpy_put [OF buf(2) v])
    show "i_data i + off \<le> buf \<or> apart (i_data i + off) (length data) buf (length data)"
      using buf(1) fit in_heap by (cases "data = []") (auto simp: user_buffer_def apart_def)
  qed
  show "file_data (s\<lparr>bytes := put (bytes s) (i_data i + off) data\<rparr>) p = overwrite (file_data s p) off data"
    using inode_data_put [OF fit] by (simp add: file_data_def ino)
  show "file_data (s\<lparr>bytes := put (bytes s) (i_data i + off) data\<rparr>) q = file_data s q" if "q \<noteq> p"
  proof (cases "inodes s q")
    case (Some j)
    have "inodes_apart i j" by (rule memfs_inv_apart [OF inv that [symmetric] ino Some])
    then have "apart (i_data i + off) (length data) (i_data j) (unat (i_size j))"
      using fit by (auto simp: inodes_apart_def apart_def)
    then show ?thesis by (simp add: file_data_def Some inode_data_put_apart)
  qed (simp add: file_data_def)
  show "fs_frame s (s\<lparr>bytes := put (bytes s) (i_data i + off) data\<rparr>)"
    using v in_heap fit
    by (cases "data = []") (auto simp: fs_frame_def dom_put_valid put_outside)
qed

text \<open>Growing keeps every file's contents, and the old contents are the front of the new block.\<close>

lemma file_data_grow:
  assumes inv: "memfs_inv s" and ino: "inodes s p = Some i" and more: "unat (i_size i) < unat want"
    and s': "s' = s\<lparr>kh := h', bytes := put (bytes s) (frontier (kh s)) (inode_data (bytes s) i),
      inodes := (inodes s)(p \<mapsto> i\<lparr>i_data := frontier (kh s), i_size := want\<rparr>)\<rparr>"
  shows "length (file_data s' p) = unat want" and "take (unat (i_size i)) (file_data s' p) = file_data s p"
    and "q \<noteq> p \<Longrightarrow> file_data s' q = file_data s q"
proof -
  show "length (file_data s' p) = unat want" by (simp add: s' file_data_def)
  show "take (unat (i_size i)) (file_data s' p) = file_data s p"
    using more by (intro nth_equalityI) (simp_all add: s' file_data_def ino inode_data_def put_apply)
  show "file_data s' q = file_data s q" if "q \<noteq> p"
  proof (cases "inodes s q")
    case (Some j)
    then have "block_ok (kh s) j" using inv by (auto simp: memfs_inv_def)
    then have "apart (frontier (kh s)) (unat (i_size i)) (i_data j) (unat (i_size j))"
      by (auto simp: block_ok_def apart_def split: if_splits)
    then show ?thesis using that by (simp add: s' file_data_def Some inode_data_put_apart)
  qed (use that in \<open>simp add: s' file_data_def\<close>)
qed

text \<open>Growing a file writes inside the heap only.\<close>

lemma memfs_grow_frame:
  assumes inv: "memfs_inv s" and ino: "inodes s p = Some i" and more: "unat (i_size i) < n"
    and h': "kheap_inv h'" "heap_base h' = heap_base (kh s)" "frontier (kh s) + n \<le> frontier h'"
    and dir: "i_is_dir i1 = i_is_dir i"
  shows "fs_frame s (s\<lparr>kh := h', bytes := put (bytes s) (frontier (kh s)) (inode_data (bytes s) i),
    inodes := (inodes s)(p \<mapsto> i1)\<rparr>)"
proof -
  have v: "valid (bytes s) (heap_base (kh s)) 0x10000" and hinv: "kheap_inv (kh s)"
    using inv by (simp_all add: memfs_inv_def heap_ok_def)
  have top: "frontier (kh s) + unat (i_size i) \<le> heap_base (kh s) + 0x10000"
    using frontier_le [OF h'(1)] h'(2,3) more by simp
  then have "valid (bytes s) (frontier (kh s)) (unat (i_size i))"
    by (intro valid_sub [OF v]) (simp_all add: frontier_def)
  then show ?thesis using h'(2) top
    by (auto simp: fs_frame_def ino dir dom_put_valid put_outside frontier_def)
qed

lemma memfs_write_law:
  assumes inv: "memfs_inv s" and ino: "inodes s (n_specific n) = Some i" and plain: "i_is_dir i = 0"
    and off: "unat off \<le> length (file_data s (n_specific n))"
    and room: "unat off + length data \<le> unat (i_size i) \<or> unat off + length data \<le> heap_space s"
    and buf: "user_buffer s buf (length data)" "bytes_at (bytes s) buf data" and sz: "unat sz = length data"
  shows "\<exists>s'. memfs_write n off sz buf s = Some (sz, s') \<and> memfs_inv s' \<and> fs_frame s s' \<and>
    file_data s' (n_specific n) = overwrite (file_data s (n_specific n)) (unat off) data \<and>
    (\<forall>q. q \<noteq> n_specific n \<longrightarrow> file_data s' q = file_data s q) \<and>
    heap_space s \<le> heap_space s' + unat off + length data + 3"
proof -
  let ?p = "n_specific n" and ?o = "unat off" and ?want = "off + sz"
  have len: "length (file_data s ?p) = unat (i_size i)" by (simp add: file_data_def ino)
  have bound: "?o + length data < 2 ^ 32"
    using room unsigned_less [of "i_size i", where ?'a = nat] by (auto simp: heap_space_def)
  have want: "unat ?want = ?o + length data" using bound sz by (simp add: unat_add_less)
  have grows: "?want > i_size i \<longleftrightarrow> unat (i_size i) < ?o + length data"
    by (simp add: word_less_nat_alt want)
  show ?thesis
  proof (cases "unat (i_size i) < ?o + length data")
    case False
    then have fit: "?o + length data \<le> unat (i_size i)" by simp
    note st = memfs_store [OF inv ino fit buf]
    have "memfs_write n off sz buf s = Some (sz, s\<lparr>bytes := put (bytes s) (i_data i + ?o) data\<rparr>)"
      using st(1) ino plain False by (simp add: memfs_write_def grows sz)
    then show ?thesis using st(2,3,4) memfs_inv_put [OF inv] by (auto simp: heap_space_def)
  next
    case True
    have "unat (i_size i) < unat ?want" "unat ?want \<le> heap_space s" using True room want by auto
    from memfs_grow_law [OF inv ino this] obtain h' where
      gr: "memfs_grow ?p ?want s = Some (s\<lparr>kh := h', bytes := put (bytes s) (frontier (kh s)) (inode_data (bytes s) i),
          inodes := (inodes s)(?p \<mapsto> i\<lparr>i_data := frontier (kh s), i_size := ?want\<rparr>)\<rparr>)" and
      h': "kheap_inv h'" "heap_base h' = heap_base (kh s)" "frontier (kh s) + unat ?want \<le> frontier h'" and
      pos: "unat (heap_pos h') \<le> unat (heap_pos (kh s)) + unat ?want + 3"
      by blast
    define i1 where "i1 = i\<lparr>i_data := frontier (kh s), i_size := ?want\<rparr>"
    define s1 where "s1 = s\<lparr>kh := h', bytes := put (bytes s) (frontier (kh s)) (inode_data (bytes s) i),
        inodes := (inodes s)(?p \<mapsto> i1)\<rparr>"
    have more: "unat (i_size i) < unat ?want" using True want by simp
    have inv1: "memfs_inv s1" unfolding s1_def i1_def
      by (rule memfs_inv_grow [OF inv ino _ h']) (use more in simp)
    have ino1: "inodes s1 ?p = Some i1" by (simp add: s1_def)
    note fd = file_data_grow [OF inv ino more s1_def [unfolded i1_def]]
    have fr1: "fs_frame s s1" unfolding s1_def by (rule memfs_grow_frame [OF inv ino more h']) (simp add: i1_def)
    have fit: "?o + length data \<le> unat (i_size i1)" by (simp add: i1_def want)
    have buf1: "user_buffer s1 buf (length data)" "bytes_at (bytes s1) buf data"
      using fs_frame_user [OF fr1 buf(1)] buf(2) by simp_all
    note st = memfs_store [OF inv1 ino1 fit buf1]
    let ?s2 = "s1\<lparr>bytes := put (bytes s1) (i_data i1 + ?o) data\<rparr>"
    have "memfs_write n off sz buf s = Some (sz, ?s2)"
      using st(1) ino ino1 plain True gr unfolding i1_def [symmetric] s1_def [symmetric]
      by (simp add: memfs_write_def grows sz)
    moreover have "file_data ?s2 ?p = overwrite (file_data s ?p) ?o data"
    proof -
      have "take ?o (file_data s1 ?p) = take ?o (take (unat (i_size i)) (file_data s1 ?p))"
        using off len by (simp add: min_def)
      also have "\<dots> = take ?o (file_data s ?p)" by (simp only: fd(2))
      finally show ?thesis using st(2) fd(1) True len want by (simp add: overwrite_def)
    qed
    moreover have "fs_frame s ?s2" using fr1 st(4) by (auto simp: fs_frame_def)
    moreover have "heap_space s \<le> heap_space ?s2 + ?o + length data + 3"
      using pos want by (simp add: heap_space_def s1_def)
    ultimately show ?thesis using st(3) fd(3) memfs_inv_put [OF inv1] by auto
  qed
qed

end
