(* ===== verification/FileDriver.thy ===== *)
theory FileDriver
  imports MemfsFacts
begin

text \<open>
  The interface between the virtual file system and a driver: the laws of the \<^verbatim>\<open>read\<close> and
  \<^verbatim>\<open>write\<close> members of \<^verbatim>\<open>fs_node_t\<close> that callers rely on. Sequences of operations on one file
  are verified once, inside the interface; the memory file system of \<^verbatim>\<open>fs/memfs.c\<close> implements it.
\<close>

section \<open>The interface\<close>

text \<open>
  \<open>ok\<close> is the driver's invariant, \<open>plain s n\<close> says that node \<open>n\<close> is a file of \<open>s\<close>, \<open>content\<close> its
  bytes, \<open>user\<close> a buffer the driver does not own, \<open>ram\<close> the memory, \<open>space\<close> the bytes left.
\<close>

locale file_driver =
  fixes rd :: "'n \<Rightarrow> u32 \<Rightarrow> u32 \<Rightarrow> addr \<Rightarrow> 's \<Rightarrow> (u32 \<times> 's) option"
    and wr :: "'n \<Rightarrow> u32 \<Rightarrow> u32 \<Rightarrow> addr \<Rightarrow> 's \<Rightarrow> (u32 \<times> 's) option"
    and ok :: "'s \<Rightarrow> bool"
    and plain :: "'s \<Rightarrow> 'n \<Rightarrow> bool"
    and content :: "'s \<Rightarrow> 'n \<Rightarrow> byte list"
    and user :: "'s \<Rightarrow> addr \<Rightarrow> nat \<Rightarrow> bool"
    and ram :: "'s \<Rightarrow> mem"
    and space :: "'s \<Rightarrow> nat"
  assumes space_bound: "space s \<le> 0x10000"
    and rd_law: "ok s \<Longrightarrow> plain s n \<Longrightarrow> unat off + unat sz < 2 ^ 32 \<Longrightarrow> user s buf (unat sz) \<Longrightarrow>
      \<exists>k s'. rd n off sz buf s = Some (k, s') \<and> ok s' \<and> plain s' n \<and>
        (\<forall>m. content s' m = content s m) \<and>
        unat k = length (take (unat sz) (drop (unat off) (content s n))) \<and>
        bytes_at (ram s') buf (take (unat sz) (drop (unat off) (content s n)))"
    and wr_law: "ok s \<Longrightarrow> plain s n \<Longrightarrow> unat off \<le> length (content s n) \<Longrightarrow>
      unat off + length data \<le> space s \<Longrightarrow> user s buf (length data) \<Longrightarrow>
      bytes_at (ram s) buf data \<Longrightarrow> unat sz = length data \<Longrightarrow>
      \<exists>s'. wr n off sz buf s = Some (sz, s') \<and> ok s' \<and> plain s' n \<and>
        content s' n = overwrite (content s n) (unat off) data \<and>
        space s \<le> space s' + unat off + length data + 3 \<and>
        (\<forall>p bs. user s p (length bs) \<and> bytes_at (ram s) p bs \<longrightarrow>
          user s' p (length bs) \<and> bytes_at (ram s') p bs) \<and>
        (\<forall>p k. user s p k \<longrightarrow> user s' p k)"

text \<open>Writing chunks one after the other from an offset, as successive calls of \<^verbatim>\<open>write\<close> do.\<close>

fun write_chunks :: "('n \<Rightarrow> u32 \<Rightarrow> u32 \<Rightarrow> addr \<Rightarrow> 's \<Rightarrow> (u32 \<times> 's) option) \<Rightarrow>
    'n \<Rightarrow> u32 \<Rightarrow> (addr \<times> byte list) list \<Rightarrow> 's \<Rightarrow> (u32 \<times> 's) option" where
  "write_chunks wr n off [] s = Some (off, s)"
| "write_chunks wr n off ((buf, data) # cs) s =
     do { (k, s) \<leftarrow> wr n off (of_nat (length data)) buf s; write_chunks wr n (off + k) cs s }"

text \<open>The heap bytes that appending needs at most: every write may copy the whole file.\<close>

fun append_cost :: "nat \<Rightarrow> byte list list \<Rightarrow> nat" where
  "append_cost off [] = 0"
| "append_cost off (d # ds) = off + length d + 3 + append_cost (off + length d) ds"

section \<open>Clients of the interface\<close>

context file_driver
begin

lemma write_read:
  assumes "ok s" and "plain s n" and "unat off \<le> length (content s n)"
    and "unat off + length data \<le> space s" and "user s buf (length data)"
    and "bytes_at (ram s) buf data" and sz: "unat sz = length data" and "user s buf' (length data)"
  shows "\<exists>s1 s2. wr n off sz buf s = Some (sz, s1) \<and> rd n off sz buf' s1 = Some (sz, s2) \<and>
    bytes_at (ram s2) buf' data \<and> content s2 n = overwrite (content s n) (unat off) data \<and> ok s2"
proof -
  from wr_law [OF assms(1-7)] obtain s1 where
    w: "wr n off sz buf s = Some (sz, s1)" "ok s1" "plain s1 n"
      "content s1 n = overwrite (content s n) (unat off) data" "user s1 buf' (unat sz)"
    using assms(8) sz by auto
  have slice: "take (unat sz) (drop (unat off) (content s1 n)) = data"
    using assms(3) sz by (simp add: w(4) overwrite_def)
  have "unat off + unat sz < 2 ^ 32" using assms(4) sz space_bound [of s] by simp
  from rd_law [OF w(2,3) this w(5)] obtain k s2 where
    r: "rd n off sz buf' s1 = Some (k, s2)" "ok s2" "content s2 n = content s1 n"
      "unat k = length data" "bytes_at (ram s2) buf' data"
    by (auto simp only: slice)
  have "k = sz" using r(4) sz by (simp add: word_unat_eq_iff)
  with w r show ?thesis by auto
qed

lemma write_chunks_append:
  assumes "ok s" and "plain s n" and "unat off = length (content s n)"
    and "\<forall>(buf, data) \<in> set cs. user s buf (length data) \<and> bytes_at (ram s) buf data"
    and "append_cost (unat off) (map snd cs) \<le> space s"
  shows "\<exists>off' s'. write_chunks wr n off cs s = Some (off', s') \<and> ok s' \<and> plain s' n \<and>
    content s' n = content s n @ concat (map snd cs) \<and> unat off' = length (content s' n) \<and>
    (\<forall>p k. user s p k \<longrightarrow> user s' p k)"
  using assms
proof (induction cs arbitrary: s off)
  case Nil
  then show ?case by simp
next
  case (Cons c cs)
  obtain buf data where c: "c = (buf, data)" by (cases c) auto
  have cost: "unat off + length data + 3 + append_cost (unat off + length data) (map snd cs) \<le> space s"
    using Cons.prems(5) by (simp add: c)
  have room: "unat off + length data \<le> space s" using cost by simp
  have small: "unat off + length data < 2 ^ 32" using room space_bound [of s] by simp
  then have sz: "unat (of_nat (length data) :: u32) = length data" by (simp add: unat_of_nat_u32)
  have src: "user s buf (length data)" "bytes_at (ram s) buf data" using Cons.prems(4) by (auto simp: c)
  have "unat off \<le> length (content s n)" using Cons.prems(3) by simp
  from wr_law [OF Cons.prems(1,2) this room src sz] obtain s1 where
    w: "wr n off (of_nat (length data)) buf s = Some (of_nat (length data), s1)" "ok s1" "plain s1 n"
      "content s1 n = overwrite (content s n) (unat off) data"
      "space s \<le> space s1 + unat off + length data + 3" and
    keep: "\<And>p bs. user s p (length bs) \<Longrightarrow> bytes_at (ram s) p bs \<Longrightarrow>
        user s1 p (length bs) \<and> bytes_at (ram s1) p bs" "\<And>p k. user s p k \<Longrightarrow> user s1 p k"
    by blast
  have app: "content s1 n = content s n @ data" using w(4) Cons.prems(3) by (simp add: overwrite_def)
  have off: "unat (off + of_nat (length data)) = unat off + length data"
    using small sz by (simp add: unat_add_less)
  have "\<exists>off' s'. write_chunks wr n (off + of_nat (length data)) cs s1 = Some (off', s') \<and> ok s' \<and>
      plain s' n \<and> content s' n = content s1 n @ concat (map snd cs) \<and> unat off' = length (content s' n) \<and>
      (\<forall>p k. user s1 p k \<longrightarrow> user s' p k)"
  proof (rule Cons.IH [OF w(2,3)])
    show "unat (off + of_nat (length data)) = length (content s1 n)"
      using off app Cons.prems(3) by simp
    show "\<forall>(b, d) \<in> set cs. user s1 b (length d) \<and> bytes_at (ram s1) b d"
      using Cons.prems(4) keep(1) by fastforce
    show "append_cost (unat (off + of_nat (length data))) (map snd cs) \<le> space s1"
      using cost w(5) by (simp add: off)
  qed
  then show ?case using w(1) app keep(2) by (auto simp: c)
qed

text \<open>Append any number of chunks, then read the whole file back from the start.\<close>

lemma write_chunks_read:
  assumes "ok s" and "plain s n" and "content s n = []"
    and "\<forall>(buf, data) \<in> set cs. user s buf (length data) \<and> bytes_at (ram s) buf data"
    and "append_cost 0 (map snd cs) \<le> space s" and "user s out (unat sz)"
    and "length (concat (map snd cs)) \<le> unat sz"
  shows "\<exists>off s1 k s2. write_chunks wr n 0 cs s = Some (off, s1) \<and> rd n 0 sz out s1 = Some (k, s2) \<and>
    unat k = length (concat (map snd cs)) \<and> bytes_at (ram s2) out (concat (map snd cs))"
proof -
  have cost: "append_cost (unat (0 :: u32)) (map snd cs) \<le> space s" using assms(5) by simp
  have "unat (0 :: u32) = length (content s n)" using assms(3) by simp
  from write_chunks_append [OF assms(1,2) this assms(4) cost] obtain off s1 where
    w: "write_chunks wr n 0 cs s = Some (off, s1)" "ok s1" "plain s1 n"
      "content s1 n = concat (map snd cs)" "user s1 out (unat sz)"
    using assms(3,6) by auto
  have all: "take (unat sz) (drop (unat (0 :: u32)) (content s1 n)) = concat (map snd cs)"
    using assms(7) by (simp add: w(4))
  have "unat (0 :: u32) + unat sz < 2 ^ 32" using unsigned_less [of sz, where ?'a = nat] by simp
  from rd_law [OF w(2,3) this w(5), unfolded all] obtain k s2 where
    "rd n 0 sz out s1 = Some (k, s2)" "unat k = length (concat (map snd cs))"
    "bytes_at (ram s2) out (concat (map snd cs))"
    by blast
  with w(1) show ?thesis by blast
qed

end

section \<open>The memory file system implements it\<close>

definition plain_file :: "fs_state \<Rightarrow> fs_node \<Rightarrow> bool" where
  "plain_file s n \<longleftrightarrow> map_option i_is_dir (inodes s (n_specific n)) = Some 0"

lemma plain_file_inode: "plain_file s n \<Longrightarrow> \<exists>i. inodes s (n_specific n) = Some i \<and> i_is_dir i = 0"
  by (auto simp: plain_file_def)

lemma file_data_buffer:
  assumes "memfs_inv s" and "user_buffer s buf (length bs)"
  shows "file_data (s\<lparr>bytes := put (bytes s) buf bs\<rparr>) p = file_data s p"
proof (cases "inodes s p")
  case (Some i)
  have hinv: "kheap_inv (kh s)" and b: "block_ok (kh s) i"
    using assms(1) Some by (auto simp: memfs_inv_def heap_ok_def)
  have "apart buf (length bs) (i_data i) (unat (i_size i))"
    using b frontier_le [OF hinv] assms(2)
    by (auto simp: block_ok_def user_buffer_def apart_def split: if_splits)
  then show ?thesis by (simp add: file_data_def Some inode_data_put_apart)
qed (simp add: file_data_def)

interpretation memfs: file_driver memfs_read memfs_write memfs_inv plain_file
  "\<lambda>s n. file_data s (n_specific n)" user_buffer bytes heap_space
proof unfold_locales
  fix s n buf and off sz :: u32
  show "heap_space s \<le> 0x10000" by (simp add: heap_space_def)
  assume inv: "memfs_inv s" and pl: "plain_file s n" and nw: "unat off + unat sz < 2 ^ 32"
    and buf: "user_buffer s buf (unat sz)"
  obtain i where i: "inodes s (n_specific n) = Some i" using plain_file_inode [OF pl] by blast
  let ?r = "take (unat sz) (drop (unat off) (file_data s (n_specific n)))"
  let ?s = "s\<lparr>bytes := put (bytes s) buf ?r\<rparr>"
  have rb: "user_buffer s buf (length ?r)"
    using buf by (auto simp: user_buffer_def apart_def intro: valid_mono)
  have "unat (of_nat (length ?r) :: u32) = length ?r"
    using nw by (intro unat_of_nat_u32) (auto simp: min_def)
  then show "\<exists>k s'. memfs_read n off sz buf s = Some (k, s') \<and> memfs_inv s' \<and> plain_file s' n \<and>
      (\<forall>m. file_data s' (n_specific m) = file_data s (n_specific m)) \<and>
      unat k = length ?r \<and> bytes_at (bytes s') buf ?r"
    using memfs_read_law [OF inv i nw buf] memfs_inv_put [OF inv] file_data_buffer [OF inv rb] pl
    by (intro exI [of _ "of_nat (length ?r)"] exI [of _ ?s]) (simp add: plain_file_def bytes_at_put)
next
  fix s n buf and off sz :: u32 and data :: "byte list"
  assume inv: "memfs_inv s" and pl: "plain_file s n"
    and rest: "unat off \<le> length (file_data s (n_specific n))" "unat off + length data \<le> heap_space s"
      "user_buffer s buf (length data)" "bytes_at (bytes s) buf data" "unat sz = length data"
  obtain i where i: "inodes s (n_specific n) = Some i" "i_is_dir i = 0"
    using plain_file_inode [OF pl] by blast
  from memfs_write_law [OF inv i rest(1) _ rest(3,4,5)] rest(2) obtain s' where
    w: "memfs_write n off sz buf s = Some (sz, s')" "memfs_inv s'" "fs_frame s s'"
      "file_data s' (n_specific n) = overwrite (file_data s (n_specific n)) (unat off) data"
      "heap_space s \<le> heap_space s' + unat off + length data + 3"
    by blast
  have "plain_file s' n" using pl w(3) by (simp add: plain_file_def fs_frame_def)
  with w fs_frame_user [OF w(3)]
  show "\<exists>s'. memfs_write n off sz buf s = Some (sz, s') \<and> memfs_inv s' \<and> plain_file s' n \<and>
      file_data s' (n_specific n) = overwrite (file_data s (n_specific n)) (unat off) data \<and>
      heap_space s \<le> heap_space s' + unat off + length data + 3 \<and>
      (\<forall>p bs. user_buffer s p (length bs) \<and> bytes_at (bytes s) p bs \<longrightarrow>
        user_buffer s' p (length bs) \<and> bytes_at (bytes s') p bs) \<and>
      (\<forall>p k. user_buffer s p k \<longrightarrow> user_buffer s' p k)"
    by blast
qed

end
