(* ===== verification/VfsFacts.thy ===== *)
theory VfsFacts
  imports Vfs FileDriver CStringScan
begin

text \<open>
  Facts about \<^verbatim>\<open>fs/vfs.c\<close> and the directory part of \<^verbatim>\<open>fs/memfs.c\<close>: lookup and listing over a
  list of siblings, path resolution as a walk over components, the effect of mounting, and
  the descriptor table.
\<close>

section \<open>Directories\<close>

text \<open>A chain of inodes linked by \<^verbatim>\<open>next\<close>, with the names of its members.\<close>

fun siblings :: "(addr \<rightharpoonup> memfs_inode) \<Rightarrow> addr \<Rightarrow> (addr \<times> string) list \<Rightarrow> bool" where
  "siblings m p [] = (p = NULL)"
| "siblings m p ((c, nm) # cs) =
     (p = c \<and> c \<noteq> NULL \<and> NUL \<notin> set nm \<and> length nm < 256 \<and>
      (case m c of None \<Rightarrow> False | Some i \<Rightarrow> i_name i = Some nm \<and> siblings m (i_next i) cs))"

lemma siblings_nth:
  "siblings m p cs \<Longrightarrow> k < length cs \<Longrightarrow>
   \<exists>i. m (fst (cs ! k)) = Some i \<and> i_name i = Some (snd (cs ! k)) \<and> fst (cs ! k) \<noteq> NULL \<and>
     length (snd (cs ! k)) < 256 \<and> NUL \<notin> set (snd (cs ! k))"
proof (induction m p cs arbitrary: k rule: siblings.induct)
  case (2 m p c nm cs)
  then show ?case by (cases k) (auto split: option.splits)
qed simp

lemma nth_child_siblings:
  "siblings m p cs \<Longrightarrow> nth_child m p k = Some (if k < length cs then fst (cs ! k) else NULL)"
proof (induction m p cs arbitrary: k rule: siblings.induct)
  case (1 m p)
  then show ?case by (cases k) simp_all
next
  case (2 m p c nm cs)
  then show ?case by (cases k) (auto split: option.splits)
qed

text \<open>The first sibling of a name.\<close>

definition lookup_name :: "(addr \<times> string) list \<Rightarrow> string \<Rightarrow> addr" where
  "lookup_name cs nm = (case List.find (\<lambda>(c, n). n = nm) cs of None \<Rightarrow> NULL | Some (c, n) \<Rightarrow> c)"

lemma find_child_siblings:
  "siblings m p cs \<Longrightarrow> NUL \<notin> set nm \<Longrightarrow> find_child m p nm = Some (lookup_name cs nm)"
proof (induction m p cs rule: siblings.induct)
  case (1 m p)
  then show ?case by (subst find_child.simps) (simp add: lookup_name_def)
next
  case (2 m p c n cs)
  then obtain i where i: "m c = Some i" "i_name i = Some n" "siblings m (i_next i) cs"
    by (auto split: option.splits)
  have p: "p = c" "c \<noteq> NULL" "NUL \<notin> set n" using 2(2) by simp_all
  have IH: "find_child m (i_next i) nm = Some (lookup_name cs nm)"
    using 2(1) i 2(3) by blast
  show ?case using i p IH 2(3)
    by (subst find_child.simps) (simp add: strcmp_spec_eq_0 lookup_name_def)
qed

lemma lookup_name_distinct:
  "distinct (map snd cs) \<Longrightarrow> k < length cs \<Longrightarrow> lookup_name cs (snd (cs ! k)) = fst (cs ! k)"
proof (induction cs arbitrary: k)
  case (Cons c cs)
  show ?case
  proof (cases k)
    case (Suc j)
    then have "map snd cs ! j \<in> set (map snd cs)" using Cons.prems by (intro nth_mem) simp
    then have "snd (cs ! j) \<in> snd ` set cs" using Suc Cons.prems by simp
    then have "snd c \<noteq> snd (cs ! j)" using Cons.prems(1) by (metis distinct.simps(2) list.simps(9) set_map)
    with Suc Cons show ?thesis by (cases c) (simp add: lookup_name_def)
  qed (cases c, simp add: lookup_name_def)
qed simp

section \<open>Path resolution\<close>

text \<open>The components of a path after its leading slash; a slash at the very end adds none.\<close>

function components :: "string \<Rightarrow> string list" where
  "components path = (if path = [] then [] else component path # components (next_path path))"
  by pat_completeness auto
termination by (relation "measure length") (auto simp: next_path_shorter)

declare components.simps [simp del]

fun walk :: "addr \<Rightarrow> string list \<Rightarrow> fs_state \<Rightarrow> (addr \<times> fs_state) option" where
  "walk current [] s = Some (current, s)"
| "walk current (c # cs) s =
     (if length c \<ge> 256 then Some (NULL, s)
      else do { (nxt, s) \<leftarrow> vfs_finddir current c s;
                if nxt = NULL then Some (NULL, s) else walk nxt cs s })"

lemma open_loop_walk: "vfs_open_loop current path s = walk current (components path) s"
proof (induction path arbitrary: current s rule: components.induct)
  case (1 path)
  show ?case
  proof (cases "path = []")
    case True
    then show ?thesis by (subst vfs_open_loop.simps) (simp add: components.simps)
  next
    case False
    have eq: "(\<lambda>(nxt, s). if nxt = NULL then Some (NULL, s) else vfs_open_loop nxt (next_path path) s) =
        (\<lambda>(nxt, s). if nxt = NULL then Some (NULL, s) else walk nxt (components (next_path path)) s)"
      using 1 [OF False] by (simp add: fun_eq_iff)
    with False show ?thesis
      by (subst vfs_open_loop.simps, subst components.simps) (simp add: eq)
  qed
qed

lemma components_no_slash: "c \<in> set (components path) \<Longrightarrow> CHR ''/'' \<notin> set c"
proof (induction path rule: components.induct)
  case (1 path)
  show ?case
  proof (cases "path = []")
    case False
    with 1 have "c = component path \<or> c \<in> set (components (next_path path))"
      by (subst (asm) (2) components.simps) simp
    moreover have "CHR ''/'' \<notin> set (component path)"
      by (auto simp: component_def dest: set_takeWhileD)
    ultimately show ?thesis using 1 False by blast
  qed (use 1 in \<open>simp add: components.simps\<close>)
qed

text \<open>A directory without a \<^verbatim>\<open>finddir\<close> member has no entries to find.\<close>

lemma walk_no_finddir:
  assumes "fs_nodes s p = Some n" and "n_finddir n = None" and "cs \<noteq> []"
  shows "walk p cs s = Some (NULL, s)"
  using assms by (cases cs) (simp_all add: vfs_finddir_def)

lemma vfs_open_no_finddir:
  assumes "fs_nodes s (fs_root s) = Some n" and "n_finddir n = None" and "path \<noteq> ''/''"
  shows "vfs_open path flags s = Some (NULL, s)"
proof (cases path)
  case (Cons c rest)
  have "components rest \<noteq> []" if "rest \<noteq> []" using that by (subst components.simps) simp
  then show ?thesis
    using Cons assms walk_no_finddir [OF assms(1,2), of "components rest"]
    by (auto simp: vfs_open_def open_loop_walk)
qed (simp add: vfs_open_def)

section \<open>Descriptors\<close>

lemma free_slot_spec:
  "free_slot ds i = Some k \<longleftrightarrow>
     (\<exists>j < length ds. k = i + j \<and> fd_node (ds ! j) = NULL \<and> (\<forall>l < j. fd_node (ds ! l) \<noteq> NULL))"
proof (induction ds i arbitrary: k rule: free_slot.induct)
  case (2 d ds i)
  show ?case
  proof (cases "fd_node d = NULL")
    case True
    then show ?thesis by (auto simp: Ex_less_Suc2 All_less_Suc2)
  next
    case False
    then show ?thesis using 2 [OF False, of k] by (auto simp: Ex_less_Suc2 All_less_Suc2)
  qed
qed simp

lemma free_slot_None: "free_slot ds i = None \<longleftrightarrow> (\<forall>d \<in> set ds. fd_node d \<noteq> NULL)"
  by (induction ds i rule: free_slot.induct) auto

lemma free_slot_replicate: "0 < n \<Longrightarrow> free_slot (replicate n zero_fd) i = Some i"
  by (cases n) (simp_all add: zero_fd_def)

text \<open>The table has its 64 slots, and an occupied slot points to a live node.\<close>

definition fd_inv :: "fs_state \<Rightarrow> bool" where
  "fd_inv s \<longleftrightarrow> length (file_descriptors s) = MAX_FILE_DESCRIPTORS \<and>
     (\<forall>d \<in> set (file_descriptors s). fd_node d \<noteq> NULL \<longrightarrow> fd_node d \<in> dom (fs_nodes s))"

lemma bad_fd_bound: "\<not> bad_fd fd s \<Longrightarrow> 0 \<le> fd \<and> nat fd < MAX_FILE_DESCRIPTORS"
  by (auto simp: bad_fd_def MAX_FILE_DESCRIPTORS_def)

lemma good_fd_node:
  assumes "fd_inv s" and "\<not> bad_fd fd s"
  shows "nat fd < length (file_descriptors s)"
    and "fd_node (file_descriptors s ! nat fd) \<in> dom (fs_nodes s)"
  using assms bad_fd_bound [OF assms(2)] by (auto simp: fd_inv_def bad_fd_def)

lemma fd_inv_set:
  assumes "fd_inv s" and "fd_node d = NULL \<or> fd_node d \<in> dom (fs_nodes s)"
  shows "fd_inv (set_fd i d s)"
proof -
  have "set ((file_descriptors s)[i := d]) \<subseteq> insert d (set (file_descriptors s))"
    by (rule set_update_subset_insert)
  then have "fd_node e \<noteq> NULL \<longrightarrow> fd_node e \<in> dom (fs_nodes s)"
    if "e \<in> set ((file_descriptors s)[i := d])" for e
    using that assms by (auto simp: fd_inv_def)
  then show ?thesis using assms(1) by (simp add: fd_inv_def set_fd_def)
qed

lemma set_fd_driver [simp]:
  "memfs_inv (set_fd i d s) = memfs_inv s" "plain_file (set_fd i d s) n = plain_file s n"
  "file_data (set_fd i d s) = file_data s" "user_buffer (set_fd i d s) = user_buffer s"
  "fs_nodes (set_fd i d s) = fs_nodes s" "bytes (set_fd i d s) = bytes s"
  "file_descriptors (set_fd i d s) = (file_descriptors s)[i := d]"
  by (simp_all add: set_fd_def memfs_inv_def heap_ok_def plain_file_def file_data_def user_buffer_def
      fun_eq_iff split: option.split)

lemma fd_inv_cong:
  "fd_inv s \<Longrightarrow> file_descriptors s' = file_descriptors s \<Longrightarrow> dom (fs_nodes s) \<subseteq> dom (fs_nodes s') \<Longrightarrow> fd_inv s'"
  unfolding fd_inv_def by (metis subsetD)

text \<open>The driver's operations do not touch the table, and only ever add nodes.\<close>

definition table_frame :: "fs_state \<Rightarrow> fs_state \<Rightarrow> bool" where
  "table_frame s s' \<longleftrightarrow> file_descriptors s' = file_descriptors s \<and> fs_root s' = fs_root s \<and>
     dom (fs_nodes s) \<subseteq> dom (fs_nodes s')"

lemma table_frame_refl [simp]: "table_frame s s"
  by (simp add: table_frame_def)

lemma table_frame_trans: "table_frame s s' \<Longrightarrow> table_frame s' s'' \<Longrightarrow> table_frame s s''"
  by (auto simp: table_frame_def)

lemma fs_kmalloc_frame: "fs_kmalloc sz s = (p, s') \<Longrightarrow> \<exists>h. s' = s\<lparr>kh := h\<rparr>"
  by (auto simp: fs_kmalloc_def split: prod.splits)

lemma memfs_read_table: "memfs_read n off sz buf s = Some (k, s') \<Longrightarrow> \<exists>m. s' = s\<lparr>bytes := m\<rparr>"
proof -
  have "\<exists>m. s = s\<lparr>bytes := m\<rparr>" by (rule exI [of _ "bytes s"]) simp
  then show "memfs_read n off sz buf s = Some (k, s') \<Longrightarrow> ?thesis"
    by (auto simp: memfs_read_def option_bind_Some_iff Let_def split: if_splits)
qed

lemma memfs_grow_table:
  assumes "memfs_grow p want s = Some s'"
  shows "fs_nodes s' = fs_nodes s \<and> file_descriptors s' = file_descriptors s \<and> fs_root s' = fs_root s"
proof -
  obtain q s1 where k: "fs_kmalloc want s = (q, s1)" by (cases "fs_kmalloc want s")
  then obtain h where "s1 = s\<lparr>kh := h\<rparr>" using fs_kmalloc_frame by blast
  with assms k show ?thesis
    by (auto simp: memfs_grow_def option_bind_Some_iff split: if_splits)
qed

lemma memfs_write_table:
  assumes "memfs_write n off sz buf s = Some (k, s')"
  shows "fs_nodes s' = fs_nodes s \<and> file_descriptors s' = file_descriptors s \<and> fs_root s' = fs_root s"
  using assms memfs_grow_table
  by (auto simp: memfs_write_def option_bind_Some_iff split: if_splits)

lemma memfs_finddir_table: "memfs_finddir n nm s = Some (p, s') \<Longrightarrow>
  table_frame s s' \<and> (p \<noteq> NULL \<longrightarrow> p \<in> dom (fs_nodes s'))"
  by (auto simp: memfs_finddir_def new_node_def set_node_def table_frame_def option_bind_Some_iff Let_def
      split: if_splits prod.splits dest!: fs_kmalloc_frame)

lemma vfs_finddir_table:
  assumes "vfs_finddir p nm s = Some (q, s')"
  shows "table_frame s s' \<and> (q \<noteq> NULL \<longrightarrow> q \<in> dom (fs_nodes s'))"
proof -
  consider "q = NULL" "s' = s" | n where "memfs_finddir n nm s = Some (q, s')"
    using assms by (auto simp: vfs_finddir_def option_bind_Some_iff split: if_splits option.splits)
  then show ?thesis using memfs_finddir_table by cases auto
qed

lemma walk_table: "walk p cs s = Some (q, s') \<Longrightarrow> p \<in> dom (fs_nodes s) \<Longrightarrow>
  table_frame s s' \<and> (q \<noteq> NULL \<longrightarrow> q \<in> dom (fs_nodes s'))"
proof (induction p cs s rule: walk.induct)
  case (1 p s)
  then show ?case by simp
next
  case (2 p c cs s)
  show ?case
  proof (cases "length c \<ge> 256")
    case False
    then obtain nxt s1 where f: "vfs_finddir p c s = Some (nxt, s1)"
      and rest: "(if nxt = NULL then Some (NULL, s1) else walk nxt cs s1) = Some (q, s')"
      using 2(2) by (auto simp: option_bind_Some_iff)
    note t = vfs_finddir_table [OF f]
    show ?thesis
    proof (cases "nxt = NULL")
      case nz: False
      then have "table_frame s1 s' \<and> (q \<noteq> NULL \<longrightarrow> q \<in> dom (fs_nodes s'))"
        using 2(1) [OF False f refl nz] rest t by auto
      then show ?thesis using t table_frame_trans by blast
    qed (use rest t in auto)
  qed (use 2 in auto)
qed

lemma vfs_open_table:
  assumes "vfs_open path flags s = Some (q, s')" and "fs_root s \<in> dom (fs_nodes s)"
  shows "table_frame s s' \<and> (q \<noteq> NULL \<longrightarrow> q \<in> dom (fs_nodes s'))"
  using assms walk_table
  by (auto simp: vfs_open_def open_loop_walk split: list.splits if_splits)

text \<open>Every descriptor operation changes the slot it is given and no other, and keeps the table.\<close>

definition slot_frame :: "nat \<Rightarrow> fs_state \<Rightarrow> fs_state \<Rightarrow> bool" where
  "slot_frame i s s' \<longleftrightarrow> fd_inv s' \<and> fs_root s' = fs_root s \<and> dom (fs_nodes s) \<subseteq> dom (fs_nodes s') \<and>
     (\<forall>k. k \<noteq> i \<longrightarrow> file_descriptors s' ! k = file_descriptors s ! k)"

lemma slot_frame_refl: "fd_inv s \<Longrightarrow> slot_frame i s s"
  by (simp add: slot_frame_def)

lemma slot_frame_table: "fd_inv s \<Longrightarrow> table_frame s s' \<Longrightarrow> slot_frame i s s'"
  by (auto simp: slot_frame_def table_frame_def intro: fd_inv_cong)

lemma slot_frame_set:
  assumes "fd_inv s" and "table_frame s s1" and "fd_node d = NULL \<or> fd_node d \<in> dom (fs_nodes s1)"
  shows "slot_frame i s (set_fd i d s1)"
proof -
  have "fd_inv s1" using assms(1,2) by (auto simp: table_frame_def intro: fd_inv_cong)
  then have "fd_inv (set_fd i d s1)" using assms(3) by (rule fd_inv_set)
  then show ?thesis using assms(2) by (auto simp: slot_frame_def table_frame_def set_fd_def)
qed

lemma memfs_open_id [simp]: "memfs_open n flags s = s"
  by (simp add: memfs_open_def)

lemma memfs_close_id [simp]: "memfs_close n s = s"
  by (simp add: memfs_close_def)

lemma open_fd_frame:
  assumes "fd_inv s" and "fs_root s \<in> dom (fs_nodes s)" and "open_fd path flags s = Some (r, s')"
  shows "if r = - 1 then table_frame s s'
    else \<exists>node. free_slot (file_descriptors s) 0 = Some (nat r) \<and> 0 \<le> r \<and> slot_frame (nat r) s s' \<and>
      node \<noteq> NULL \<and> file_descriptors s' ! nat r = \<lparr>fd_node = node, fd_pos = 0, fd_flags = flags\<rparr>"
proof (cases "free_slot (file_descriptors s) 0")
  case None
  with assms(3) show ?thesis by (auto simp: open_fd_def)
next
  case (Some fd)
  then obtain node s1 where o: "vfs_open path flags s = Some (node, s1)"
    using assms(3) by (auto simp: open_fd_def option_bind_Some_iff)
  note t = vfs_open_table [OF o assms(2)]
  have len: "fd < length (file_descriptors s1)"
    using Some t by (auto simp: free_slot_spec table_frame_def)
  show ?thesis
  proof (cases "node = NULL")
    case True
    then show ?thesis using assms(3) Some o t by (auto simp: open_fd_def)
  next
    case False
    let ?d = "\<lparr>fd_node = node, fd_pos = 0, fd_flags = flags\<rparr>"
    obtain n where n: "fs_nodes s1 node = Some n" using t False by auto
    have "r = int fd \<and> s' = set_fd fd ?d s1"
      using assms(3) Some o False n
      by (auto simp: open_fd_def set_fd_def Let_def split: option.splits)
    moreover have "slot_frame fd s (set_fd fd ?d s1)"
      using slot_frame_set [OF assms(1), of s1 ?d fd] t n by auto
    ultimately show ?thesis using Some False len by (auto simp: set_fd_def)
  qed
qed

lemma close_fd_frame:
  assumes "fd_inv s" and "\<not> bad_fd fd s"
  shows "close_fd fd s = Some (0, set_fd (nat fd) zero_fd s)" and "slot_frame (nat fd) s (set_fd (nat fd) zero_fd s)"
proof -
  obtain n where "fs_nodes s (fd_node (file_descriptors s ! nat fd)) = Some n"
    using good_fd_node(2) [OF assms] by auto
  then show "close_fd fd s = Some (0, set_fd (nat fd) zero_fd s)"
    using assms(2) by (cases "n_close n") (auto simp: close_fd_def zero_fd_def Let_def split:)
  show "slot_frame (nat fd) s (set_fd (nat fd) zero_fd s)"
    by (rule slot_frame_set [OF assms(1)]) (simp_all add: zero_fd_def)
qed

lemma vfs_read_table: "vfs_read p off sz buf s = Some (k, s') \<Longrightarrow>
  table_frame s s' \<and> fs_nodes s' = fs_nodes s \<and> file_descriptors s' = file_descriptors s"
  by (auto simp: vfs_read_def option_bind_Some_iff table_frame_def split: option.splits
      dest!: memfs_read_table)

lemma vfs_write_table: "vfs_write p off sz buf s = Some (k, s') \<Longrightarrow>
  table_frame s s' \<and> fs_nodes s' = fs_nodes s \<and> file_descriptors s' = file_descriptors s"
  by (auto simp: vfs_write_def option_bind_Some_iff table_frame_def split: option.splits
      dest!: memfs_write_table)

lemma read_fd_frame:
  assumes "fd_inv s" and "read_fd fd buf sz s = Some (r, s')"
  shows "slot_frame (nat fd) s s'"
proof (cases "s' = s")
  case False
  let ?d = "file_descriptors s ! nat fd"
  have good: "\<not> bad_fd fd s" using False assms(2) by (auto simp: read_fd_def split: if_splits)
  obtain k s1 where v: "vfs_read (fd_node ?d) (fd_pos ?d) sz buf s = Some (k, s1)"
    and s': "s' = set_fd (nat fd) (?d\<lparr>fd_pos := fd_pos ?d + k\<rparr>) s1"
    using False assms(2) by (auto simp: read_fd_def Let_def option_bind_Some_iff split: if_splits)
  show ?thesis unfolding s' using vfs_read_table [OF v] good_fd_node(2) [OF assms(1) good]
    by (intro slot_frame_set [OF assms(1)]) auto
qed (use slot_frame_refl assms(1) in auto)

lemma write_fd_frame:
  assumes "fd_inv s" and "write_fd fd buf sz s = Some (r, s')"
  shows "slot_frame (nat fd) s s'"
proof (cases "s' = s")
  case False
  let ?d = "file_descriptors s ! nat fd"
  have good: "\<not> bad_fd fd s" using False assms(2) by (auto simp: write_fd_def split: if_splits)
  obtain k s1 where v: "vfs_write (fd_node ?d) (fd_pos ?d) sz buf s = Some (k, s1)"
    and s': "s' = set_fd (nat fd) (?d\<lparr>fd_pos := fd_pos ?d + k\<rparr>) s1"
    using False assms(2) by (auto simp: write_fd_def Let_def option_bind_Some_iff split: if_splits)
  show ?thesis unfolding s' using vfs_write_table [OF v] good_fd_node(2) [OF assms(1) good]
    by (intro slot_frame_set [OF assms(1)]) auto
qed (use slot_frame_refl assms(1) in auto)

lemma lseek_frame:
  assumes "fd_inv s" and "lseek fd off whence s = Some (r, s')"
  shows "slot_frame (nat fd) s s'"
proof (cases "s' = s")
  case False
  let ?d = "file_descriptors s ! nat fd"
  have good: "\<not> bad_fd fd s" using False assms(2) by (auto simp: lseek_def split: if_splits)
  obtain pos where s': "s' = set_fd (nat fd) (?d\<lparr>fd_pos := pos\<rparr>) s"
    using False assms(2) by (auto simp: lseek_def Let_def option_bind_Some_iff split: if_splits option.splits)
  show ?thesis unfolding s' using good_fd_node(2) [OF assms(1) good]
    by (intro slot_frame_set [OF assms(1)]) auto
qed (use slot_frame_refl assms(1) in auto)

section \<open>Booting the file system\<close>

text \<open>The calls \<^verbatim>\<open>kmain\<close> and \<^verbatim>\<open>fs_test\<close> make in a row, with the result of the mount.\<close>

definition fs_boot :: "fs_state \<Rightarrow> (int \<times> fs_state) option" where
  "fs_boot s =
     do { s \<leftarrow> vfs_initialize s; s \<leftarrow> memfs_initialize s; vfs_mount ''/'' ''memfs'' s }"

lemma fs_kmalloc_fits:
  assumes "kheap_inv (kh s)" and "unat (heap_pos (kh s)) + unat sz \<le> 0x10000"
  shows "\<exists>h. fs_kmalloc sz s = (frontier (kh s), s\<lparr>kh := h\<rparr>) \<and> kheap_inv h \<and>
    heap_base h = heap_base (kh s) \<and> frontier (kh s) + unat sz \<le> frontier h \<and>
    unat (heap_pos h) \<le> unat (heap_pos (kh s)) + unat sz + 3 \<and> frontier (kh s) \<noteq> NULL"
proof -
  have small: "unat sz \<le> 0xFFFE0000" using assms(2) by simp
  have nz: "frontier (kh s) \<noteq> NULL" using assms(1) by (simp add: frontier_def kheap_inv_def)
  obtain h where k: "kmalloc (kh s) sz = (h, frontier (kh s))"
    using kmalloc_small [OF assms(1) small] assms(2) by simp
  show ?thesis
    using k nz kmalloc_block [OF assms(1) small k nz] kmalloc_round [OF assms(1) small k nz]
    by (auto simp: fs_kmalloc_def)
qed

lemma fs_kmalloc_too_big:
  assumes "kheap_inv (kh s)" and "unat sz \<le> 0xFFFE0000" and "0x10000 < unat sz"
  shows "fs_kmalloc sz s = (NULL, s)"
  using kmalloc_small [OF assms(1,2)] assms(3) by (simp add: fs_kmalloc_def)

definition bare_root :: fs_node where
  "bare_root = zero_node\<lparr>n_name := ''root'', n_mask := 0x1FF, n_flags := FS_DIRECTORY\<rparr>"

lemma bare_root_simps [simp]:
  "n_flags bare_root = FS_DIRECTORY" "n_finddir bare_root = None" "n_readdir bare_root = None"
  "n_open bare_root = None" "n_close bare_root = None" "n_read bare_root = None" "n_write bare_root = None"
  by (simp_all add: bare_root_def zero_node_def)

lemma vfs_initialize_ok:
  assumes "heap_ok s" and "unat (heap_pos (kh s)) + 312 \<le> 0x10000"
  shows "\<exists>h root. vfs_initialize s = Some (s\<lparr>kh := h,
      file_descriptors := replicate MAX_FILE_DESCRIPTORS zero_fd, next_fd := 0,
      fs_nodes := (fs_nodes s)(frontier (kh s) \<mapsto> root), fs_root := frontier (kh s),
      filesystems := replicate MAX_FILESYSTEMS None, num_filesystems := 0\<rparr>) \<and>
    root = bare_root \<and> kheap_inv h \<and> heap_base h = heap_base (kh s) \<and> frontier (kh s) + 312 \<le> frontier h \<and>
    unat (heap_pos h) \<le> unat (heap_pos (kh s)) + 315"
proof -
  let ?s = "s\<lparr>file_descriptors := replicate MAX_FILE_DESCRIPTORS zero_fd, next_fd := 0\<rparr>"
  have k: "kheap_inv (kh ?s)" "unat (heap_pos (kh ?s)) + unat SIZEOF_FS_NODE \<le> 0x10000"
    using assms by (simp_all add: heap_ok_def SIZEOF_FS_NODE_def)
  from fs_kmalloc_fits [OF this] obtain h where
    "fs_kmalloc SIZEOF_FS_NODE ?s = (frontier (kh s), ?s\<lparr>kh := h\<rparr>)" "kheap_inv h"
    "heap_base h = heap_base (kh s)" "frontier (kh s) + 312 \<le> frontier h"
    "unat (heap_pos h) \<le> unat (heap_pos (kh s)) + 315" "frontier (kh s) \<noteq> NULL"
    by (auto simp: SIZEOF_FS_NODE_def)
  then show ?thesis
    by (intro exI [of _ h] exI [of _ bare_root])
      (simp add: vfs_initialize_def new_node_def set_node_def bare_root_def Let_def)
qed

lemma memfs_initialize_run:
  assumes "heap_ok s" and "unat (heap_pos (kh s)) + 1940 \<le> 0x10000"
  shows "\<exists>h q bs. memfs_initialize s = Some (register_filesystem memfs_ops
      (s\<lparr>memfs_nodes := frontier (kh s), kh := h, bytes := put (bytes s) q bs, block_bitmap := q,
         blocks := NULL, root_node := frontier (kh s),
         inodes := (inode_table (frontier (kh s)) (inodes s))
           (frontier (kh s) \<mapsto> zero_inode\<lparr>i_name := Some ''/'', i_is_dir := 1\<rparr>)\<rparr>)) \<and>
    kheap_inv h \<and> heap_base h = heap_base (kh s) \<and> frontier (kh s) + 1792 \<le> q \<and> q + length bs \<le> frontier h \<and>
    unat (heap_pos h) \<le> unat (heap_pos (kh s)) + 1926 \<and> dom (put (bytes s) q bs) = dom (bytes s)"
proof -
  have sz1: "unat (of_nat MAX_FILES * SIZEOF_INODE) = 1792" by (simp add: MAX_FILES_def SIZEOF_INODE_def)
  have sz2: "unat (of_nat (MAX_BLOCKS div 8) :: u32) = 128" by (simp add: MAX_BLOCKS_def)
  have sz3: "unat (of_nat (MAX_BLOCKS * BLOCK_SIZE) :: u32) = 4194304"
    by (simp add: MAX_BLOCKS_def BLOCK_SIZE_def)
  have hv: "kheap_inv (kh s)" "valid (bytes s) (heap_base (kh s)) 0x10000"
    using assms(1) by (simp_all add: heap_ok_def)
  have fit1: "unat (heap_pos (kh s)) + unat (of_nat MAX_FILES * SIZEOF_INODE) \<le> 0x10000"
    using assms(2) sz1 by simp
  from fs_kmalloc_fits [OF hv(1) fit1] obtain h1 where
    k1: "fs_kmalloc (of_nat MAX_FILES * SIZEOF_INODE) s = (frontier (kh s), s\<lparr>kh := h1\<rparr>)" and
    h1: "kheap_inv h1" "heap_base h1 = heap_base (kh s)" "frontier (kh s) + 1792 \<le> frontier h1"
      "unat (heap_pos h1) \<le> unat (heap_pos (kh s)) + 1795" "frontier (kh s) \<noteq> NULL"
    unfolding sz1 by auto
  define s1 where "s1 = s\<lparr>kh := h1, memfs_nodes := frontier (kh s), inodes := inode_table (frontier (kh s)) (inodes s)\<rparr>"
  have fit2: "unat (heap_pos (kh s1)) + unat (of_nat (MAX_BLOCKS div 8) :: u32) \<le> 0x10000" "kheap_inv (kh s1)"
    using assms(2) h1 sz2 by (simp_all add: s1_def)
  from fs_kmalloc_fits [OF fit2(2,1)] obtain h2 where
    k2: "fs_kmalloc (of_nat (MAX_BLOCKS div 8)) s1 = (frontier h1, s1\<lparr>kh := h2\<rparr>)" and
    h2: "kheap_inv h2" "heap_base h2 = heap_base (kh s)" "frontier h1 + 128 \<le> frontier h2"
      "unat (heap_pos h2) \<le> unat (heap_pos h1) + 131"
    unfolding sz2 using h1 by (auto simp: s1_def)
  have "valid (bytes s) (frontier h1) 128"
    by (rule valid_sub [OF hv(2)])
      (use h1 h2 frontier_le [OF h2(1)] in \<open>simp_all add: frontier_def [of h1]\<close>)
  then have dm: "dom (put (bytes s) (frontier h1) (replicate 128 (to_char 0))) = dom (bytes s)"
    and ms: "memset (bytes s) (frontier h1) 0 (MAX_BLOCKS div 8) =
      Some (put (bytes s) (frontier h1) (replicate 128 (to_char 0)))"
    by (simp_all add: MAX_BLOCKS_def memset_put dom_put_valid)
  define s2 where "s2 = s1\<lparr>kh := h2, bytes := put (bytes s) (frontier h1) (replicate 128 (to_char 0)),
      block_bitmap := frontier h1\<rparr>"
  have k3: "fs_kmalloc (of_nat (MAX_BLOCKS * BLOCK_SIZE)) s2 = (NULL, s2)"
    using h2(1) by (intro fs_kmalloc_too_big) (simp_all only: sz3 s2_def, simp_all)
  have "memfs_initialize s = Some (register_filesystem memfs_ops (s2\<lparr>blocks := NULL,
      root_node := frontier (kh s),
      inodes := (inodes s1)(frontier (kh s) \<mapsto> zero_inode\<lparr>i_name := Some ''/'', i_is_dir := 1\<rparr>)\<rparr>))"
    using k1 k2 k3 ms h1(5) unfolding s1_def [symmetric]
    by (simp add: memfs_initialize_def s1_def s2_def)
  then have "memfs_initialize s = Some (register_filesystem memfs_ops
      (s\<lparr>memfs_nodes := frontier (kh s), kh := h2,
         bytes := put (bytes s) (frontier h1) (replicate 128 (to_char 0)), block_bitmap := frontier h1, blocks := NULL, root_node := frontier (kh s),
         inodes := (inode_table (frontier (kh s)) (inodes s))
           (frontier (kh s) \<mapsto> zero_inode\<lparr>i_name := Some ''/'', i_is_dir := 1\<rparr>)\<rparr>))"
    by (simp add: s1_def s2_def)
  then show ?thesis
    using h1 h2 dm by (intro exI [of _ h2] exI [of _ "frontier h1"] exI [of _ "replicate 128 (to_char 0)"]) simp
qed

lemma memfs_initialize_ok:
  assumes "heap_ok s" and "unat (heap_pos (kh s)) + 1940 \<le> 0x10000" and "num_filesystems s = 0"
    and "filesystems s = replicate MAX_FILESYSTEMS None"
  shows "\<exists>s'. memfs_initialize s = Some s' \<and> heap_ok s' \<and> heap_base (kh s') = heap_base (kh s) \<and>
    fs_nodes s' = fs_nodes s \<and> fs_root s' = fs_root s \<and> file_descriptors s' = file_descriptors s \<and>
    num_filesystems s' = 1 \<and> filesystems s' = Some memfs_ops # replicate 7 None \<and>
    blocks s' = NULL \<and> inodes s' = (inode_table (frontier (kh s)) (inodes s))
      (frontier (kh s) \<mapsto> zero_inode\<lparr>i_name := Some ''/'', i_is_dir := 1\<rparr>) \<and>
    root_node s' = frontier (kh s) \<and> frontier (kh s) \<le> frontier (kh s') \<and>
    unat (heap_pos (kh s')) \<le> unat (heap_pos (kh s)) + 1926 \<and> dom (bytes s') = dom (bytes s)"
proof -
  have "(replicate MAX_FILESYSTEMS None)[0 := Some memfs_ops] = Some memfs_ops # replicate 7 None"
    by (simp add: MAX_FILESYSTEMS_def list_update_code numeral_eq_Suc)
  moreover from memfs_initialize_run [OF assms(1,2)] obtain h q bs where
    "memfs_initialize s = Some (register_filesystem memfs_ops
      (s\<lparr>memfs_nodes := frontier (kh s), kh := h, bytes := put (bytes s) q bs, block_bitmap := q,
         blocks := NULL, root_node := frontier (kh s),
         inodes := (inode_table (frontier (kh s)) (inodes s))
           (frontier (kh s) \<mapsto> zero_inode\<lparr>i_name := Some ''/'', i_is_dir := 1\<rparr>)\<rparr>))"
    "kheap_inv h" "heap_base h = heap_base (kh s)" "frontier (kh s) + 1792 \<le> q" "q + length bs \<le> frontier h"
    "unat (heap_pos h) \<le> unat (heap_pos (kh s)) + 1926" "dom (put (bytes s) q bs) = dom (bytes s)"
    by blast
  moreover have "valid (bytes s) (heap_base (kh s)) 0x10000" using assms(1) by (simp add: heap_ok_def)
  ultimately show ?thesis using assms(3,4)
    by (simp add: register_filesystem_def heap_ok_def valid_def) (simp add: MAX_FILESYSTEMS_def)
qed

text \<open>After the boot sequence the mount has succeeded, and the global root is still the bare node.\<close>

lemma fs_boot_ok:
  assumes "heap_ok s" and "unat (heap_pos (kh s)) + 2568 \<le> 0x10000"
  shows "\<exists>s' root mounted. fs_boot s = Some (0, s') \<and> fs_root s' = frontier (kh s) \<and>
    fs_nodes s' (fs_root s') = Some root \<and> root = bare_root \<and>
    fs_nodes s' mounted \<noteq> None \<and> mounted \<noteq> fs_root s' \<and>
    map_option n_finddir (fs_nodes s' mounted) = Some (Some Memfs) \<and>
    map_option n_specific (fs_nodes s' mounted) = Some (root_node s') \<and>
    blocks s' = NULL \<and> heap_ok s' \<and> file_descriptors s' = replicate MAX_FILE_DESCRIPTORS zero_fd \<and>
    heap_base (kh s') = heap_base (kh s) \<and> unat (heap_pos (kh s')) \<le> unat (heap_pos (kh s)) + 2556 \<and>
    dom (bytes s') = dom (bytes s)"
proof -
  from vfs_initialize_ok [OF assms(1)] assms(2) obtain h root where
    v: "vfs_initialize s = Some (s\<lparr>kh := h,
      file_descriptors := replicate MAX_FILE_DESCRIPTORS zero_fd, next_fd := 0,
      fs_nodes := (fs_nodes s)(frontier (kh s) \<mapsto> root), fs_root := frontier (kh s),
      filesystems := replicate MAX_FILESYSTEMS None, num_filesystems := 0\<rparr>)" and
    r: "root = bare_root" and
    h: "kheap_inv h" "heap_base h = heap_base (kh s)" "frontier (kh s) + 312 \<le> frontier h"
      "unat (heap_pos h) \<le> unat (heap_pos (kh s)) + 315"
    by auto
  define s1 where "s1 = s\<lparr>kh := h,
      file_descriptors := replicate MAX_FILE_DESCRIPTORS zero_fd, next_fd := 0,
      fs_nodes := (fs_nodes s)(frontier (kh s) \<mapsto> root), fs_root := frontier (kh s),
      filesystems := replicate MAX_FILESYSTEMS None, num_filesystems := 0\<rparr>"
  have "heap_ok s1" "unat (heap_pos (kh s1)) + 1940 \<le> 0x10000"
    using assms h by (simp_all add: s1_def heap_ok_def)
  from memfs_initialize_ok [OF this] obtain s2 where
    m: "memfs_initialize s1 = Some s2" and
    s2: "heap_ok s2" "heap_base (kh s2) = heap_base h" "fs_nodes s2 = fs_nodes s1" "fs_root s2 = frontier (kh s)"
      "file_descriptors s2 = file_descriptors s1" "num_filesystems s2 = 1"
      "filesystems s2 = Some memfs_ops # replicate 7 None" "blocks s2 = NULL"
      "frontier h \<le> frontier (kh s2)" "unat (heap_pos (kh s2)) \<le> unat (heap_pos h) + 1926"
      "dom (bytes s2) = dom (bytes s)"
    by (auto simp: s1_def)
  have "kheap_inv (kh s2)" "unat (heap_pos (kh s2)) + unat SIZEOF_FS_NODE \<le> 0x10000"
    using s2(1,10) h(4) assms(2) by (simp_all add: heap_ok_def SIZEOF_FS_NODE_def)
  from fs_kmalloc_fits [OF this] obtain h3 where
    k: "fs_kmalloc SIZEOF_FS_NODE s2 = (frontier (kh s2), s2\<lparr>kh := h3\<rparr>)" and
    h3: "kheap_inv h3" "heap_base h3 = heap_base (kh s2)" "frontier (kh s2) \<noteq> NULL"
      "unat (heap_pos h3) \<le> unat (heap_pos (kh s2)) + 315"
    by (auto simp: SIZEOF_FS_NODE_def)
  have ff: "find_filesystem (take (num_filesystems s2) (filesystems s2)) ''memfs'' = Some (Some memfs_ops)"
    by (simp add: s2(6,7) strcmp_spec_eq_0 memfs_ops_def)
  have slash: "strcmp_spec ''/'' ''/'' = 0" by simp
  have ne: "frontier (kh s2) \<noteq> frontier (kh s)" using h(3) s2(9) by simp
  obtain s3 n where mt: "vfs_mount ''/'' ''memfs'' s2 = Some (0, s3)" and
    s3: "s3 = s2\<lparr>kh := h3, fs_nodes := (fs_nodes s2)(frontier (kh s2) \<mapsto> n)\<rparr>" and
    n: "n_finddir n = Some Memfs" "n_specific n = root_node s2"
    using ff k slash h3(3) by (simp add: vfs_mount_def call_mount_def memfs_mount_def memfs_ops_def set_node_def Let_def)
  have "fs_boot s = Some (0, s3)" using v m mt unfolding s1_def [symmetric] by (simp add: fs_boot_def)
  moreover have "fs_nodes s3 (fs_root s3) = Some root" "file_descriptors s3 = replicate MAX_FILE_DESCRIPTORS zero_fd"
    using ne s2 by (simp_all add: s3 s1_def)
  moreover have "fs_nodes s3 (frontier (kh s2)) = Some n" "frontier (kh s2) \<noteq> fs_root s3"
    "fs_root s3 = frontier (kh s)" "blocks s3 = NULL" "root_node s3 = root_node s2" "heap_ok s3"
    "heap_base (kh s3) = heap_base (kh s)" "unat (heap_pos (kh s3)) \<le> unat (heap_pos (kh s)) + 2556"
    "dom (bytes s3) = dom (bytes s)"
    using ne s2 h h3 by (simp_all add: s3 heap_ok_def)
  ultimately show ?thesis using r n by auto
qed

end
