(* ===== verification/FsProps.thy ===== *)
theory FsProps
  imports VfsFacts
begin

text \<open>
  The properties of the file system layer, \<^verbatim>\<open>fs/vfs.c\<close> and \<^verbatim>\<open>fs/memfs.c\<close>, with their
  witnesses. The concrete states have the heap at \<open>0x100000\<close> in a RAM of 2 MiB whose first page
  is not accessible.
\<close>

definition ram2m :: mem where
  "ram2m = (\<lambda>a. if 0x1000 \<le> a \<and> a < 0x200000 then Some NUL else None)"

definition fresh_fs :: fs_state where
  "fresh_fs = fs_init (heap_init 0x100000) ram2m"

lemma valid_ram2m: "0x1000 \<le> p \<Longrightarrow> p + n \<le> 0x200000 \<Longrightarrow> valid ram2m p n"
  by (auto simp: valid_def ram2m_def dom_def)

lemma fresh_heap_ok: "heap_ok fresh_fs" and fresh_pos: "heap_pos (kh fresh_fs) = 0"
  and fresh_base: "heap_base (kh fresh_fs) = 0x100000"
  by (simp_all add: heap_ok_def fresh_fs_def fs_init_def heap_init_def kheap_inv_def valid_ram2m)

text \<open>The same state with an empty file at an inode, and two bytes to write at \<open>0x2000\<close>.\<close>

definition one_file :: fs_state where
  "one_file = fresh_fs\<lparr>inodes := [0x3000 \<mapsto> zero_inode\<lparr>i_name := Some ''a''\<rparr>],
     bytes := put ram2m 0x2000 ''hi''\<rparr>"

definition file_node :: fs_node where
  "file_node = zero_node\<lparr>n_flags := FS_FILE, n_read := Some Memfs, n_write := Some Memfs, n_specific := 0x3000\<rparr>"

lemma one_file_inv: "memfs_inv one_file"
  using fresh_heap_ok
  by (auto simp: memfs_inv_def one_file_def heap_ok_def block_ok_def zero_inode_def inodes_apart_def
      apart_def valid_ram2m fresh_base split: if_splits)

lemma one_file_facts:
  "plain_file one_file file_node" "file_data one_file 0x3000 = []" "heap_space one_file = 0x10000"
  "n_specific file_node = 0x3000" "bytes_at (bytes one_file) 0x2000 ''hi''"
  "0x1000 \<le> p \<Longrightarrow> p + k \<le> 0x100000 \<Longrightarrow> user_buffer one_file p k"
  "inodes one_file 0x3000 = Some (zero_inode\<lparr>i_name := Some ''a''\<rparr>)"
  by (simp_all add: plain_file_def one_file_def file_node_def zero_inode_def file_data_def inode_data_def
      heap_space_def fresh_pos user_buffer_def valid_ram2m apart_def fresh_base bytes_at_put)

section \<open>Contents of files\<close>

text \<open>C9: \<^verbatim>\<open>memfs_write\<close> into a file, at an offset up to its end and with room in the heap, reports the
  whole size, and the contents become the old ones with the new bytes laid over them; the file
  grows when they reach past its end. No other file changes, and the invariant of the blocks
  holds again.\<close>

theorem memfs_write_contents:
  assumes "memfs_inv s" and "inodes s (n_specific n) = Some i" and "i_is_dir i = 0"
    and "unat off \<le> length (file_data s (n_specific n))"
    and "unat off + length data \<le> unat (i_size i) \<or> unat off + length data \<le> heap_space s"
    and "user_buffer s buf (length data)" and "bytes_at (bytes s) buf data" and "unat sz = length data"
  shows "\<exists>s'. memfs_write n off sz buf s = Some (sz, s') \<and> memfs_inv s' \<and>
    file_data s' (n_specific n) =
      take (unat off) (file_data s (n_specific n)) @ data @
      drop (unat off + length data) (file_data s (n_specific n)) \<and>
    (\<forall>q. q \<noteq> n_specific n \<longrightarrow> file_data s' q = file_data s q)"
  using memfs_write_law [OF assms] unfolding overwrite_def by blast

lemma memfs_write_contents_witness:
  "\<exists>s'. memfs_write file_node 0 2 0x2000 one_file = Some (2, s') \<and> file_data s' 0x3000 = ''hi''"
  using memfs_write_contents [OF one_file_inv, of file_node "zero_inode\<lparr>i_name := Some ''a''\<rparr>" 0 "''hi''" "0x2000" 2]
    one_file_facts(5)
  by (auto simp: one_file_facts zero_inode_def)

text \<open>\<^verbatim>\<open>memfs_read\<close> delivers the bytes of the file from the offset on, as many as asked for or as
  there are, into the caller's buffer; it changes no file.\<close>

theorem memfs_read_contents:
  assumes "memfs_inv s" and "plain_file s n" and "unat off + unat sz < 2 ^ 32"
    and "user_buffer s buf (unat sz)"
  shows "\<exists>k s'. memfs_read n off sz buf s = Some (k, s') \<and>
    unat k = min (unat sz) (length (file_data s (n_specific n)) - unat off) \<and>
    bytes_at (bytes s') buf (take (unat sz) (drop (unat off) (file_data s (n_specific n)))) \<and>
    memfs_inv s' \<and> (\<forall>q. file_data s' q = file_data s q)"
proof -
  from memfs.rd_law [OF assms] obtain k s' where
    "memfs_read n off sz buf s = Some (k, s')" "memfs_inv s'"
    "unat k = min (unat sz) (length (file_data s (n_specific n)) - unat off)"
    "bytes_at (bytes s') buf (take (unat sz) (drop (unat off) (file_data s (n_specific n))))" and
    same: "\<And>m :: fs_node. file_data s' (n_specific m) = file_data s (n_specific m)"
    by (auto simp: min.commute)
  moreover have "file_data s' q = file_data s q" for q
    using same [of "zero_node\<lparr>n_specific := q\<rparr>"] by simp
  ultimately show ?thesis by blast
qed

lemma memfs_read_contents_witness:
  "\<exists>k s'. memfs_read file_node 0 8 0x2000 one_file = Some (k, s') \<and> unat k = 0"
  using memfs_read_contents [OF one_file_inv one_file_facts(1), of 0 8 "0x2000"]
  by (auto simp: one_file_facts)

text \<open>C18: successive writes append: any number of chunks written one after the other to an empty file,
  each at the position the last one left, are read back from the start as their concatenation,
  provided the heap can hold a copy of the file for every write.\<close>

theorem memfs_append_read:
  assumes "memfs_inv s" and "plain_file s n" and "file_data s (n_specific n) = []"
    and "\<forall>(buf, data) \<in> set cs. user_buffer s buf (length data) \<and> bytes_at (bytes s) buf data"
    and "append_cost 0 (map snd cs) \<le> heap_space s" and "user_buffer s out (unat sz)"
    and "length (concat (map snd cs)) \<le> unat sz"
  shows "\<exists>off s1 k s2. write_chunks memfs_write n 0 cs s = Some (off, s1) \<and>
    memfs_read n 0 sz out s1 = Some (k, s2) \<and> unat k = length (concat (map snd cs)) \<and>
    bytes_at (bytes s2) out (concat (map snd cs))"
  by (rule memfs.write_chunks_read [OF assms])

lemma memfs_append_read_witness:
  "\<exists>off s1 k s2. write_chunks memfs_write file_node 0 [(0x2000, ''hi''), (0x2001, ''i''), (0x2000, ''hi'')] one_file = Some (off, s1) \<and>
    memfs_read file_node 0 100 0x4000 s1 = Some (k, s2) \<and> bytes_at (bytes s2) 0x4000 ''hiihi''"
  using memfs_append_read [OF one_file_inv one_file_facts(1), of "[(0x2000, ''hi''), (0x2001, ''i''), (0x2000, ''hi'')]" "0x4000" 100]
    one_file_facts(5)
  by (auto simp: one_file_facts)

text \<open>the sum of offset and size is a 32-bit sum: when it wraps, \<^verbatim>\<open>memfs_read\<close> does not cut the
  request at the end of the file but copies on, out of the heap, whatever the caller's buffer.\<close>

theorem memfs_read_wraps:
  assumes "memfs_inv s" and "inodes s (n_specific n) = Some i" and "off < i_size i"
    and "2 ^ 32 \<le> unat off + unat sz" and "heap_base (kh s) + 0x10000 \<notin> dom (bytes s)"
  shows "memfs_read n off sz buf s = None"
proof -
  have inv: "kheap_inv (kh s)" "block_ok (kh s) i" using assms(1,2) by (auto simp: memfs_inv_def heap_ok_def)
  have "i_size i \<noteq> 0" using assms(3) by auto
  then have d: "i_data i \<noteq> NULL" "heap_base (kh s) \<le> i_data i"
    "i_data i + unat (i_size i) \<le> heap_base (kh s) + 0x10000"
    using inv(2) frontier_le [OF inv(1)] by (auto simp: block_ok_def split: if_splits)
  have lt: "unat off < unat (i_size i)" using assms(3) by (simp add: word_less_nat_alt)
  have "unat (off + sz) = unat off + unat sz - 2 ^ 32"
    using assms(4) unsigned_less [of off, where ?'a = nat] unsigned_less [of sz, where ?'a = nat]
    by (simp add: unat_word_ariths le_mod_geq)
  then have "unat (off + sz) \<le> unat (i_size i)"
    using lt unsigned_less [of sz, where ?'a = nat] by simp
  then have noclip: "\<not> off + sz > i_size i" by (simp add: word_less_nat_alt)
  define k where "k = heap_base (kh s) + 0x10000 - (i_data i + unat off)"
  have "i_data i + unat off + k = heap_base (kh s) + 0x10000" "k \<le> 0x10000"
    using d lt by (simp_all add: k_def)
  moreover have "0x10000 < unat sz"
    using assms(4) lt d unsigned_less [of off, where ?'a = nat] by simp
  ultimately have "memcpy (bytes s) buf (i_data i + unat off) (unat sz) = None"
    using memcpy_defined [of "bytes s" buf "i_data i + unat off" "unat sz" _ k] assms(5)
    by (cases "memcpy (bytes s) buf (i_data i + unat off) (unat sz)") auto
  then show ?thesis using assms(2,3) noclip d(1) by (simp add: memfs_read_def Let_def not_le)
qed

definition short_ram :: fs_state where
  "short_ram = (fs_init \<lparr>heap_base = 0x100000, heap_pos = 4, total_memory = 0\<rparr>
       (\<lambda>a. if a < 0x110000 then Some NUL else None))
     \<lparr>inodes := [0x3000 \<mapsto> zero_inode\<lparr>i_data := 0x100000, i_size := 4\<rparr>]\<rparr>"

lemma memfs_read_wraps_witness: "memfs_read file_node 1 0xFFFFFFFF 0x2000 short_ram = None"
proof (rule memfs_read_wraps [of _ _ "zero_inode\<lparr>i_data := 0x100000, i_size := 4\<rparr>"])
  have v: "valid (bytes short_ram) 0x100000 0x10000"
    by (auto simp: short_ram_def fs_init_def valid_def dom_def)
  then show "memfs_inv short_ram"
    by (auto simp: short_ram_def fs_init_def memfs_inv_def heap_ok_def kheap_inv_def block_ok_def
        frontier_def inodes_apart_def zero_inode_def split: if_splits)
qed (simp_all add: short_ram_def fs_init_def file_node_def zero_inode_def dom_def)

text \<open>a write that needs more memory than the heap has left is not refused: the failed allocation
  is not checked and the copy goes through the null pointer.\<close>

theorem memfs_write_no_room:
  assumes "memfs_inv s" and "plain_file s n" and "inodes s (n_specific n) = Some i"
    and "unat (i_size i) < unat off + unat sz" and "heap_space s < unat off + unat sz"
    and "unat off + unat sz \<le> 0xFFFE0000" and "0 < unat sz"
    and "\<forall>a < 0x1000. a \<notin> dom (bytes s)" and "unat off < 0x1000"
  shows "memfs_write n off sz buf s = None"
proof -
  have inv: "kheap_inv (kh s)" using assms(1) by (simp add: memfs_inv_def heap_ok_def)
  have dir: "i_is_dir i = 0" using assms(2,3) by (simp add: plain_file_def)
  have sum: "unat (off + sz) = unat off + unat sz" using assms(6) by (intro unat_add_less) simp
  have k: "fs_kmalloc (off + sz) s = (NULL, s)"
  proof -
    have "\<not> unat (heap_pos (kh s)) + unat (off + sz) \<le> 0x10000" "unat (off + sz) \<le> 0xFFFE0000"
      using assms(5,6) by (simp_all add: sum heap_space_def)
    then show ?thesis using kmalloc_small [OF inv] by (simp only: fs_kmalloc_def if_False) simp
  qed
  have more: "off + sz > i_size i" using assms(4) by (simp add: word_less_nat_alt sum)
  have null: "memcpy m NULL a l = None" if "0 < l" "0 \<notin> dom m" for m a l
    using memcpy_defined [of m NULL a l _ 0] that by (cases "memcpy m NULL a l") auto
  have z: "0 \<notin> dom (bytes s)" using assms(8) by auto
  have o: "unat off \<notin> dom (bytes s)" using assms(8,9) by simp
  have last': "memcpy (bytes s) (unat off) buf (unat sz) = None"
    using memcpy_defined [of "bytes s" "unat off" buf "unat sz" _ 0] assms(7) o
    by (cases "memcpy (bytes s) (unat off) buf (unat sz)") auto
  show ?thesis
  proof (cases "i_data i \<noteq> NULL \<and> 0 < unat (i_size i)")
    case True
    then show ?thesis using k more dir assms(3) null [OF _ z]
      by (simp add: memfs_write_def memfs_grow_def)
  next
    case False
    then have "unat (i_size i) = 0 \<or> i_data i = NULL" by auto
    then show ?thesis using k more dir assms(3) last'
      by (auto simp: memfs_write_def memfs_grow_def)
  qed
qed

lemma memfs_write_no_room_witness: "memfs_write file_node 0 0x20000 0x2000 one_file = None"
proof (rule memfs_write_no_room [OF one_file_inv one_file_facts(1)])
  show "inodes one_file (n_specific file_node) = Some (zero_inode\<lparr>i_name := Some ''a''\<rparr>)"
    by (simp add: one_file_facts)
  show "\<forall>a < 0x1000. a \<notin> dom (bytes one_file)"
    by (auto simp: one_file_def ram2m_def put_apply split: if_splits)
qed (simp_all add: zero_inode_def one_file_facts)

section \<open>Directories and paths\<close>

text \<open>listing and lookup of a directory agree. Over the chain of its children \<^verbatim>\<open>memfs_readdir\<close>
  gives, index by index, the names in order and nothing beyond the last; and when names are
  distinct \<^verbatim>\<open>memfs_finddir\<close> of a listed name allocates a node for exactly that child, a directory
  or a file as the child is.\<close>

theorem memfs_readdir_finddir:
  assumes "inodes s (n_specific n) = Some d" and "i_is_dir d \<noteq> 0"
    and "siblings (inodes s) (i_children d) cs" and "distinct (map snd cs)"
    and "heap_ok s" and "unat (heap_pos (kh s)) + 312 \<le> 0x10000"
  shows "(\<forall>k. length cs \<le> unat k \<longrightarrow> memfs_readdir n k s = Some (None, s)) \<and>
    (\<forall>k. unat k < length cs \<longrightarrow>
      (let (child, name) = cs ! unat k in
       (\<exists>s'. memfs_readdir n k s = Some (Some \<lparr>d_ino = of_nat child, d_name = name\<rparr>, s')) \<and>
       (\<exists>p s' m c. memfs_finddir n name s = Some (p, s') \<and> p \<noteq> NULL \<and> fs_nodes s' p = Some m \<and>
         n_name m = name \<and> n_specific m = child \<and> inodes s child = Some c \<and> n_length m = i_size c \<and>
         n_flags m = (if i_is_dir c \<noteq> 0 then FS_DIRECTORY else FS_FILE))))"
proof (intro conjI allI impI)
  fix k :: u32
  assume "length cs \<le> unat k"
  then show "memfs_readdir n k s = Some (None, s)"
    using assms(1,2) nth_child_siblings [OF assms(3), of "unat k"] by (simp add: memfs_readdir_def)
next
  fix k :: u32
  assume k: "unat k < length cs"
  obtain child name where ck: "cs ! unat k = (child, name)" by fastforce
  obtain c where c: "inodes s child = Some c" "i_name c = Some name" "child \<noteq> NULL" "length name < 256" "NUL \<notin> set name"
    using siblings_nth [OF assms(3) k] ck by auto
  have nth: "nth_child (inodes s) (i_children d) (unat k) = Some child"
    using nth_child_siblings [OF assms(3), of "unat k"] k ck by simp
  have "lookup_name cs name = child" using lookup_name_distinct [OF assms(4) k] ck by simp
  then have found: "find_child (inodes s) (i_children d) name = Some child"
    using find_child_siblings [OF assms(3) c(5)] by simp
  have "kheap_inv (kh s)" "unat (heap_pos (kh s)) + unat SIZEOF_FS_NODE \<le> 0x10000"
    using assms(5,6) by (simp_all add: heap_ok_def SIZEOF_FS_NODE_def)
  from fs_kmalloc_fits [OF this] obtain h where
    h: "fs_kmalloc SIZEOF_FS_NODE s = (frontier (kh s), s\<lparr>kh := h\<rparr>)" "frontier (kh s) \<noteq> NULL" by blast
  have "\<exists>s'. memfs_readdir n k s = Some (Some \<lparr>d_ino = of_nat child, d_name = name\<rparr>, s')"
    using assms(1,2) nth c by (simp add: memfs_readdir_def name256_def Let_def)
  moreover have "\<exists>s' m. memfs_finddir n name s = Some (frontier (kh s), s') \<and>
      fs_nodes s' (frontier (kh s)) = Some m \<and> n_name m = name \<and> n_specific m = child \<and>
      n_length m = i_size c \<and> n_flags m = (if i_is_dir c \<noteq> 0 then FS_DIRECTORY else FS_FILE)"
    using assms(1,2) found c h
    by (simp add: memfs_finddir_def new_node_def set_node_def name256_def Let_def)
  ultimately show "let (child, name) = cs ! unat k in
      (\<exists>s'. memfs_readdir n k s = Some (Some \<lparr>d_ino = of_nat child, d_name = name\<rparr>, s')) \<and>
      (\<exists>p s' m c. memfs_finddir n name s = Some (p, s') \<and> p \<noteq> NULL \<and> fs_nodes s' p = Some m \<and>
         n_name m = name \<and> n_specific m = child \<and> inodes s child = Some c \<and> n_length m = i_size c \<and>
         n_flags m = (if i_is_dir c \<noteq> 0 then FS_DIRECTORY else FS_FILE))"
    using c(1) h(2) unfolding ck Let_def prod.case by blast
qed

definition small_dir :: fs_state where
  "small_dir = fresh_fs\<lparr>inodes := [0x3000 \<mapsto> zero_inode\<lparr>i_is_dir := 1, i_children := 0x3100\<rparr>,
     0x3100 \<mapsto> zero_inode\<lparr>i_name := Some ''a'', i_next := 0x3200\<rparr>,
     0x3200 \<mapsto> zero_inode\<lparr>i_name := Some ''b'', i_is_dir := 1\<rparr>]\<rparr>"

lemma memfs_readdir_finddir_witness:
  "memfs_readdir file_node 2 small_dir = Some (None, small_dir)"
  using memfs_readdir_finddir [of small_dir file_node "zero_inode\<lparr>i_is_dir := 1, i_children := 0x3100\<rparr>"
      "[(0x3100, ''a''), (0x3200, ''b'')]"] fresh_heap_ok fresh_pos fresh_base
  by (simp add: small_dir_def file_node_def zero_inode_def heap_ok_def)

text \<open>C30: the boot sequence \<^verbatim>\<open>vfs_initialize\<close>, \<^verbatim>\<open>memfs_initialize\<close>, \<^verbatim>\<open>vfs_mount\<close> reports success, but the
  mounted file system is out of reach: \<^verbatim>\<open>vfs_mount\<close> sets its own local \<^verbatim>\<open>fs_root\<close>, the global root
  keeps no \<^verbatim>\<open>finddir\<close>, so opening any path but the root itself fails. The 4 MiB block area is never
  obtained from the 64 KiB heap.\<close>

theorem mounted_fs_unreachable:
  assumes "heap_ok s" and "unat (heap_pos (kh s)) + 2568 \<le> 0x10000"
  shows "\<exists>s' mounted. fs_boot s = Some (0, s') \<and> mounted \<noteq> fs_root s' \<and>
    map_option n_specific (fs_nodes s' mounted) = Some (root_node s') \<and> blocks s' = NULL \<and>
    (\<forall>path flags. path \<noteq> ''/'' \<longrightarrow> open_fd path flags s' = Some (- 1, s')) \<and>
    (\<forall>flags. \<exists>s''. open_fd ''/'' flags s' = Some (0, s''))"
proof -
  from fs_boot_ok [OF assms] obtain s' root mounted where
    b: "fs_boot s = Some (0, s')" "fs_root s' = frontier (kh s)" "fs_nodes s' (fs_root s') = Some root"
      "root = bare_root" "mounted \<noteq> fs_root s'"
      "map_option n_specific (fs_nodes s' mounted) = Some (root_node s')" "blocks s' = NULL"
      "file_descriptors s' = replicate MAX_FILE_DESCRIPTORS zero_fd"
    by blast
  have slot: "free_slot (file_descriptors s') 0 = Some 0"
    by (simp add: b(8) MAX_FILE_DESCRIPTORS_def free_slot_replicate)
  have "open_fd path flags s' = Some (- 1, s')" if "path \<noteq> ''/''" for path flags
    using vfs_open_no_finddir [OF b(3) _ that] b(4) slot by (simp add: open_fd_def)
  moreover have "fs_root s' \<noteq> NULL" using assms(1) b(2) by (simp add: heap_ok_def frontier_def kheap_inv_def)
  then have "\<exists>s''. open_fd ''/'' flags s' = Some (0, s'')" for flags
    using slot b(3,4) by (simp add: open_fd_def vfs_open_def set_fd_def Let_def)
  ultimately show ?thesis using b by blast
qed

lemma mounted_fs_unreachable_witness:
  "\<exists>s'. fs_boot fresh_fs = Some (0, s') \<and> open_fd ''/test.txt'' (O_WRONLY OR O_CREAT) s' = Some (- 1, s')"
  using mounted_fs_unreachable [OF fresh_heap_ok] fresh_pos by auto

section \<open>Descriptors\<close>

text \<open>\<^verbatim>\<open>open\<close> either fails with -1 and leaves the descriptor table as it was, or returns the lowest
  free descriptor, now at position 0 with the given flags; the other descriptors are untouched
  and every occupied slot still points to a live node.\<close>

theorem open_lowest_free:
  assumes "fd_inv s" and "fs_root s \<in> dom (fs_nodes s)" and "open_fd path flags s = Some (r, s')"
  shows "fd_inv s' \<and>
    (if r = - 1 then file_descriptors s' = file_descriptors s
     else 0 \<le> r \<and> r < 64 \<and> fd_node (file_descriptors s ! nat r) = NULL \<and>
       (\<forall>j < nat r. fd_node (file_descriptors s ! j) \<noteq> NULL) \<and>
       fd_node (file_descriptors s' ! nat r) \<noteq> NULL \<and> fd_pos (file_descriptors s' ! nat r) = 0 \<and>
       fd_flags (file_descriptors s' ! nat r) = flags \<and>
       (\<forall>k. k \<noteq> nat r \<longrightarrow> file_descriptors s' ! k = file_descriptors s ! k))"
proof (cases "r = - 1")
  case True
  then have "table_frame s s'" using open_fd_frame [OF assms] by simp
  then show ?thesis using True assms(1) by (auto simp: table_frame_def intro: fd_inv_cong)
next
  case False
  then obtain node where f: "free_slot (file_descriptors s) 0 = Some (nat r)" "0 \<le> r" "slot_frame (nat r) s s'"
    "node \<noteq> NULL" "file_descriptors s' ! nat r = \<lparr>fd_node = node, fd_pos = 0, fd_flags = flags\<rparr>"
    using open_fd_frame [OF assms] by auto
  have "nat r < length (file_descriptors s)" "fd_node (file_descriptors s ! nat r) = NULL"
    "\<forall>j < nat r. fd_node (file_descriptors s ! j) \<noteq> NULL"
    using f(1) by (auto simp: free_slot_spec)
  moreover have "length (file_descriptors s) = 64" using assms(1) by (simp add: fd_inv_def MAX_FILE_DESCRIPTORS_def)
  ultimately show ?thesis using f False by (auto simp: slot_frame_def)
qed

definition root_only :: fs_state where
  "root_only = fresh_fs\<lparr>fs_root := 0x5000,
     fs_nodes := [0x5000 \<mapsto> zero_node\<lparr>n_flags := FS_DIRECTORY\<rparr>]\<rparr>"

lemma root_only_facts:
  "fd_inv root_only" "fs_root root_only \<in> dom (fs_nodes root_only)"
  "open_fd ''/'' flags root_only = Some (0, set_fd 0 \<lparr>fd_node = 0x5000, fd_pos = 0, fd_flags = flags\<rparr> root_only)"
  by (simp_all add: fd_inv_def root_only_def fresh_fs_def fs_init_def open_fd_def vfs_open_def
      free_slot_replicate MAX_FILE_DESCRIPTORS_def)
    (simp_all add: zero_node_def zero_fd_def set_fd_def)

lemma open_lowest_free_witness: "\<exists>s'. open_fd ''/'' 2 root_only = Some (0, s') \<and> fd_inv s'"
  using open_lowest_free [OF root_only_facts(1,2,3), of 2] root_only_facts(3) by simp

text \<open>\<^verbatim>\<open>close\<close> of an open descriptor succeeds and frees exactly that slot; every later use of the
  descriptor, until it is opened again, fails with -1 and changes nothing.\<close>

theorem close_then_use:
  assumes "fd_inv s" and "\<not> bad_fd fd s"
  shows "\<exists>s'. close_fd fd s = Some (0, s') \<and> fd_inv s' \<and>
    fd_node (file_descriptors s' ! nat fd) = NULL \<and>
    (\<forall>k. k \<noteq> nat fd \<longrightarrow> file_descriptors s' ! k = file_descriptors s ! k) \<and>
    close_fd fd s' = Some (- 1, s') \<and> read_fd fd buf sz s' = Some (- 1, s') \<and>
    write_fd fd buf sz s' = Some (- 1, s') \<and> lseek fd off whence s' = Some (- 1, s')"
proof -
  note c = close_fd_frame [OF assms]
  let ?s = "set_fd (nat fd) zero_fd s"
  have node: "fd_node (file_descriptors ?s ! nat fd) = NULL"
    using good_fd_node(1) [OF assms] by (simp add: set_fd_def zero_fd_def)
  then have "bad_fd fd ?s" by (simp add: bad_fd_def)
  then show ?thesis using c node
    by (auto simp: slot_frame_def close_fd_def read_fd_def write_fd_def lseek_def)
qed

lemma close_then_use_witness:
  "\<exists>s'. close_fd 0 (set_fd 0 \<lparr>fd_node = 0x5000, fd_pos = 0, fd_flags = 2\<rparr> root_only) = Some (0, s') \<and>
    close_fd 0 s' = Some (- 1, s')"
proof -
  have "fd_inv (set_fd 0 \<lparr>fd_node = 0x5000, fd_pos = 0, fd_flags = 2\<rparr> root_only)"
    by (rule fd_inv_set [OF root_only_facts(1)]) (simp add: root_only_def)
  moreover have "\<not> bad_fd 0 (set_fd 0 \<lparr>fd_node = 0x5000, fd_pos = 0, fd_flags = 2\<rparr> root_only)"
    by (simp add: bad_fd_def set_fd_def root_only_def fresh_fs_def fs_init_def MAX_FILE_DESCRIPTORS_def)
  ultimately show ?thesis using close_then_use [of _ 0] by blast
qed

text \<open>descriptors do not interfere: \<^verbatim>\<open>read\<close>, \<^verbatim>\<open>write\<close> and \<^verbatim>\<open>lseek\<close> on one descriptor, whatever they
  return, keep the table well formed and leave node, position and flags of every other
  descriptor as they were.\<close>

theorem descriptors_independent:
  assumes "fd_inv s"
    and "read_fd fd buf sz s = Some (r, s') \<or> write_fd fd buf sz s = Some (r, s') \<or>
      lseek fd off whence s = Some (r, s')"
  shows "fd_inv s' \<and> (\<forall>k. k \<noteq> nat fd \<longrightarrow> file_descriptors s' ! k = file_descriptors s ! k)"
proof -
  have "slot_frame (nat fd) s s'"
    using assms(2) read_fd_frame [OF assms(1)] write_fd_frame [OF assms(1)] lseek_frame [OF assms(1)]
    by (elim disjE)
  then show ?thesis by (simp add: slot_frame_def)
qed

lemma descriptors_independent_witness:
  "fd_inv (set_fd 0 \<lparr>fd_node = 0x5000, fd_pos = 7, fd_flags = 2\<rparr>
    (set_fd 0 \<lparr>fd_node = 0x5000, fd_pos = 0, fd_flags = 2\<rparr> root_only))"
proof -
  let ?s = "set_fd 0 \<lparr>fd_node = 0x5000, fd_pos = 0, fd_flags = 2\<rparr> root_only"
  have "fd_inv ?s" by (rule fd_inv_set [OF root_only_facts(1)]) (simp add: root_only_def)
  moreover have "lseek 0 7 SEEK_SET ?s = Some (7, set_fd 0 \<lparr>fd_node = 0x5000, fd_pos = 7, fd_flags = 2\<rparr> ?s)"
    by (simp add: lseek_def bad_fd_def set_fd_def root_only_def fresh_fs_def fs_init_def MAX_FILE_DESCRIPTORS_def)
  ultimately show ?thesis using descriptors_independent [of ?s 0 _ _ 7 _ 7 SEEK_SET] by blast
qed

text \<open>a descriptor opened with \<^verbatim>\<open>O_RDONLY\<close>, whatever other flags but \<^verbatim>\<open>O_RDWR\<close> come with it, can never be
  read: the access check tests the bits of a flag that is zero.\<close>

theorem rdonly_not_readable:
  assumes "flags AND O_RDWR = 0" and "fd_flags (file_descriptors s ! nat fd) = flags OR O_RDONLY"
  shows "read_fd fd buf sz s = Some (- 1, s)"
  using assms by (simp add: read_fd_def O_RDONLY_def Let_def)

lemma rdonly_not_readable_witness:
  "read_fd 0 0x2000 10 (set_fd 0 \<lparr>fd_node = 0x5000, fd_pos = 0, fd_flags = O_RDONLY\<rparr> root_only) =
    Some (- 1, set_fd 0 \<lparr>fd_node = 0x5000, fd_pos = 0, fd_flags = O_RDONLY\<rparr> root_only)"
  by (rule rdonly_not_readable [of 0])
    (simp_all add: set_fd_def root_only_def fresh_fs_def fs_init_def MAX_FILE_DESCRIPTORS_def O_RDONLY_def)

text \<open>C8: the descriptor interface over the memory file system: through a descriptor opened for reading
  and writing, \<^verbatim>\<open>write\<close> at the current position, \<^verbatim>\<open>lseek\<close> back to it and \<^verbatim>\<open>read\<close> of the same size return
  the bytes written, and the position ends just after them.\<close>

theorem fd_write_seek_read:
  assumes "fd_inv s" and "memfs_inv s" and "\<not> bad_fd fd s"
    and d: "file_descriptors s ! nat fd = d" and "fd_flags d AND O_RDWR \<noteq> 0"
    and n: "fs_nodes s (fd_node d) = Some n" "n_read n = Some Memfs" "n_write n = Some Memfs"
    and "plain_file s n" and "unat (fd_pos d) \<le> length (file_data s (n_specific n))"
    and "unat (fd_pos d) + length data \<le> heap_space s" and "unat sz = length data"
    and "user_buffer s buf (length data)" and "bytes_at (bytes s) buf data"
    and "user_buffer s out (length data)"
  shows "\<exists>s1 s2 s3. write_fd fd buf sz s = Some (sint sz, s1) \<and>
    lseek fd (fd_pos d) SEEK_SET s1 = Some (sint (fd_pos d), s2) \<and>
    read_fd fd out sz s2 = Some (sint sz, s3) \<and> bytes_at (bytes s3) out data \<and>
    unat (fd_pos (file_descriptors s3 ! nat fd)) = unat (fd_pos d) + length data"
proof -
  let ?p = "fd_pos d" and ?i = "nat fd"
  have len: "?i < length (file_descriptors s)" "fd_node d \<noteq> NULL" "0 \<le> fd" "fd < 64"
    using good_fd_node(1) [OF assms(1,3)] assms(3) d by (auto simp: bad_fd_def MAX_FILE_DESCRIPTORS_def)
  from memfs.wr_law [OF assms(2) assms(9-11) assms(13,14,12)] assms(15) obtain t where
    w: "memfs_write n ?p sz buf s = Some (sz, t)" "memfs_inv t" "plain_file t n"
      "file_data t (n_specific n) = overwrite (file_data s (n_specific n)) (unat ?p) data"
      "user_buffer t out (length data)"
    by blast
  have t: "fs_nodes t = fs_nodes s" "file_descriptors t = file_descriptors s"
    using memfs_write_table [OF w(1)] by simp_all
  define s1 where "s1 = set_fd ?i (d\<lparr>fd_pos := ?p + sz\<rparr>) t"
  define s2 where "s2 = set_fd ?i d s1"
  have wr: "write_fd fd buf sz s = Some (sint sz, s1)"
    using assms(3,5) n w(1) by (simp add: write_fd_def d vfs_write_def s1_def Let_def)
  have good: "\<not> bad_fd fd s1" "\<not> bad_fd fd s2"
    using len t by (simp_all add: bad_fd_def s1_def s2_def MAX_FILE_DESCRIPTORS_def)
  have d1: "file_descriptors s1 ! ?i = d\<lparr>fd_pos := ?p + sz\<rparr>" "file_descriptors s2 ! ?i = d"
    using len t by (simp_all add: s1_def s2_def)
  have sk: "lseek fd ?p SEEK_SET s1 = Some (sint ?p, s2)"
    using good(1) by (simp add: lseek_def d1 s2_def Let_def)
  have inv2: "memfs_inv s2" "plain_file s2 n" "file_data s2 = file_data t" "user_buffer s2 out (unat sz)"
      "fs_nodes s2 = fs_nodes s"
    using w t assms(12) by (simp_all add: s1_def s2_def)
  have nw: "unat ?p + unat sz < 2 ^ 32" using assms(11,12) by (simp add: heap_space_def)
  have slice: "take (unat sz) (drop (unat ?p) (file_data s2 (n_specific n))) = data"
    using assms(10,12) by (simp add: inv2(3) w(4) overwrite_def)
  from memfs.rd_law [OF inv2(1,2) nw inv2(4), unfolded slice] obtain k t3 where
    r: "memfs_read n ?p sz out s2 = Some (k, t3)" "unat k = length data" "bytes_at (bytes t3) out data"
    by blast
  have k: "k = sz" using r(2) assms(12) by (simp add: word_unat_eq_iff)
  have "file_descriptors t3 = file_descriptors s2" using memfs_read_table [OF r(1)] by auto
  then have "read_fd fd out sz s2 = Some (sint sz, set_fd ?i (d\<lparr>fd_pos := ?p + sz\<rparr>) t3)"
    and "file_descriptors (set_fd ?i (d\<lparr>fd_pos := ?p + sz\<rparr>) t3) ! ?i = d\<lparr>fd_pos := ?p + sz\<rparr>"
    using good(2) assms(5) n inv2(5) r(1) k len t
    by (simp_all add: read_fd_def d1 vfs_read_def Let_def s1_def s2_def)
  then show ?thesis using wr sk r(3) nw assms(12)
    by (auto simp: unat_add_less)
qed

definition rw_file :: fs_state where
  "rw_file = one_file\<lparr>fs_nodes := [0x5000 \<mapsto> file_node],
     file_descriptors := (replicate 64 zero_fd)[3 := \<lparr>fd_node = 0x5000, fd_pos = 0, fd_flags = O_RDWR\<rparr>]\<rparr>"

lemma fd_write_seek_read_witness:
  "\<exists>s1 s2 s3. write_fd 3 0x2000 2 rw_file = Some (2, s1) \<and> lseek 3 0 SEEK_SET s1 = Some (0, s2) \<and>
    read_fd 3 0x4000 2 s2 = Some (2, s3) \<and> bytes_at (bytes s3) 0x4000 ''hi''"
proof -
  let ?d = "\<lparr>fd_node = 0x5000, fd_pos = 0, fd_flags = O_RDWR\<rparr>"
  have e: "kh rw_file = kh one_file" "bytes rw_file = bytes one_file" "inodes rw_file = inodes one_file"
    by (simp_all add: rw_file_def)
  have inv: "memfs_inv rw_file" using one_file_inv by (simp add: memfs_inv_def heap_ok_def e)
  have "set (file_descriptors rw_file) \<subseteq> insert ?d {zero_fd}"
    using set_update_subset_insert [of "replicate 64 zero_fd" 3 ?d] by (auto simp: rw_file_def)
  then have fdi: "fd_inv rw_file"
    by (auto simp: fd_inv_def zero_fd_def MAX_FILE_DESCRIPTORS_def) (auto simp: rw_file_def)
  have d: "file_descriptors rw_file ! nat 3 = ?d" by (simp add: rw_file_def)
  have good: "\<not> bad_fd 3 rw_file" using d by (simp add: bad_fd_def MAX_FILE_DESCRIPTORS_def)
  have u: "user_buffer rw_file p k" if "0x1000 \<le> p" "p + k \<le> 0x100000" for p k
    using one_file_facts(6) [OF that] by (simp add: user_buffer_def e)
  have b: "bytes_at (bytes rw_file) 0x2000 ''hi''" using one_file_facts(5) by (simp only: e)
  have pl: "plain_file rw_file file_node" using one_file_facts(1) by (simp add: plain_file_def e)
  have fdat: "file_data rw_file (n_specific file_node) = []" "heap_space rw_file = 0x10000"
    using one_file_facts(2,3,4) by (simp_all add: file_data_def heap_space_def e split: option.splits)
  have node: "fs_nodes rw_file 0x5000 = Some file_node" by (simp add: rw_file_def)
  have rw: "n_read file_node = Some Memfs" "n_write file_node = Some Memfs" by (simp_all add: file_node_def)
  show ?thesis
    using fd_write_seek_read [OF fdi inv good d, of file_node "''hi''" 2 "0x2000" "0x4000"] node rw pl fdat b u
    by (auto simp: O_RDWR_def)
qed

text \<open>\<^verbatim>\<open>lseek\<close> from the end measures the file by the length copied into the node at lookup: whatever
  has been written through the descriptor since, \<^verbatim>\<open>SEEK_END\<close> goes to the old end.\<close>

theorem seek_end_stale:
  assumes "fd_inv s" and "\<not> bad_fd fd s" and "fs_nodes s (fd_node (file_descriptors s ! nat fd)) = Some n"
    and "write_fd fd buf sz s = Some (r, s')"
  shows "\<exists>s''. lseek fd 0 SEEK_END s' = Some (sint (n_length n), s'')"
proof -
  let ?d = "file_descriptors s ! nat fd"
  have len: "nat fd < length (file_descriptors s)" by (rule good_fd_node(1) [OF assms(1,2)])
  have "fs_nodes s' = fs_nodes s \<and> fd_node (file_descriptors s' ! nat fd) = fd_node ?d"
  proof (cases "s' = s")
    case False
    then obtain k s1 where "vfs_write (fd_node ?d) (fd_pos ?d) sz buf s = Some (k, s1)"
      "s' = set_fd (nat fd) (?d\<lparr>fd_pos := fd_pos ?d + k\<rparr>) s1"
      using assms(4) by (auto simp: write_fd_def Let_def option_bind_Some_iff split: if_splits)
    with vfs_write_table len show ?thesis by simp
  qed simp
  then show ?thesis using assms(2,3)
    by (simp add: lseek_def bad_fd_def SEEK_END_def SEEK_SET_def SEEK_CUR_def Let_def)
qed

lemma seek_end_stale_witness:
  "\<exists>s1. write_fd 0 0x2000 2 (set_fd 0 \<lparr>fd_node = 0x5000, fd_pos = 0, fd_flags = O_RDWR\<rparr> root_only) = Some (0, s1) \<and>
    (\<exists>s2. lseek 0 0 SEEK_END s1 = Some (0, s2))"
proof -
  let ?s = "set_fd 0 \<lparr>fd_node = 0x5000, fd_pos = 0, fd_flags = O_RDWR\<rparr> root_only"
  have i: "fd_inv ?s" by (rule fd_inv_set [OF root_only_facts(1)]) (simp add: root_only_def)
  have n: "fs_nodes ?s (fd_node (file_descriptors ?s ! nat 0)) = Some (zero_node\<lparr>n_flags := FS_DIRECTORY\<rparr>)"
    and g: "\<not> bad_fd 0 ?s"
    by (simp_all add: bad_fd_def set_fd_def root_only_def fresh_fs_def fs_init_def MAX_FILE_DESCRIPTORS_def)
  have w: "write_fd 0 0x2000 2 ?s = Some (0, ?s)"
    using g by (simp add: write_fd_def set_fd_def vfs_write_def root_only_def fresh_fs_def fs_init_def
        MAX_FILE_DESCRIPTORS_def O_RDWR_def O_WRONLY_def zero_node_def Let_def)
  show ?thesis using seek_end_stale [OF i g n w] w by (simp add: zero_node_def)
qed

end
