(* ===== verification/Kernel.thy ===== *)
theory Kernel
  imports Vfs Interrupts
begin

text \<open>
  The kernel proper, \<^verbatim>\<open>kernel/kernel.c\<close>: the status flags, the timer tick with its round-robin
  switch, the task list, and the initialisation of the subsystems. The machine state gathers
  the states of the components; the stack registers are passed in and out. A task structure
  is a typed cell at the address the heap gave it; a fresh one reads as zeros, the heap being a
  zero-initialised static. A function that halts for good is modelled by the state it halts in.
\<close>

section \<open>State\<close>

record kernel_status =
  interrupts_enabled :: bool
  scheduler_active :: bool
  memory_manager_ready :: bool
  uptime_seconds :: u32
  status_total :: u32
  status_free :: u32

record task =
  t_id :: u32
  t_esp :: u32
  t_ebp :: u32
  t_state :: u32
  t_next :: addr

record machine =
  fs :: fs_state
  screen :: terminal
  irq :: intr
  speaker_in :: u8
  status :: kernel_status
  tasks :: "addr \<rightharpoonup> task"
  current_task :: addr
  task_queue :: addr
  next_task_id :: u32
  ticks :: u32

definition status_init :: kernel_status where
  "status_init = \<lparr>interrupts_enabled = False, scheduler_active = False, memory_manager_ready = False,
     uptime_seconds = 0, status_total = 0, status_free = 0\<rparr>"

definition zero_task :: task where
  "zero_task = \<lparr>t_id = 0, t_esp = 0, t_ebp = 0, t_state = 0, t_next = NULL\<rparr>"

definition machine_init :: "fs_state \<Rightarrow> terminal \<Rightarrow> u8 \<Rightarrow> machine" where
  "machine_init f t spk = \<lparr>fs = f, screen = t, irq = intr_init, speaker_in = spk, status = status_init,
     tasks = Map.empty, current_task = NULL, task_queue = NULL, next_task_id = 1, ticks = 0\<rparr>"

definition SIZEOF_TASK :: u32 where "SIZEOF_TASK = 20"

definition set_task :: "addr \<Rightarrow> task \<Rightarrow> machine \<Rightarrow> machine" where
  "set_task p t m = m\<lparr>tasks := (tasks m)(p \<mapsto> t)\<rparr>"

definition task_kmalloc :: "u32 \<Rightarrow> machine \<Rightarrow> addr \<times> machine" where
  "task_kmalloc sz m = (case fs_kmalloc sz (fs m) of (p, f) \<Rightarrow> (p, m\<lparr>fs := f\<rparr>))"

definition fresh_task :: "addr \<Rightarrow> machine \<Rightarrow> task" where
  "fresh_task p m = (case tasks m p of None \<Rightarrow> zero_task | Some t \<Rightarrow> t)"

section \<open>Timer\<close>

definition count_tick :: "machine \<Rightarrow> machine" where
  "count_tick m =
     (let m = m\<lparr>ticks := ticks m + 1\<rparr> in
      if ticks m \<ge> 100
      then m\<lparr>status := (status m)\<lparr>uptime_seconds := uptime_seconds (status m) + 1\<rparr>, ticks := 0\<rparr>
      else m)"

text \<open>The pair is \<^verbatim>\<open>esp\<close> and \<^verbatim>\<open>ebp\<close>.\<close>

definition timer_callback :: "u32 \<times> u32 \<Rightarrow> machine \<Rightarrow> ((u32 \<times> u32) \<times> machine) option" where
  "timer_callback regs m =
     (let m = count_tick m in
      if scheduler_active (status m) \<and> current_task m \<noteq> NULL
      then do {
        cur \<leftarrow> tasks m (current_task m);
        if t_next cur \<noteq> NULL
        then do {
          let cur = cur\<lparr>t_esp := fst regs, t_ebp := snd regs\<rparr>;
          let m = set_task (current_task m) cur m;
          let m = m\<lparr>current_task := t_next cur\<rparr>;
          nxt \<leftarrow> tasks m (current_task m);
          Some ((t_esp nxt, t_ebp nxt), m) }
        else Some (regs, m) }
      else Some (regs, m))"

section \<open>Initialisation\<close>

definition init_memory_manager :: "machine \<Rightarrow> machine" where
  "init_memory_manager m =
     (case detect_memory (kh (fs m)) of (h, amount) \<Rightarrow>
        m\<lparr>fs := (fs m)\<lparr>kh := h\<rparr>,
          status := (status m)\<lparr>status_total := amount, status_free := amount - 0x100000,
            memory_manager_ready := True\<rparr>\<rparr>)"

definition init_scheduler :: "machine \<Rightarrow> machine" where
  "init_scheduler m =
     (case task_kmalloc SIZEOF_TASK m of (p, m) \<Rightarrow>
        let m = m\<lparr>current_task := p\<rparr> in
        if p \<noteq> NULL
        then (set_task p ((fresh_task p m)\<lparr>t_id := next_task_id m, t_state := 0, t_next := p\<rparr>) m)
          \<lparr>next_task_id := next_task_id m + 1, task_queue := p,
           status := (status m)\<lparr>scheduler_active := True\<rparr>\<rparr>
        else m)"

text \<open>The addresses of the two handlers and of the descriptor table are given by the linker.\<close>

definition init_enhanced_interrupts :: "u32 \<Rightarrow> u32 \<Rightarrow> u32 \<Rightarrow> machine \<Rightarrow> machine" where
  "init_enhanced_interrupts kbd_addr timer_addr idt_addr m =
     (let i = register_interrupt_handler 0x20 timer_addr (init_interrupts kbd_addr idt_addr (irq m));
          divisor = (word_of_int (1193180 div 100) :: u16) in
      m\<lparr>irq := i\<lparr>iports := outb 0x40 (ucast (drop_bit 8 divisor AND 0xFF))
                 (outb 0x40 (ucast (divisor AND 0xFF)) (outb 0x43 0x36 (iports i)))\<rparr>,
        status := (status m)\<lparr>interrupts_enabled := True\<rparr>\<rparr>)"

section \<open>Reports and halting\<close>

definition say :: "string \<Rightarrow> machine \<Rightarrow> machine" where
  "say str m = m\<lparr>screen := terminal_writestring str (screen m)\<rparr>"

definition kprint :: "string \<Rightarrow> varg list \<Rightarrow> machine \<Rightarrow> machine option" where
  "kprint fmt args m = do { t \<leftarrow> printk fmt args (screen m); Some (m\<lparr>screen := t\<rparr>) }"

text \<open>A line of text with its newline.\<close>

definition ln :: "string \<Rightarrow> string" where
  "ln str = str @ [CHR 0x0A]"

definition kernel_system_info :: "machine \<Rightarrow> machine option" where
  "kernel_system_info m =
     do { let m = say (''BasedOS Enhanced Kernel'' @ [CHR 0x0A]) m;
          let m = say (''======================='' @ [CHR 0x0A]) m;
          let m = say ''Memory: '' m;
          let m = m\<lparr>screen := terminal_write_hex (status_total (status m)) (screen m)\<rparr>;
          let m = say '' bytes total, '' m;
          let m = m\<lparr>screen := terminal_write_hex (status_free (status m)) (screen m)\<rparr>;
          let m = say ('' bytes free'' @ [CHR 0x0A]) m;
          let m = say ''Uptime: '' m;
          t \<leftarrow> terminal_write_dec (uptime_seconds (status m)) (screen m);
          let m = say ('' seconds'' @ [CHR 0x0A]) (m\<lparr>screen := t\<rparr>);
          let m = say ''Interrupts: '' m;
          let m = say (if interrupts_enabled (status m) then ''Enabled'' else ''Disabled'') m;
          let m = say ([CHR 0x0A] @ ''Scheduler: '') m;
          let m = say (if scheduler_active (status m) then ''Active'' else ''Inactive'') m;
          let m = say ([CHR 0x0A] @ ''Memory Manager: '') m;
          let m = say (if memory_manager_ready (status m) then ''Ready'' else ''Not Ready'') m;
          Some (say [CHR 0x0A, CHR 0x0A] m) }"

definition kernel_panic :: "string \<Rightarrow> machine \<Rightarrow> machine" where
  "kernel_panic message m =
     (let m = m\<lparr>irq := disable_interrupts (irq m)\<rparr>;
          m = m\<lparr>screen := terminal_setcolor VGA_COLOR_WHITE VGA_COLOR_RED (screen m)\<rparr>;
          m = say ([CHR 0x0A] @ ''*** KERNEL PANIC ***'' @ [CHR 0x0A]) m;
          m = say message m in
      say ([CHR 0x0A] @ ''System halted.'' @ [CHR 0x0A]) m)"

definition kernel_shutdown :: "machine \<Rightarrow> machine" where
  "kernel_shutdown m =
     (let m = say (''Shutting down BasedOS...'' @ [CHR 0x0A]) m;
          m = m\<lparr>status := (status m)\<lparr>scheduler_active := False\<rparr>\<rparr>;
          m = (if task_queue m \<noteq> NULL
               then m\<lparr>fs := (fs m)\<lparr>kh := kfree (kh (fs m)) (task_queue m)\<rparr>\<rparr> else m);
          m = m\<lparr>irq := disable_interrupts (irq m)\<rparr> in
      say (''System halted safely.'' @ [CHR 0x0A]) m)"

section \<open>Queries and tasks\<close>

definition get_uptime :: "machine \<Rightarrow> u32" where
  "get_uptime m = uptime_seconds (status m)"

definition get_memory_stats :: "machine \<Rightarrow> u32 \<times> u32" where
  "get_memory_stats m = (status_total (status m), status_free (status m))"

definition is_subsystem_ready :: "string \<Rightarrow> machine \<Rightarrow> bool" where
  "is_subsystem_ready subsystem m =
     (if strcmp_spec subsystem ''interrupts'' = 0 then interrupts_enabled (status m)
      else if strcmp_spec subsystem ''scheduler'' = 0 then scheduler_active (status m)
      else if strcmp_spec subsystem ''memory'' = 0 then memory_manager_ready (status m)
      else False)"

text \<open>The result of the second \<^verbatim>\<open>kmalloc\<close>, the stack, is not checked.\<close>

definition create_task :: "machine \<Rightarrow> (u32 \<times> machine) option" where
  "create_task m =
     (if \<not> scheduler_active (status m) then Some (0, m)
      else (case task_kmalloc SIZEOF_TASK m of (p, m) \<Rightarrow>
        if p = NULL then Some (0, m)
        else (case task_kmalloc 4096 (m\<lparr>next_task_id := next_task_id m + 1\<rparr>) of (stack, m') \<Rightarrow>
          let esp = of_nat stack + 4096;
              new = (fresh_task p m)\<lparr>t_id := next_task_id m, t_state := 1, t_esp := esp, t_ebp := esp\<rparr> in
          if task_queue m' \<noteq> NULL
          then do {
            q \<leftarrow> tasks m' (task_queue m');
            let m' = set_task p (new\<lparr>t_next := t_next q\<rparr>) m';
            q \<leftarrow> tasks m' (task_queue m');
            Some (t_id new, set_task (task_queue m') (q\<lparr>t_next := p\<rparr>) m') }
          else Some (t_id new, (set_task p (new\<lparr>t_next := p\<rparr>) m')\<lparr>task_queue := p\<rparr>))))"

end
