(* ===== verification/KernelFacts.thy ===== *)
theory KernelFacts
  imports Kernel VfsFacts
begin

text \<open>
  Facts about the scheduler of \<^verbatim>\<open>kernel/kernel.c\<close>: the circular task list as a ring of
  addresses, insertion into it, and what a run of timer ticks does.
\<close>

section \<open>The task ring\<close>

text \<open>Following \<^verbatim>\<open>next\<close> from each address of the list gives the list rotated by one.\<close>

definition ring :: "(addr \<rightharpoonup> task) \<Rightarrow> addr list \<Rightarrow> bool" where
  "ring T xs \<longleftrightarrow> xs \<noteq> [] \<and> distinct xs \<and> NULL \<notin> set xs \<and>
     map (\<lambda>p. map_option t_next (T p)) xs = map Some (rotate1 xs)"

lemma ring_rotate1: "ring T xs \<Longrightarrow> ring T (rotate1 xs)"
  by (simp add: ring_def rotate1_map [symmetric])

lemma ring_head:
  assumes "ring T (c # cs)"
  obtains t where "T c = Some t" and "t_next t = hd (cs @ [c])" and "t_next t \<noteq> NULL"
proof -
  have "map_option t_next (T c) = Some (hd (cs @ [c]))"
    using assms by (cases cs) (auto simp: ring_def)
  moreover have "hd (cs @ [c]) \<noteq> NULL" using assms by (cases cs) (auto simp: ring_def)
  ultimately show thesis using that by auto
qed

lemma ring_member: "ring T xs \<Longrightarrow> p \<in> set xs \<Longrightarrow> p \<in> dom T"
proof -
  assume r: "ring T xs" and p: "p \<in> set xs"
  then obtain i where i: "i < length xs" "xs ! i = p" by (auto simp: in_set_conv_nth)
  have "map (\<lambda>p. map_option t_next (T p)) xs ! i = map Some (rotate1 xs) ! i"
    using r by (simp only: ring_def)
  then have "map_option t_next (T p) = Some (rotate1 xs ! i)" using i by simp
  then show "p \<in> dom T" by auto
qed

lemma ring_upd_next:
  assumes "ring T xs" and "T p = Some t" and "t_next t' = t_next t"
  shows "ring (T(p \<mapsto> t')) xs"
proof -
  have "(\<lambda>q. map_option t_next ((T(p \<mapsto> t')) q)) = (\<lambda>q. map_option t_next (T q))"
    using assms(2,3) by (simp add: fun_eq_iff)
  then show ?thesis using assms(1) unfolding ring_def by metis
qed

lemma ring_insert:
  assumes "ring T (q # xs)" and "T q = Some tq" and "p \<notin> set (q # xs)" and "p \<noteq> NULL"
    and "t_next tp = t_next tq"
  shows "ring (T(p \<mapsto> tp, q \<mapsto> tq\<lparr>t_next := p\<rparr>)) (q # p # xs)"
proof -
  let ?T = "T(p \<mapsto> tp, q \<mapsto> tq\<lparr>t_next := p\<rparr>)" and ?n = "\<lambda>T p. map_option t_next (T p)"
  have old: "map (?n T) (q # xs) = map Some (xs @ [q])" using assms(1) by (simp add: ring_def)
  have "map (?n ?T) xs = map (?n T) xs" using assms(1,3) by (auto simp: ring_def)
  moreover have "?n ?T p = ?n T q" using assms(2,3,5) by auto
  ultimately have "map (?n ?T) (q # p # xs) = Some p # map (?n T) (q # xs)" by simp
  then have "map (?n ?T) (q # p # xs) = map Some (rotate1 (q # p # xs))" by (simp only: old) simp
  then show ?thesis using assms(1,3,4) by (auto simp: ring_def)
qed

section \<open>Ticks\<close>

lemma count_tick_frame [simp]:
  "tasks (count_tick m) = tasks m" "current_task (count_tick m) = current_task m"
  "task_queue (count_tick m) = task_queue m" "fs (count_tick m) = fs m"
  "scheduler_active (status (count_tick m)) = scheduler_active (status m)"
  by (simp_all add: count_tick_def Let_def)

lemma count_tick_uptime:
  assumes "unat (ticks m) < 100"
  shows "unat (ticks (count_tick m)) = (unat (ticks m) + 1) mod 100"
    and "uptime_seconds (status (count_tick m)) =
      uptime_seconds (status m) + of_nat ((unat (ticks m) + 1) div 100)"
proof -
  have u: "unat (ticks m + 1) = unat (ticks m) + 1" using assms by (simp add: unat_add_less)
  have "ticks m + 1 \<ge> 100 \<longleftrightarrow> unat (ticks m) = 99"
    using assms u by (simp add: word_le_nat_alt) linarith
  then show "unat (ticks (count_tick m)) = (unat (ticks m) + 1) mod 100"
    and "uptime_seconds (status (count_tick m)) =
      uptime_seconds (status m) + of_nat ((unat (ticks m) + 1) div 100)"
    using assms u by (auto simp: count_tick_def Let_def)
qed

text \<open>The registers a task is resumed with.\<close>

definition saved_regs :: "task \<Rightarrow> u32 \<times> u32" where
  "saved_regs t = (t_esp t, t_ebp t)"

lemma timer_switch:
  fixes regs :: "u32 \<times> u32"
  assumes "scheduler_active (status m)" and "ring (tasks m) (c # cs)" and "current_task m = c"
    and "tasks m c = Some t"
  defines "T \<equiv> (tasks m)(c \<mapsto> t\<lparr>t_esp := fst regs, t_ebp := snd regs\<rparr>)"
  obtains u where "T (hd (cs @ [c])) = Some u" and
    "timer_callback regs m = Some (saved_regs u, (count_tick m)\<lparr>tasks := T, current_task := hd (cs @ [c])\<rparr>)"
    and "ring T (cs @ [c])"
proof -
  obtain t' where t': "tasks m c = Some t'" "t_next t' = hd (cs @ [c])" "t_next t' \<noteq> NULL"
    by (rule ring_head [OF assms(2)])
  then have next': "t_next t = hd (cs @ [c])" "t_next t \<noteq> NULL" using assms(4) by simp_all
  have "ring T (c # cs)" unfolding T_def by (rule ring_upd_next [OF assms(2,4)]) simp
  then have r: "ring T (cs @ [c])" using ring_rotate1 [of T "c # cs"] by simp
  have "hd (cs @ [c]) \<in> set (cs @ [c])" by (intro hd_in_set) simp
  then obtain u where u: "T (hd (cs @ [c])) = Some u" using ring_member [OF r] by auto
  have "c \<noteq> NULL" using assms(2) by (simp add: ring_def)
  then have "timer_callback regs m =
      Some (saved_regs u, (count_tick m)\<lparr>tasks := T, current_task := hd (cs @ [c])\<rparr>)"
    using assms(1,3,4) next' u
    by (cases "hd (cs @ [c]) = c")
      (auto simp: timer_callback_def Let_def set_task_def saved_regs_def T_def)
  with that u r show thesis by blast
qed

text \<open>Ticks with the tasks running in between: each comes with the registers that the running task has then, and gives
  those with which the next one goes on.\<close>

fun run_ticks :: "(u32 \<times> u32) list \<Rightarrow> machine \<Rightarrow> ((u32 \<times> u32) list \<times> machine) option" where
  "run_ticks [] m = Some ([], m)"
| "run_ticks (regs # rs) m =
     do { (r, m) \<leftarrow> timer_callback regs m; (given, m) \<leftarrow> run_ticks rs m; Some (r # given, m) }"

definition saved_of :: "(addr \<rightharpoonup> task) \<Rightarrow> addr \<Rightarrow> u32 \<times> u32" where
  "saved_of T p = saved_regs (the (T p))"

text \<open>A task but for its registers.\<close>

definition but_regs :: "task \<Rightarrow> task" where
  "but_regs t = t\<lparr>t_esp := 0, t_ebp := 0\<rparr>"

lemma ring_but_regs:
  assumes "ring T xs" and "\<forall>x. map_option but_regs (U x) = map_option but_regs (T x)"
  shows "ring U xs"
proof -
  have "map_option t_next v = map_option t_next (map_option but_regs v)" for v
    by (cases v) (simp_all add: but_regs_def)
  then have "map_option t_next (U x) = map_option t_next (T x)" for x using assms(2) by metis
  then show ?thesis using assms(1) by (simp add: ring_def)
qed

text \<open>The registers in the order in which they are given back: those saved for the tasks of the ring, the running one
  first, then those of the ticks.\<close>

definition queued :: "machine \<Rightarrow> addr list \<Rightarrow> (u32 \<times> u32) list \<Rightarrow> (u32 \<times> u32) list" where
  "queued m xs rs = map (saved_of (tasks m)) xs @ rs"

lemma run_ticks_ring:
  assumes "scheduler_active (status m)" and "ring (tasks m) xs" and "current_task m = hd xs" and "unat (ticks m) < 100"
  shows "\<exists>m'. run_ticks rs m = Some (take (length rs) (tl (queued m xs rs)), m') \<and>
    current_task m' = hd (rotate (length rs) xs) \<and>
    map (saved_of (tasks m')) (rotate (length rs) xs) = drop (length rs) (queued m xs rs) \<and>
    (\<forall>x. map_option but_regs (tasks m' x) = map_option but_regs (tasks m x)) \<and>
    (\<forall>x. x \<notin> set xs \<longrightarrow> tasks m' x = tasks m x) \<and>
    unat (ticks m') = (unat (ticks m) + length rs) mod 100 \<and>
    uptime_seconds (status m') = uptime_seconds (status m) + of_nat ((unat (ticks m) + length rs) div 100)"
  using assms
proof (induction rs arbitrary: m xs)
  case Nil
  then show ?case by (simp add: queued_def)
next
  case (Cons r rs)
  obtain c cs where xs: "xs = c # cs" using Cons.prems(2) by (cases xs) (auto simp: ring_def)
  obtain t where t: "tasks m c = Some t" using ring_member [OF Cons.prems(2), of c] xs by auto
  let ?T = "(tasks m)(c \<mapsto> t\<lparr>t_esp := fst r, t_ebp := snd r\<rparr>)"
  have c: "ring (tasks m) (c # cs)" "current_task m = c" using Cons.prems(2,3) xs by simp_all
  obtain u where u: "?T (hd (cs @ [c])) = Some u" "ring ?T (cs @ [c])"
    "timer_callback r m = Some (saved_regs u, (count_tick m)\<lparr>tasks := ?T, current_task := hd (cs @ [c])\<rparr>)"
    by (rule timer_switch [OF Cons.prems(1) c t])
  define m1 where "m1 = (count_tick m)\<lparr>tasks := ?T, current_task := hd (cs @ [c])\<rparr>"
  note up = count_tick_uptime [OF Cons.prems(4)]
  have m1: "scheduler_active (status m1)" "ring (tasks m1) (cs @ [c])" "current_task m1 = hd (cs @ [c])"
      "unat (ticks m1) < 100" "unat (ticks m1) = (unat (ticks m) + 1) mod 100" "tasks m1 = ?T"
      "uptime_seconds (status m1) = uptime_seconds (status m) + of_nat ((unat (ticks m) + 1) div 100)"
    using Cons.prems(1) u(2) up by (simp_all add: m1_def)
  have "c \<notin> set cs" using c(1) by (simp add: ring_def)
  then have "map (saved_of ?T) cs = map (saved_of (tasks m)) cs" by (auto simp: saved_of_def)
  then have q: "queued m1 (cs @ [c]) rs = tl (queued m xs (r # rs))"
    by (simp add: queued_def m1(6) xs) (simp add: saved_of_def saved_regs_def)
  have h: "saved_regs u = hd (queued m1 (cs @ [c]) rs)"
    using u(1) by (cases cs) (simp_all add: queued_def m1(6) saved_of_def)
  have ne: "queued m1 (cs @ [c]) rs \<noteq> []" by (simp add: queued_def)
  from Cons.IH [OF m1(1-4)] obtain m' where
    v: "run_ticks rs m1 = Some (take (length rs) (tl (queued m1 (cs @ [c]) rs)), m')"
      "current_task m' = hd (rotate (length rs) (cs @ [c]))"
      "map (saved_of (tasks m')) (rotate (length rs) (cs @ [c])) = drop (length rs) (queued m1 (cs @ [c]) rs)"
      "\<forall>x. map_option but_regs (tasks m' x) = map_option but_regs (tasks m1 x)"
      "\<forall>x. x \<notin> set (cs @ [c]) \<longrightarrow> tasks m' x = tasks m1 x"
      "unat (ticks m') = (unat (ticks m1) + length rs) mod 100"
      "uptime_seconds (status m') = uptime_seconds (status m1) + of_nat ((unat (ticks m1) + length rs) div 100)" by blast
  have rot: "rotate (length (r # rs)) xs = rotate (length rs) (cs @ [c])" by (simp add: xs rotate1_rotate_swap)
  have "hd q # take n (tl q) = take (Suc n) q" if "q \<noteq> []" for q :: "(u32 \<times> u32) list" and n
    using that by (cases q) simp_all
  then have "run_ticks (r # rs) m = Some (take (length (r # rs)) (tl (queued m xs (r # rs))), m')"
    using u(3) v(1) ne by (simp add: m1_def [symmetric] h q)
  moreover have "map_option but_regs (?T x) = map_option but_regs (tasks m x)" for x
    using t by (simp add: but_regs_def)
  moreover have "drop (length rs) (tl q) = drop (length (r # rs)) q" for q :: "(u32 \<times> u32) list" by (simp add: drop_Suc)
  moreover have "((a + 1) mod 100 + k) mod 100 = (a + Suc k) mod (100 :: nat)" for a k by presburger
  moreover have "(a + 1) div 100 + ((a + 1) mod 100 + k) div 100 = (a + Suc k) div (100 :: nat)" for a k
  proof -
    have "a + Suc k = ((a + 1) mod 100 + k) + (a + 1) div 100 * 100" by simp
    then show ?thesis by (simp only: div_mult_self3)
  qed
  then have "uptime_seconds (status m') =
      uptime_seconds (status m) + of_nat ((unat (ticks m) + length (r # rs)) div 100)"
    unfolding v(7) m1(5,7) by (simp flip: of_nat_add add: add.assoc)
  ultimately show ?case using v(2-6) m1(5,6) xs rot q by auto
qed

section \<open>The first steps of the kernel\<close>

definition kernel_init :: "u32 \<Rightarrow> u32 \<Rightarrow> u32 \<Rightarrow> machine \<Rightarrow> machine" where
  "kernel_init kbd_addr timer_addr idt_addr m =
     init_scheduler (init_enhanced_interrupts kbd_addr timer_addr idt_addr (init_memory_manager m))"

lemma kernel_init_facts:
  assumes "kheap_inv (kh (fs m))" and "unat (heap_pos (kh (fs m))) + 20 \<le> 0x10000"
  obtains h p where "kernel_init ka ta ia m = m\<lparr>fs := (fs m)\<lparr>kh := h\<rparr>,
      irq := (register_interrupt_handler 0x20 ta (init_interrupts ka ia (irq m)))\<lparr>iports := p\<rparr>,
      status := (status m)\<lparr>status_total := 64 * 1024 * 1024, status_free := 63 * 1024 * 1024,
        memory_manager_ready := True, interrupts_enabled := True, scheduler_active := True\<rparr>,
      tasks := (tasks m)(frontier (kh (fs m)) \<mapsto> (fresh_task (frontier (kh (fs m))) m)
        \<lparr>t_id := next_task_id m, t_state := 0, t_next := frontier (kh (fs m))\<rparr>),
      current_task := frontier (kh (fs m)), task_queue := frontier (kh (fs m)),
      next_task_id := next_task_id m + 1\<rparr>"
    and "kheap_inv h" and "heap_base h = heap_base (kh (fs m))"
    and "unat (heap_pos h) \<le> unat (heap_pos (kh (fs m))) + 23" and "frontier (kh (fs m)) \<noteq> NULL"
proof -
  let ?m2 = "init_enhanced_interrupts ka ta ia (init_memory_manager m)"
  have kh2: "kh (fs ?m2) = (kh (fs m))\<lparr>total_memory := 64 * 1024 * 1024\<rparr>"
    by (simp add: init_enhanced_interrupts_def init_memory_manager_def detect_memory_def Let_def)
  have "kheap_inv (kh (fs ?m2))" "unat (heap_pos (kh (fs ?m2))) + unat SIZEOF_TASK \<le> 0x10000"
    using assms by (simp_all add: kh2 kheap_inv_def SIZEOF_TASK_def)
  from fs_kmalloc_fits [OF this] obtain h where
    k: "fs_kmalloc SIZEOF_TASK (fs ?m2) = (frontier (kh (fs m)), (fs ?m2)\<lparr>kh := h\<rparr>)"
      "frontier (kh (fs m)) \<noteq> NULL" and
    h: "kheap_inv h" "heap_base h = heap_base (kh (fs m))"
      "unat (heap_pos h) \<le> unat (heap_pos (kh (fs m))) + 23"
    by (auto simp: kh2 frontier_def SIZEOF_TASK_def)
  obtain p where m2: "?m2 = m\<lparr>fs := (fs m)\<lparr>kh := (kh (fs m))\<lparr>total_memory := 64 * 1024 * 1024\<rparr>\<rparr>,
      irq := (register_interrupt_handler 0x20 ta (init_interrupts ka ia (irq m)))\<lparr>iports := p\<rparr>,
      status := (status m)\<lparr>status_total := 64 * 1024 * 1024, status_free := 63 * 1024 * 1024,
        memory_manager_ready := True, interrupts_enabled := True\<rparr>\<rparr>"
    by (simp add: init_enhanced_interrupts_def init_memory_manager_def detect_memory_def Let_def)
  show thesis
    by (rule that [OF _ h k(2), of p])
      (use k in \<open>simp add: m2 kernel_init_def init_scheduler_def task_kmalloc_def set_task_def Let_def fresh_task_def\<close>)
qed

end
