(* ===== verification/KernelProps.thy ===== *)
theory KernelProps
  imports KernelFacts TerminalFacts
begin

text \<open>
  The properties of \<^verbatim>\<open>kernel/kernel.c\<close>: the round-robin switch, the uptime, task creation and
  the initialisation of the subsystems, with their witnesses.
\<close>

section \<open>Scheduling\<close>

text \<open>C19: The timer goes round the ring of tasks. Whatever registers each running task has when it is interrupted, a
  tick saves them in that task's record and goes on with the next task of the ring: with the registers that task had
  when it was interrupted last, one round before, or with those its record held at first. After any number of ticks
  the current task is the one that many places on, the records hold the registers still to be given back, and
  nothing else of any record has changed.\<close>

theorem timer_round_robin:
  assumes "scheduler_active (status m)" and "ring (tasks m) xs" and "current_task m = hd xs" and "unat (ticks m) < 100"
  shows "\<exists>given m'. run_ticks rs m = Some (given, m') \<and> length given = length rs \<and>
    (\<forall>j < length rs. given ! j =
      (if Suc j < length xs then saved_of (tasks m) (xs ! Suc j) else rs ! (Suc j - length xs))) \<and>
    ring (tasks m') xs \<and> current_task m' = xs ! (length rs mod length xs) \<and>
    map (saved_of (tasks m')) (rotate (length rs) xs) = drop (length rs) (map (saved_of (tasks m)) xs @ rs) \<and>
    (\<forall>x. map_option but_regs (tasks m' x) = map_option but_regs (tasks m x)) \<and>
    (\<forall>x. x \<notin> set xs \<longrightarrow> tasks m' x = tasks m x)"
proof -
  let ?q = "queued m xs rs"
  from run_ticks_ring [OF assms] obtain m' where
    v: "run_ticks rs m = Some (take (length rs) (tl ?q), m')" "current_task m' = hd (rotate (length rs) xs)"
      "map (saved_of (tasks m')) (rotate (length rs) xs) = drop (length rs) ?q"
      "\<forall>x. map_option but_regs (tasks m' x) = map_option but_regs (tasks m x)"
      "\<forall>x. x \<notin> set xs \<longrightarrow> tasks m' x = tasks m x" by blast
  have ne: "xs \<noteq> []" using assms(2) by (simp add: ring_def)
  then have len: "length ?q = length xs + length rs" "0 < length xs" by (simp_all add: queued_def)
  have "take (length rs) (tl ?q) ! j =
      (if Suc j < length xs then saved_of (tasks m) (xs ! Suc j) else rs ! (Suc j - length xs))" if "j < length rs" for j
  proof -
    have "take (length rs) (tl ?q) ! j = ?q ! Suc j" using that len by (cases ?q) simp_all
    then show ?thesis using that by (simp add: queued_def nth_append)
  qed
  moreover have "length (take (length rs) (tl ?q)) = length rs" using len ne by (cases xs) (simp_all add: min_def)
  moreover have "current_task m' = xs ! (length rs mod length xs)"
    using v(2) hd_rotate_conv_nth [OF ne] by simp
  moreover have "ring (tasks m') xs" by (rule ring_but_regs [OF assms(2) v(4)])
  moreover have "map (saved_of (tasks m')) (rotate (length rs) xs) = drop (length rs) (map (saved_of (tasks m)) xs @ rs)"
    using v(3) by (simp only: queued_def)
  ultimately show ?thesis using v(1,4,5)
    by (intro exI [of _ "take (length rs) (tl ?q)"] exI [of _ m'] conjI allI impI) simp_all
qed

text \<open>Two tasks at addresses 16 and 48, the first running.\<close>

definition two_tasks :: machine where
  "two_tasks = (machine_init (fs_init (heap_init 0x100000) Map.empty)
     \<lparr>video = (\<lambda>_. 0), cursor_x = 0, cursor_y = 0, text_attribute = 7, ports = []\<rparr> 0)
     \<lparr>status := status_init\<lparr>scheduler_active := True\<rparr>, current_task := 16, task_queue := 16,
      tasks := [16 \<mapsto> zero_task\<lparr>t_next := 48\<rparr>, 48 \<mapsto> zero_task\<lparr>t_esp := 900, t_ebp := 800, t_next := 16\<rparr>]\<rparr>"

lemma two_tasks_facts:
  "scheduler_active (status two_tasks)" "ring (tasks two_tasks) [16, 48]" "current_task two_tasks = 16"
  "tasks two_tasks 16 = Some (zero_task\<lparr>t_next := 48\<rparr>)" "ticks two_tasks = 0" "task_queue two_tasks = 16"
  by (simp_all add: two_tasks_def ring_def machine_init_def)

text \<open>Two rounds: the second task first goes on with what its record held, then each with its own.\<close>

lemma timer_round_robin_witness:
  "\<exists>m'. run_ticks [(100, 200), (890, 800), (104, 200), (880, 800)] two_tasks =
      Some ([(900, 800), (100, 200), (890, 800), (104, 200)], m') \<and> current_task m' = 16"
proof -
  define rs :: "(u32 \<times> u32) list" where "rs = [(100, 200), (890, 800), (104, 200), (880, 800)]"
  have len: "length rs = 4" "length [16, 48 :: addr] = 2" by (simp_all add: rs_def)
  have "current_task two_tasks = hd [16, 48]" "unat (ticks two_tasks) < 100" by (simp_all add: two_tasks_facts)
  from timer_round_robin [OF two_tasks_facts(1,2) this, of rs] obtain given m' where
    b: "run_ticks rs two_tasks = Some (given, m')" "length given = 4"
    "\<forall>j < 4. given ! j = (if Suc j < 2 then saved_of (tasks two_tasks) ([16, 48] ! Suc j) else rs ! (Suc j - 2))"
    "current_task m' = [16, 48] ! (4 mod 2)" unfolding len by blast
  have "saved_of (tasks two_tasks) 48 = (900, 800)" by (simp add: saved_of_def saved_regs_def two_tasks_def)
  then have "given = [(900, 800), (100, 200), (890, 800), (104, 200)]"
  proof -
    assume s: "saved_of (tasks two_tasks) 48 = (900, 800)"
    obtain w x y z where g: "given = [w, x, y, z]" using b(2) by (auto simp: length_Suc_conv eval_nat_numeral)
    show ?thesis using b(3) [rule_format, of 0] b(3) [rule_format, of 1] b(3) [rule_format, of 2] b(3) [rule_format, of 3] s
      by (simp add: g rs_def)
  qed
  then show ?thesis using b(1,4) by (auto simp: rs_def)
qed

text \<open>Uptime counts hundreds of ticks: whatever tasks are switched meanwhile, after \<open>k\<close> ticks it has
  grown by the number of full hundreds reached, and the remainder is kept.\<close>

theorem timer_uptime:
  assumes "scheduler_active (status m)" and "ring (tasks m) xs" and "current_task m = hd xs"
    and "unat (ticks m) < 100" and "length rs = k"
  shows "\<exists>given m'. run_ticks rs m = Some (given, m') \<and>
    uptime_seconds (status m') = uptime_seconds (status m) + of_nat ((unat (ticks m) + k) div 100) \<and>
    unat (ticks m') = (unat (ticks m) + k) mod 100"
  using run_ticks_ring [OF assms(1-4), of rs] assms(5) by auto

lemma timer_uptime_witness:
  "\<exists>given m'. run_ticks (replicate 250 (1, 2)) two_tasks = Some (given, m') \<and> uptime_seconds (status m') = 2"
  using timer_uptime [OF two_tasks_facts(1,2), of "replicate 250 (1, 2)" 250]
  by (auto simp: two_tasks_facts) (auto simp: two_tasks_def machine_init_def status_init_def)

section \<open>Tasks\<close>

text \<open>The two blocks of a new task, when the heap has room for both.\<close>

lemma task_blocks:
  assumes "kheap_inv (kh f)" and "unat (heap_pos (kh f)) + 4116 \<le> 0x10000"
  obtains h1 h2 where "fs_kmalloc SIZEOF_TASK f = (frontier (kh f), f\<lparr>kh := h1\<rparr>)"
    and "fs_kmalloc 4096 (f\<lparr>kh := h1\<rparr>) = (frontier h1, f\<lparr>kh := h2\<rparr>)"
    and "frontier (kh f) + 20 \<le> frontier h1" and "frontier (kh f) \<noteq> NULL" and "kheap_inv h2"
    and "frontier h1 + 4096 \<le> frontier h2"
proof -
  have "unat (heap_pos (kh f)) + unat SIZEOF_TASK \<le> 0x10000" using assms(2) by (simp add: SIZEOF_TASK_def)
  from fs_kmalloc_fits [OF assms(1) this] obtain h1 where
    k1: "fs_kmalloc SIZEOF_TASK f = (frontier (kh f), f\<lparr>kh := h1\<rparr>)" and
    h1: "kheap_inv h1" "frontier (kh f) + 20 \<le> frontier h1" "frontier (kh f) \<noteq> NULL"
      "unat (heap_pos h1) \<le> unat (heap_pos (kh f)) + 23" "heap_base h1 = heap_base (kh f)"
    by (auto simp: SIZEOF_TASK_def)
  have round: "unat (heap_pos h1) = unat (heap_pos (kh f)) + 20"
  proof -
    have "unat (heap_pos (kh f)) + 20 \<le> unat (heap_pos h1)" using h1(2,5) by (simp add: frontier_def)
    moreover have "unat (heap_pos (kh f)) mod 4 = 0" "unat (heap_pos h1) mod 4 = 0"
      using assms(1) h1(1) by (simp_all add: kheap_inv_def)
    ultimately show ?thesis using h1(4) by presburger
  qed
  have f1: "kheap_inv (kh (f\<lparr>kh := h1\<rparr>))" "unat (heap_pos (kh (f\<lparr>kh := h1\<rparr>))) + unat (4096 :: u32) \<le> 0x10000"
    using h1(1) round assms(2) by simp_all
  from fs_kmalloc_fits [OF f1] obtain h2 where
    "fs_kmalloc 4096 (f\<lparr>kh := h1\<rparr>) = (frontier h1, f\<lparr>kh := h2\<rparr>)" "kheap_inv h2" "frontier h1 + 4096 \<le> frontier h2"
    by auto
  then show thesis using that k1 h1(2,3) by blast
qed

text \<open>C39: \<^verbatim>\<open>create_task\<close> with room for the record and the stack returns the next identifier, links the new
  task into the ring just after the head of the queue and leaves the order of the others; its
  stack is a block of its own above the record and the two stack registers point to its end.\<close>

theorem create_task_ring:
  assumes "scheduler_active (status m)" and "ring (tasks m) (q # xs)" and "task_queue m = q"
    and "kheap_inv (kh (fs m))" and "unat (heap_pos (kh (fs m))) + 4116 \<le> 0x10000"
    and "frontier (kh (fs m)) \<notin> set (q # xs)"
  shows "\<exists>m' p t. create_task m = Some (next_task_id m, m') \<and> p = frontier (kh (fs m)) \<and>
    ring (tasks m') (q # p # xs) \<and> tasks m' p = Some t \<and> t_id t = next_task_id m \<and> t_state t = 1 \<and>
    t_ebp t = t_esp t \<and> p + 20 \<le> unat (t_esp t) - 4096 \<and> unat (t_esp t) \<le> frontier (kh (fs m')) \<and>
    next_task_id m' = next_task_id m + 1 \<and> current_task m' = current_task m"
proof -
  let ?p = "frontier (kh (fs m))"
  obtain h1 h2 where k1: "fs_kmalloc SIZEOF_TASK (fs m) = (?p, (fs m)\<lparr>kh := h1\<rparr>)"
    and k2: "fs_kmalloc 4096 ((fs m)\<lparr>kh := h1\<rparr>) = (frontier h1, (fs m)\<lparr>kh := h2\<rparr>)"
    and h1: "?p + 20 \<le> frontier h1" "?p \<noteq> NULL" and h2: "kheap_inv h2" "frontier h1 + 4096 \<le> frontier h2"
    by (rule task_blocks [OF assms(4,5)])
  obtain tq where tq: "tasks m q = Some tq" using ring_member [OF assms(2), of q] by auto
  have nz: "q \<noteq> NULL" "q \<noteq> ?p" "?p \<noteq> NULL" using assms(2,6) h1(2) by (auto simp: ring_def)
  define tp where "tp = (fresh_task ?p m)\<lparr>t_id := next_task_id m, t_state := 1,
      t_esp := of_nat (frontier h1) + 4096, t_ebp := of_nat (frontier h1) + 4096, t_next := t_next tq\<rparr>"
  define m' where "m' = m\<lparr>fs := (fs m)\<lparr>kh := h2\<rparr>, next_task_id := next_task_id m + 1,
      tasks := (tasks m)(?p \<mapsto> tp, q \<mapsto> tq\<lparr>t_next := ?p\<rparr>)\<rparr>"
  have "create_task m = Some (next_task_id m, m')"
    using assms(1,3) k1 k2 tq nz
    by (simp add: create_task_def task_kmalloc_def set_task_def Let_def fresh_task_def tp_def m'_def)
  moreover have "ring (tasks m') (q # ?p # xs)"
    using ring_insert [OF assms(2) tq assms(6) nz(3), of tp] by (simp add: m'_def tp_def)
  moreover have "unat (t_esp tp) = frontier h1 + 4096"
  proof -
    have "frontier h1 + 4096 < 2 ^ 32" using h2 frontier_le [OF h2(1)] by (simp add: kheap_inv_def)
    moreover have "t_esp tp = of_nat (frontier h1 + 4096)" by (simp add: tp_def)
    ultimately show ?thesis by (simp only: unat_of_nat_u32)
  qed
  moreover have "tasks m' ?p = Some tp" "next_task_id m' = next_task_id m + 1"
    "current_task m' = current_task m" "kh (fs m') = h2" using nz by (simp_all add: m'_def)
  moreover have "t_id tp = next_task_id m" "t_state tp = 1" "t_ebp tp = t_esp tp" by (simp_all add: tp_def)
  ultimately show ?thesis using h1(1) h2(2) by (intro exI [of _ m'] exI [of _ ?p] exI [of _ tp]) simp
qed

lemma create_task_ring_witness:
  "\<exists>m'. create_task two_tasks = Some (1, m') \<and> ring (tasks m') [16, 0x100000, 48]"
  using create_task_ring [OF two_tasks_facts(1,2,6)]
  by (auto simp: two_tasks_def machine_init_def fs_init_def heap_init_def kheap_inv_def frontier_def)

text \<open>When the heap has room for the record but not for the stack, \<^verbatim>\<open>create_task\<close> still reports success:
  the null result is not checked and the new task's stack pointer is 4096, in low memory.\<close>

theorem create_task_no_stack:
  assumes "scheduler_active (status m)" and "ring (tasks m) (q # xs)" and "task_queue m = q"
    and "kheap_inv (kh (fs m))" and "unat (heap_pos (kh (fs m))) + 20 \<le> 0x10000"
    and "0x10000 < unat (heap_pos (kh (fs m))) + 4116" and "frontier (kh (fs m)) \<notin> set (q # xs)"
  shows "\<exists>m' t. create_task m = Some (next_task_id m, m') \<and>
    tasks m' (frontier (kh (fs m))) = Some t \<and> t_esp t = 4096 \<and> ring (tasks m') (q # frontier (kh (fs m)) # xs)"
proof -
  have "unat (heap_pos (kh (fs m))) + unat SIZEOF_TASK \<le> 0x10000" using assms(5) by (simp add: SIZEOF_TASK_def)
  from fs_kmalloc_fits [OF assms(4) this] obtain h1 where
    k1: "fs_kmalloc SIZEOF_TASK (fs m) = (frontier (kh (fs m)), (fs m)\<lparr>kh := h1\<rparr>)" and
    h1: "kheap_inv h1" "frontier (kh (fs m)) + 20 \<le> frontier h1" "frontier (kh (fs m)) \<noteq> NULL"
      "heap_base h1 = heap_base (kh (fs m))"
    by (auto simp: SIZEOF_TASK_def)
  let ?p = "frontier (kh (fs m))"
  have "\<not> unat (heap_pos h1) + unat (4096 :: u32) \<le> 0x10000"
    using h1(2,4) assms(6) by (simp add: frontier_def)
  then have k2: "fs_kmalloc 4096 ((fs m)\<lparr>kh := h1\<rparr>) = (NULL, (fs m)\<lparr>kh := h1\<rparr>)"
    using kmalloc_small [OF h1(1), of 4096] by (simp add: fs_kmalloc_def)
  obtain tq where tq: "tasks m q = Some tq" using ring_member [OF assms(2), of q] by auto
  have nz: "q \<noteq> NULL" "q \<noteq> ?p" "?p \<noteq> NULL" using assms(2,7) h1(3) by (auto simp: ring_def)
  define tp where "tp = (fresh_task ?p m)\<lparr>t_id := next_task_id m, t_state := 1,
      t_esp := 4096, t_ebp := 4096, t_next := t_next tq\<rparr>"
  define m' where "m' = m\<lparr>fs := (fs m)\<lparr>kh := h1\<rparr>, next_task_id := next_task_id m + 1,
      tasks := (tasks m)(?p \<mapsto> tp, q \<mapsto> tq\<lparr>t_next := ?p\<rparr>)\<rparr>"
  have "create_task m = Some (next_task_id m, m')"
    using assms(1,3) k1 k2 tq nz
    by (simp add: create_task_def task_kmalloc_def set_task_def Let_def fresh_task_def tp_def m'_def)
  moreover have "ring (tasks m') (q # ?p # xs)"
    using ring_insert [OF assms(2) tq assms(7) nz(3), of tp] by (simp add: m'_def tp_def)
  moreover have "tasks m' ?p = Some tp" "t_esp tp = 4096" using nz by (simp_all add: m'_def tp_def)
  ultimately show ?thesis by blast
qed

lemma create_task_no_stack_witness:
  "\<exists>m'. create_task (two_tasks\<lparr>fs := (fs two_tasks)\<lparr>kh := \<lparr>heap_base = 0x100000, heap_pos = 0xF000, total_memory = 0\<rparr>\<rparr>\<rparr>) = Some (1, m')"
  using create_task_no_stack [of "two_tasks\<lparr>fs := (fs two_tasks)\<lparr>kh := \<lparr>heap_base = 0x100000, heap_pos = 0xF000, total_memory = 0\<rparr>\<rparr>\<rparr>" 16 "[48]"]
    two_tasks_facts
  by (auto simp: kheap_inv_def frontier_def) (auto simp: two_tasks_def machine_init_def)

section \<open>Panic\<close>

text \<open>\<^verbatim>\<open>kernel_panic\<close> halts with interrupts off and its message on the screen in white on red, and touches nothing
  else; a program waiting for a key there would wait for ever.\<close>

lemma kernel_panic_halts:
  "\<not> int_flag (irq (kernel_panic message m))"
  "screen (kernel_panic message m) = terminal_writestring
     ([CHR 0x0A] @ ''*** KERNEL PANIC ***'' @ [CHR 0x0A] @ message @ [CHR 0x0A] @ ''System halted.'' @ [CHR 0x0A])
     (terminal_setcolor VGA_COLOR_WHITE VGA_COLOR_RED (screen m))"
  "fs (kernel_panic message m) = fs m" "status (kernel_panic message m) = status m" "tasks (kernel_panic message m) = tasks m"
  "key_buffer_pos (irq m) = 0 \<Longrightarrow> keyboard_getchar scs (irq (kernel_panic message m)) = None"
proof -
  show "screen (kernel_panic message m) = terminal_writestring
     ([CHR 0x0A] @ ''*** KERNEL PANIC ***'' @ [CHR 0x0A] @ message @ [CHR 0x0A] @ ''System halted.'' @ [CHR 0x0A])
     (terminal_setcolor VGA_COLOR_WHITE VGA_COLOR_RED (screen m))"
    by (simp add: kernel_panic_def say_def disable_interrupts_def writestring_append Let_def)
  show "key_buffer_pos (irq m) = 0 \<Longrightarrow> keyboard_getchar scs (irq (kernel_panic message m)) = None"
    by (cases scs) (simp_all add: kernel_panic_def say_def disable_interrupts_def Let_def)
qed (simp_all add: kernel_panic_def say_def disable_interrupts_def Let_def)

section \<open>Initialisation\<close>

text \<open>After the first three initialisation steps of \<^verbatim>\<open>kmain\<close> every subsystem reports ready, the scheduler
  has one task that is its own successor, both vectors are installed and 63 of 64 MiB are reported
  free; but the processor's interrupt flag is as it was, off after boot, although
  \<^verbatim>\<open>is_subsystem_ready\<close> says that interrupts are enabled.\<close>

theorem kernel_init_state:
  assumes "kheap_inv (kh (fs m))" and "unat (heap_pos (kh (fs m))) + 20 \<le> 0x10000"
  shows "let m' = kernel_init ka ta ia m in
    (\<forall>name \<in> {''interrupts'', ''scheduler'', ''memory''}. is_subsystem_ready name m') \<and>
    ring (tasks m') [frontier (kh (fs m))] \<and> current_task m' = frontier (kh (fs m)) \<and>
    task_queue m' = frontier (kh (fs m)) \<and> next_task_id m' = next_task_id m + 1 \<and>
    get_memory_stats m' = (64 * 1024 * 1024, 63 * 1024 * 1024) \<and>
    idt (irq m') 0x20 = gate ta \<and> idt (irq m') 0x21 = gate ka \<and>
    int_flag (irq m') = int_flag (irq m)"
proof -
  from kernel_init_facts [OF assms] obtain h p where
    k: "kernel_init ka ta ia m = m\<lparr>fs := (fs m)\<lparr>kh := h\<rparr>,
      irq := (register_interrupt_handler 0x20 ta (init_interrupts ka ia (irq m)))\<lparr>iports := p\<rparr>,
      status := (status m)\<lparr>status_total := 64 * 1024 * 1024, status_free := 63 * 1024 * 1024,
        memory_manager_ready := True, interrupts_enabled := True, scheduler_active := True\<rparr>,
      tasks := (tasks m)(frontier (kh (fs m)) \<mapsto> (fresh_task (frontier (kh (fs m))) m)
        \<lparr>t_id := next_task_id m, t_state := 0, t_next := frontier (kh (fs m))\<rparr>),
      current_task := frontier (kh (fs m)), task_queue := frontier (kh (fs m)),
      next_task_id := next_task_id m + 1\<rparr>" "frontier (kh (fs m)) \<noteq> NULL"
    by metis
  have "idt (register_interrupt_handler 0x20 ta (init_interrupts ka ia (irq m))) 0x20 = gate ta"
    "idt (register_interrupt_handler 0x20 ta (init_interrupts ka ia (irq m))) 0x21 = gate ka"
    "int_flag (register_interrupt_handler 0x20 ta (init_interrupts ka ia (irq m))) = int_flag (irq m)"
    by (simp_all add: init_interrupts_def lidt_def Let_def register_interrupt_handler_def)
  then show ?thesis using k(2)
    by (simp add: k(1) ring_def is_subsystem_ready_def get_memory_stats_def uchar_def)
qed

lemma kernel_init_state_witness:
  "let m = kernel_init 1 2 3 two_tasks in is_subsystem_ready ''interrupts'' m \<and> \<not> int_flag (irq m)"
  using kernel_init_state [of two_tasks 1 2 3]
  by (simp add: two_tasks_def machine_init_def fs_init_def heap_init_def kheap_inv_def intr_init_def Let_def)

end
