(* ===== verification/CArray.thy ===== *)
theory CArray
  imports CStringMem
begin

text \<open>
  A \<^verbatim>\<open>char\<close> array that is an object of its own, as the shell's tables and line buffers are: the
  list of its bytes. \<^verbatim>\<open>strcpy\<close> into such an array has no result when the string does not fit.
  The last lemmas tie these operations to the routines of \<^verbatim>\<open>lib/string.c\<close> on memory.
\<close>

definition arr_cstr :: "byte list \<Rightarrow> string option" where
  "arr_cstr xs = (if NUL \<in> set xs then Some (takeWhile (\<lambda>c. c \<noteq> NUL) xs) else None)"

definition arr_set :: "byte list \<Rightarrow> int \<Rightarrow> byte \<Rightarrow> byte list option" where
  "arr_set xs i c = (if 0 \<le> i \<and> i < int (length xs) then Some (xs[nat i := c]) else None)"

definition arr_strcpy :: "byte list \<Rightarrow> nat \<Rightarrow> string \<Rightarrow> byte list option" where
  "arr_strcpy xs off str =
     (if off + length str < length xs
      then Some (take off xs @ str @ [NUL] @ drop (off + length str + 1) xs) else None)"

definition arr_strncpy :: "byte list \<Rightarrow> string \<Rightarrow> nat \<Rightarrow> byte list option" where
  "arr_strncpy xs str n = (if n \<le> length xs then Some (padded n str @ drop n xs) else None)"

lemma arr_cstr_append: "NUL \<notin> set str \<Longrightarrow> arr_cstr (str @ NUL # ys) = Some str"
  by (simp add: arr_cstr_def takeWhile_append)

lemma arr_cstr_Some: "arr_cstr xs = Some str \<Longrightarrow> NUL \<notin> set str \<and> length str < length xs"
proof -
  assume a: "arr_cstr xs = Some str"
  then have t: "str = takeWhile (\<lambda>c. c \<noteq> NUL) xs" "NUL \<in> set xs"
    by (auto simp: arr_cstr_def split: if_splits)
  have "NUL \<notin> set str" unfolding t(1) by (auto dest: set_takeWhileD)
  moreover have "str \<noteq> xs" using calculation t(2) by auto
  moreover have "length str \<le> length xs" unfolding t(1) by (rule length_takeWhile_le)
  moreover have "length str = length xs \<Longrightarrow> str = xs"
    unfolding t(1) by (metis append_eq_conv_conj length_append takeWhile_dropWhile_id takeWhile_eq_take take_all order_refl)
  ultimately show ?thesis by (cases "length str = length xs") auto
qed

lemma length_arr_strcpy: "arr_strcpy xs off str = Some ys \<Longrightarrow> length ys = length xs"
  by (auto simp: arr_strcpy_def split: if_splits)

lemma arr_strcpy_fits:
  "off + length str < length xs \<Longrightarrow>
   arr_strcpy xs off str = Some (take off xs @ str @ [NUL] @ drop (off + length str + 1) xs)"
  by (simp add: arr_strcpy_def)

lemma arr_cstr_strcpy:
  "NUL \<notin> set str \<Longrightarrow> arr_strcpy xs 0 str = Some ys \<Longrightarrow> arr_cstr ys = Some str"
  by (auto simp: arr_strcpy_def arr_cstr_append split: if_splits)

lemma arr_cstr_strcpy_at:
  assumes "arr_strcpy xs off str = Some ys" and "NUL \<notin> set str" and "NUL \<notin> set (take off xs)"
  shows "arr_cstr ys = Some (take off xs @ str)"
proof -
  have ys: "ys = (take off xs @ str) @ NUL # drop (off + length str + 1) xs"
    using assms(1) by (auto simp: arr_strcpy_def split: if_splits)
  show ?thesis unfolding ys by (rule arr_cstr_append) (use assms(2,3) in simp)
qed

section \<open>The routines on memory do this\<close>

lemma strcpy_array:
  assumes "bytes_at m p xs" and "cstr m q str" and "apart (p + off) (Suc (length str)) q (Suc (length str))"
    and "arr_strcpy xs off str = Some ys"
  shows "\<exists>m'. strcpy m (p + off) q = Some m' \<and> bytes_at m' p ys"
proof -
  have len: "off + length str < length xs"
    and ys: "ys = take off xs @ (str @ [NUL]) @ drop (off + length str + 1) xs"
    using assms(4) by (auto simp: arr_strcpy_def split: if_splits)
  have "valid m (p + off) (Suc (length str))"
    using bytes_at_valid [OF assms(1)] by (rule valid_sub) (use len in simp_all)
  then have "strcpy m (p + off) q = Some (put m (p + off) (str @ [NUL]))"
    by (rule strcpy_put [OF assms(2) _ assms(3)])
  moreover have "bytes_at (put m (p + off) (str @ [NUL])) p ys"
    unfolding bytes_at_nth
  proof (intro allI impI)
    fix i
    assume "i < length ys"
    then have i: "i < length xs" using len by (simp add: ys)
    have "m (p + i) = Some (xs ! i)" using assms(1) i by (simp add: bytes_at_nth)
    consider "i < off" | "off \<le> i" "i < off + length str" | "i = off + length str" | "off + length str < i"
      by linarith
    then show "put m (p + off) (str @ [NUL]) (p + i) = Some (ys ! i)"
      using \<open>m (p + i) = Some (xs ! i)\<close> i len
      by cases (simp_all add: put_apply ys nth_append less_diff_conv2)
  qed
  ultimately show ?thesis by blast
qed

lemma strcpy_array_overflow:
  assumes "cstr m q str" and "apart (p + off) (Suc (length str)) q (Suc (length str))"
    and "arr_strcpy xs off str = None" and "off \<le> length xs" and "p + length xs \<notin> dom m"
  shows "strcpy m (p + off) q = None"
proof (rule strcpy_overflow [OF assms(1) _ _ assms(2)])
  show "length xs - off \<le> length str" using assms(3) by (simp add: arr_strcpy_def split: if_splits)
  show "p + off + (length xs - off) \<notin> dom m" using assms(4,5) by simp
qed

end
