(* ===== verification/Shell.thy ===== *)
theory Shell
  imports Kernel CArray CStringScan "HOL-Library.Signed_Division"
begin

text \<open>
  The shell, \<^verbatim>\<open>kernel/shell.c\<close>, up to line 271: its state, coloured output, the command parser,
  aliases, history, the information commands and the calculator. The tables are \<^verbatim>\<open>char\<close> arrays
  (theory \<open>CArray\<close>); a command word is a string.
\<close>

section \<open>State\<close>

definition MAX_INPUT :: nat where "MAX_INPUT = 128"
definition HISTORY_SIZE :: int where "HISTORY_SIZE = 10"
definition MAX_ARGS :: nat where "MAX_ARGS = 16"
definition MAX_ALIASES :: int where "MAX_ALIASES = 20"

record alias_entry =
  a_alias :: "byte list"
  a_command :: "byte list"

record shell =
  history :: "byte list list"
  history_pos :: int
  current_history :: int
  aliases :: "alias_entry list"
  alias_count :: int
  echo_enabled :: bool
  debug_mode :: bool
  color_enabled :: bool
  current_directory :: "byte list"
  last_exit_code :: u32

definition shell_init :: shell where
  "shell_init = \<lparr>history = replicate 10 (replicate 128 NUL), history_pos = 0, current_history = - 1,
     aliases = replicate 20 \<lparr>a_alias = replicate 32 NUL, a_command = replicate 128 NUL\<rparr>,
     alias_count = 0, echo_enabled = True, debug_mode = False, color_enabled = True,
     current_directory = CHR ''/'' # replicate 63 NUL, last_exit_code = 0\<rparr>"

text \<open>The whole system; \<open>frame\<close> is the address of the 1024-byte buffer in the frame of \<^verbatim>\<open>execute_command\<close>.\<close>

record sys =
  mach :: machine
  sh :: shell
  frame :: addr

section \<open>Output\<close>

definition put_str :: "string \<Rightarrow> varg list \<Rightarrow> sys \<Rightarrow> sys option" where
  "put_str fmt args s = do { m \<leftarrow> kprint fmt args (mach s); Some (s\<lparr>mach := m\<rparr>) }"

definition set_color :: "u8 \<Rightarrow> sys \<Rightarrow> sys" where
  "set_color color s = s\<lparr>mach := (mach s)\<lparr>screen := terminal_setcolor color 0 (screen (mach s))\<rparr>\<rparr>"

definition print_color :: "string \<Rightarrow> u8 \<Rightarrow> sys \<Rightarrow> sys option" where
  "print_color str color s =
     (if color_enabled (sh s)
      then do { s \<leftarrow> put_str ''%s'' [VStr (Some str)] (set_color color s); Some (set_color 15 s) }
      else put_str ''%s'' [VStr (Some str)] s)"

definition print_error :: "string \<Rightarrow> sys \<Rightarrow> sys option" where
  "print_error str s = print_color str 12 s"

definition print_success :: "string \<Rightarrow> sys \<Rightarrow> sys option" where
  "print_success str s = print_color str 10 s"

definition print_info :: "string \<Rightarrow> sys \<Rightarrow> sys option" where
  "print_info str s = print_color str 11 s"

definition print_warning :: "string \<Rightarrow> sys \<Rightarrow> sys option" where
  "print_warning str s = print_color str 14 s"

section \<open>Parsing\<close>

text \<open>
  \<^verbatim>\<open>parse_command\<close> runs on a memory of its own: the static 128-byte buffer, the delimiters and
  the input line. The token pointers are collected while \<^verbatim>\<open>argc < MAX_ARGS - 1\<close>, and read as
  strings when all cuts have been made. \<^verbatim>\<open>argc\<close> is the length of the result.
\<close>

definition PARSE_BUF :: addr where "PARSE_BUF = 4096"
definition DELIMS :: addr where "DELIMS = 8192"
definition INPUT :: addr where "INPUT = 12288"

definition parse_mem :: "string \<Rightarrow> mem" where
  "parse_mem input =
     put (put (put Map.empty PARSE_BUF (replicate MAX_INPUT NUL)) DELIMS [CHR '' '', CHR 0x09, NUL])
       INPUT (input @ [NUL])"

fun parse_loop :: "nat \<Rightarrow> mem \<Rightarrow> addr \<Rightarrow> addr \<Rightarrow> (mem \<times> addr list) option" where
  "parse_loop 0 m last' token = Some (m, [])"
| "parse_loop (Suc room) m last' token =
     (if token = NULL then Some (m, [])
      else do { (m, last', token') \<leftarrow> strtok m last' NULL DELIMS;
                (m, args) \<leftarrow> parse_loop room m last' token';
                Some (m, token # args) })"

fun read_args :: "mem \<Rightarrow> addr list \<Rightarrow> string list option" where
  "read_args m [] = Some []"
| "read_args m (p # ps) = do { str \<leftarrow> read_cstr m p; rest \<leftarrow> read_args m ps; Some (str # rest) }"

definition parse_command :: "string \<Rightarrow> string list option" where
  "parse_command input =
     do { m \<leftarrow> strcpy (parse_mem input) PARSE_BUF INPUT;
          (m, last', token) \<leftarrow> strtok m NULL PARSE_BUF DELIMS;
          (m, args) \<leftarrow> parse_loop (MAX_ARGS - 1) m last' token;
          read_args m args }"

section \<open>Aliases\<close>

definition alias_at :: "int \<Rightarrow> shell \<Rightarrow> alias_entry" where
  "alias_at i h = aliases h ! nat i"

definition set_alias :: "int \<Rightarrow> alias_entry \<Rightarrow> sys \<Rightarrow> sys" where
  "set_alias i e s = s\<lparr>sh := (sh s)\<lparr>aliases := (aliases (sh s))[nat i := e]\<rparr>\<rparr>"

text \<open>An entry is one object of 160 bytes, the name's 32 followed by the command's 128: a name without a NUL among its
  bytes runs on into the command, for the reader and for \<^verbatim>\<open>strcpy\<close>.\<close>

definition entry_name :: "alias_entry \<Rightarrow> string option" where
  "entry_name e = arr_cstr (a_alias e @ a_command e)"

text \<open>The first entry below \<^verbatim>\<open>alias_count\<close> with that name.\<close>

fun find_alias :: "alias_entry list \<Rightarrow> string \<Rightarrow> nat \<Rightarrow> nat option option" where
  "find_alias [] nm i = Some None"
| "find_alias (e # es) nm i =
     do { str \<leftarrow> entry_name e;
          if strcmp_spec str nm = 0 then Some (Some i) else find_alias es nm (i + 1) }"

definition add_alias :: "string \<Rightarrow> string \<Rightarrow> sys \<Rightarrow> sys option" where
  "add_alias alias_name command s =
     (let h = sh s in
      if alias_count h \<ge> MAX_ALIASES then print_error (ln ''Maximum aliases reached'') s
      else do {
        hit \<leftarrow> find_alias (take (nat (alias_count h)) (aliases h)) alias_name 0;
        case hit of
          Some i \<Rightarrow> do {
            let e = alias_at (int i) h;
            c \<leftarrow> arr_strcpy (a_command e) 0 command;
            print_success (ln ''Alias updated'') (set_alias (int i) (e\<lparr>a_command := c\<rparr>) s) }
        | None \<Rightarrow> do {
            let e = alias_at (alias_count h) h;
            a \<leftarrow> arr_strcpy (a_alias e @ a_command e) 0 alias_name;
            c \<leftarrow> arr_strcpy (drop 32 a) 0 command;
            let s = set_alias (alias_count h) \<lparr>a_alias = take 32 a, a_command = c\<rparr> s;
            print_success (ln ''Alias added'') (s\<lparr>sh := (sh s)\<lparr>alias_count := alias_count h + 1\<rparr>\<rparr>) } })"

text \<open>\<open>Some None\<close> when the command is not an alias: the code then returns its argument.\<close>

definition resolve_alias :: "string \<Rightarrow> shell \<Rightarrow> string option option" where
  "resolve_alias cmd h =
     do { hit \<leftarrow> find_alias (take (nat (alias_count h)) (aliases h)) cmd 0;
          case hit of
            None \<Rightarrow> Some None
          | Some i \<Rightarrow> do { c \<leftarrow> arr_cstr (a_command (alias_at (int i) h)); Some (Some c) } }"

fun list_alias_loop :: "alias_entry list \<Rightarrow> sys \<Rightarrow> sys option" where
  "list_alias_loop [] s = Some s"
| "list_alias_loop (e # es) s =
     do { a \<leftarrow> entry_name e; c \<leftarrow> arr_cstr (a_command e);
          s \<leftarrow> put_str (ln ''  %s -> %s'') [VStr (Some a), VStr (Some c)] s;
          list_alias_loop es s }"

definition list_aliases :: "sys \<Rightarrow> sys option" where
  "list_aliases s =
     (if alias_count (sh s) = 0 then print_info (ln ''No aliases defined'') s
      else do { s \<leftarrow> print_info (ln ''Defined aliases:'') s;
                list_alias_loop (take (nat (alias_count (sh s))) (aliases (sh s))) s })"

section \<open>History\<close>

definition add_to_history :: "string \<Rightarrow> shell \<Rightarrow> shell option" where
  "add_to_history cmd h =
     (if length cmd = 0 then Some h
      else do {
        same \<leftarrow> (if history_pos h > 0
                 then do { prev \<leftarrow> arr_cstr (history h ! nat (history_pos h - 1));
                           Some (strcmp_spec prev cmd = 0) }
                 else Some False);
        if same then Some h
        else do {
          row \<leftarrow> arr_strcpy (history h ! nat (history_pos h)) 0 cmd;
          Some (h\<lparr>history := (history h)[nat (history_pos h) := row],
                  history_pos := (history_pos h + 1) mod HISTORY_SIZE\<rparr>) } })"

fun show_history_loop :: "int list \<Rightarrow> sys \<Rightarrow> sys option" where
  "show_history_loop [] s = Some s"
| "show_history_loop (i # is) s =
     do { let idx = (history_pos (sh s) + i) mod HISTORY_SIZE;
          str \<leftarrow> arr_cstr (history (sh s) ! nat idx);
          s \<leftarrow> (if str \<noteq> [] then put_str (ln '' %d: %s'') [VInt (word_of_int (i + 1)), VStr (Some str)] s
                else Some s);
          show_history_loop is s }"

definition show_history :: "sys \<Rightarrow> sys option" where
  "show_history s =
     do { s \<leftarrow> print_info (ln ''Command history:'') s; show_history_loop [0..HISTORY_SIZE - 1] s }"

section \<open>Information\<close>

definition show_system_info :: "sys \<Rightarrow> sys option" where
  "show_system_info s =
     do { s \<leftarrow> print_info (ln ''BasedOS System Information'') s;
          s \<leftarrow> print_info (ln ''=========================='') s;
          s \<leftarrow> put_str (ln ''OS Version: BasedOS v0.1'') [] s;
          s \<leftarrow> put_str (ln ''Architecture: x86 32-bit'') [] s;
          s \<leftarrow> put_str (ln ''Uptime: %d seconds'') [VInt (get_uptime (mach s))] s;
          let (total_mem, free_mem) = get_memory_stats (mach s);
          s \<leftarrow> put_str (ln ''Memory: %d KB total, %d KB free'') [VInt (total_mem div 1024), VInt (free_mem div 1024)] s;
          dir \<leftarrow> arr_cstr (current_directory (sh s));
          s \<leftarrow> put_str (ln ''Current directory: %s'') [VStr (Some dir)] s;
          s \<leftarrow> put_str (ln ''Debug mode: %s'') [VStr (Some (if debug_mode (sh s) then ''ON'' else ''OFF''))] s;
          s \<leftarrow> put_str (ln ''Color mode: %s'') [VStr (Some (if color_enabled (sh s) then ''ON'' else ''OFF''))] s;
          put_str (ln ''Last exit code: %d'') [VInt (last_exit_code (sh s))] s }"

definition show_memory_info :: "sys \<Rightarrow> sys option" where
  "show_memory_info s =
     (let (total_mem, free_mem) = get_memory_stats (mach s); used = total_mem - free_mem in
      do { s \<leftarrow> print_info (ln ''Memory Information'') s;
           s \<leftarrow> print_info (ln ''=================='') s;
           s \<leftarrow> put_str (ln ''Total memory: %d KB (%d bytes)'') [VInt (total_mem div 1024), VInt total_mem] s;
           s \<leftarrow> put_str (ln ''Free memory: %d KB (%d bytes)'') [VInt (free_mem div 1024), VInt free_mem] s;
           s \<leftarrow> put_str (ln ''Used memory: %d KB (%d bytes)'') [VInt (used div 1024), VInt used] s;
           if total_mem = 0 then None
           else do {
             let usage_percent = used * 100 div total_mem;
             s \<leftarrow> put_str (ln ''Memory usage: %d%%'') [VInt usage_percent] s;
             if sint usage_percent > 80 then print_warning (ln ''Warning: High memory usage!'') s
             else Some s } })"

text \<open>The banner; \<^verbatim>\<open>^\<close> stands for a backslash.\<close>

definition banner_line :: "string \<Rightarrow> string" where
  "banner_line str = ln (map (\<lambda>c. if c = CHR ''^'' then CHR 0x5C else c) str)"

definition display_banner :: "sys \<Rightarrow> sys option" where
  "display_banner s =
     do { s \<leftarrow> print_info (banner_line ''  ____                   _  ___  ____'') s;
          s \<leftarrow> print_info (banner_line '' | __ )  __ _ ___  ___  __| |/ _ ^/ ___|'') s;
          s \<leftarrow> print_info (banner_line '' |  _ ^ / _` / __|/ _ ^/ _` | | | ^___ ^'') s;
          s \<leftarrow> print_info (banner_line '' | |_) | (_| ^__ ^  __/ (_| | |_| |___) |'') s;
          s \<leftarrow> print_info (banner_line '' |____/ ^__,_|___/^___|^__,_|^___/|____/'') s;
          put_str (ln '''') [] s }"

text \<open>
  The busy wait: \<^verbatim>\<open>milliseconds * 1000\<close> rounds of \<^verbatim>\<open>nop\<close>, an instruction that changes nothing. A
  product that is not positive gives no round. The simplifier skips a wait, so a run evaluates
  without counting it down.
\<close>

definition nop :: "sys \<Rightarrow> sys" where
  "nop s = s"

fun delay_loop :: "nat \<Rightarrow> sys \<Rightarrow> sys" where
  "delay_loop 0 s = s"
| "delay_loop (Suc rounds) s = delay_loop rounds (nop s)"

definition delay :: "int \<Rightarrow> sys \<Rightarrow> sys" where
  "delay milliseconds s = delay_loop (nat (milliseconds * 1000)) s"

lemma delay_keeps [simp]: "delay milliseconds s = s"
proof -
  have "delay_loop rounds s = s" for rounds s
    by (induction rounds arbitrary: s) (simp_all add: nop_def)
  then show ?thesis by (simp only: delay_def)
qed

text \<open>Speaker output goes to the port log.\<close>

definition sys_beep :: "u32 \<Rightarrow> sys \<Rightarrow> sys" where
  "sys_beep frequency s =
     (let m = mach s; i = irq m in
      s\<lparr>mach := m\<lparr>irq := i\<lparr>iports := beep frequency (speaker_in m) (iports i)\<rparr>\<rparr>\<rparr>)"

definition sys_nosound :: "sys \<Rightarrow> sys" where
  "sys_nosound s =
     (let m = mach s; i = irq m in
      s\<lparr>mach := m\<lparr>irq := i\<lparr>iports := nosound (speaker_in m) (iports i)\<rparr>\<rparr>\<rparr>)"

definition play_startup_sound :: "sys \<Rightarrow> sys" where
  "play_startup_sound s =
     fold (\<lambda>note s. delay 50 (sys_nosound (delay 200 (sys_beep note s)))) [523, 587, 659, 698, 784, 880, 988, 1047] s"

fun echo_loop :: "string list \<Rightarrow> sys \<Rightarrow> sys option" where
  "echo_loop [] s = Some s"
| "echo_loop (a # as) s =
     do { s \<leftarrow> put_str ''%s'' [VStr (Some a)] s;
          s \<leftarrow> (if as \<noteq> [] then put_str '' '' [] s else Some s);
          echo_loop as s }"

definition echo_test :: "string list \<Rightarrow> sys \<Rightarrow> sys option" where
  "echo_test args s =
     (if length args < 2 then put_str (ln ''Usage: echo <text>'') [] s
      else do { s \<leftarrow> echo_loop (tl args) s; put_str (ln '''') [] s })"

section \<open>Calculator\<close>

text \<open>
  The result of the \<^verbatim>\<open>switch\<close>: \<open>None\<close> where the division instruction traps, which it does for the
  divisor 0 and when the quotient does not fit 32 bits.
\<close>

datatype calc_result = Value u32 | DivByZero | BadOperator

definition idiv_traps :: "u32 \<Rightarrow> u32 \<Rightarrow> bool" where
  "idiv_traps a b \<longleftrightarrow> b = 0 \<or> sint a sdiv sint b \<ge> 2 ^ 31"

definition calc_op :: "byte \<Rightarrow> u32 \<Rightarrow> u32 \<Rightarrow> calc_result option" where
  "calc_op opr a b =
     (if opr = CHR ''+'' then Some (Value (a + b))
      else if opr = CHR ''-'' then Some (Value (a - b))
      else if opr = CHR ''*'' then Some (Value (a * b))
      else if opr = CHR ''/'' then
        (if b = 0 then Some DivByZero
         else if idiv_traps a b then None else Some (Value (word_of_int (sint a sdiv sint b))))
      else if opr = CHR ''%'' then
        (if b = 0 then Some DivByZero
         else if idiv_traps a b then None else Some (Value (word_of_int (sint a smod sint b))))
      else Some BadOperator)"

definition calculator :: "string list \<Rightarrow> sys \<Rightarrow> sys option" where
  "calculator args s =
     (if length args \<noteq> 4
      then do { s \<leftarrow> put_str (ln ''Usage: calc <num1> <operator> <num2>'') [] s;
                put_str (ln ''Operators: +, -, *, /, %'') [] s }
      else
        let a = (word_of_int (atoi_spec (args ! 1)) :: u32); b = word_of_int (atoi_spec (args ! 3));
            opr = hd (args ! 2 @ [NUL]) in
        do { r \<leftarrow> calc_op opr a b;
             case r of
               DivByZero \<Rightarrow> print_error (ln ''Error: Division by zero'') s
             | BadOperator \<Rightarrow> print_error (ln ''Error: Unknown operator'') s
             | Value v \<Rightarrow>
                 put_str (ln ''%d %c %d = %d'') [VInt a, VInt (word_of_int (schar opr)), VInt b, VInt v] s })"

end
