(* ===== verification/FsTest.thy ===== *)
theory FsTest
  imports Kernel
begin

text \<open>
  The self test of the file system, \<^verbatim>\<open>fs/fs_test.c\<close>, which \<^verbatim>\<open>kmain\<close> runs after it has mounted
  the root for the first time. The address of the test string and that of the 128-byte buffer
  on the stack are arguments.
\<close>

definition test_data :: string where
  "test_data = ''Hello, BasedOS File System!''"

definition on_fs :: "(fs_state \<Rightarrow> ('a \<times> fs_state) option) \<Rightarrow> machine \<Rightarrow> ('a \<times> machine) option" where
  "on_fs f m = do { (r, s) \<leftarrow> f (fs m); Some (r, m\<lparr>fs := s\<rparr>) }"

text \<open>The listing loop; entries with an empty name are skipped.\<close>

partial_function (option) fs_test_list :: "addr \<Rightarrow> u32 \<Rightarrow> machine \<Rightarrow> machine option" where
  "fs_test_list dir i m =
     do { (entry, m) \<leftarrow> on_fs (vfs_readdir dir i) m;
          case entry of
            None \<Rightarrow> Some m
          | Some e \<Rightarrow> do {
              m \<leftarrow> (if d_name e \<noteq> [] then kprint (ln ''  %s'') [VStr (Some (d_name e))] m else Some m);
              fs_test_list dir (i + 1) m } }"

declare fs_test_list.simps [code]

definition fs_test_read :: "addr \<Rightarrow> machine \<Rightarrow> machine option" where
  "fs_test_read buf m =
     do { m \<leftarrow> kprint (ln ''Reading back test file...'') [] m;
          (fd, m) \<leftarrow> on_fs (open_fd ''/test.txt'' O_RDONLY) m;
          if fd < 0 then kprint (ln ''Failed to open test file for reading'') [] m
          else do {
            (bytes_read, m) \<leftarrow> on_fs (read_fd fd buf 127) m;
            if bytes_read \<le> 0
            then do { m \<leftarrow> kprint (ln ''Failed to read from test file'') [] m;
                      (r, m) \<leftarrow> on_fs (close_fd fd) m; Some m }
            else do {
              b \<leftarrow> st (bytes (fs m)) (buf + nat bytes_read) NUL;
              (r, m) \<leftarrow> on_fs (close_fd fd) (m\<lparr>fs := (fs m)\<lparr>bytes := b\<rparr>\<rparr>);
              str \<leftarrow> read_cstr (bytes (fs m)) buf;
              m \<leftarrow> kprint (ln ''Read %d bytes: %s'') [VInt (word_of_int bytes_read), VStr (Some str)] m;
              m \<leftarrow> kprint (ln ''Root directory contents:'') [] m;
              (dir, m) \<leftarrow> on_fs (vfs_open ''/'' 0) m;
              if dir = NULL then kprint (ln ''Failed to open root directory'') [] m
              else do {
                m \<leftarrow> fs_test_list dir 0 m;
                s \<leftarrow> vfs_close dir (fs m);
                kprint (ln ''=== File System Test Complete ==='') [] (m\<lparr>fs := s\<rparr>) } } } }"

definition fs_test :: "addr \<Rightarrow> addr \<Rightarrow> machine \<Rightarrow> machine option" where
  "fs_test data_addr buf m =
     do { m \<leftarrow> kprint (ln ''=== Starting File System Test ==='') [] m;
          s \<leftarrow> vfs_initialize (fs m);
          s \<leftarrow> memfs_initialize s;
          (r, m) \<leftarrow> on_fs (vfs_mount ''/'' ''memfs'') (m\<lparr>fs := s\<rparr>);
          if r \<noteq> 0 then kprint (ln ''Failed to mount root filesystem!'') [] m
          else do {
            m \<leftarrow> kprint (ln ''Mounted memory filesystem at /'') [] m;
            m \<leftarrow> kprint (ln ''Creating test file...'') [] m;
            (fd, m) \<leftarrow> on_fs (open_fd ''/test.txt'' (O_WRONLY OR O_CREAT)) m;
            if fd < 0 then kprint (ln ''Failed to create test file'') [] m
            else do {
              len \<leftarrow> strlen (bytes (fs m)) data_addr;
              (written, m) \<leftarrow> on_fs (write_fd fd data_addr (of_nat len)) m;
              if written \<noteq> int len
              then do { m \<leftarrow> kprint (ln ''Failed to write to test file'') [] m;
                        (r, m) \<leftarrow> on_fs (close_fd fd) m; Some m }
              else do {
                (r, m) \<leftarrow> on_fs (close_fd fd) m;
                m \<leftarrow> kprint (ln ''Wrote %d bytes to /test.txt'') [VInt (word_of_int written)] m;
                fs_test_read buf m } } } }"

end
