(* ===== verification/ShellExec.thy ===== *)
theory ShellExec
  imports Shell FsTest
begin

text \<open>
  The commands of the shell: \<^verbatim>\<open>execute_command\<close> of \<^verbatim>\<open>kernel/shell.c\<close>, one definition per branch
  of its dispatch. A branch ends by returning, by falling through to the debug report, or by
  halting the machine for good.
\<close>

datatype flow = Return sys | Fall sys | Halt sys

datatype outcome = Running sys | Halted sys

definition set_exit :: "u32 \<Rightarrow> sys \<Rightarrow> sys" where
  "set_exit code s = s\<lparr>sh := (sh s)\<lparr>last_exit_code := code\<rparr>\<rparr>"

definition sys_fs :: "(fs_state \<Rightarrow> ('a \<times> fs_state) option) \<Rightarrow> sys \<Rightarrow> ('a \<times> sys) option" where
  "sys_fs f s = do { (r, m) \<leftarrow> on_fs f (mach s); Some (r, s\<lparr>mach := m\<rparr>) }"

definition sys_bytes :: "sys \<Rightarrow> mem" where
  "sys_bytes s = bytes (fs (mach s))"

definition set_bytes :: "mem \<Rightarrow> sys \<Rightarrow> sys" where
  "set_bytes b s = s\<lparr>mach := (mach s)\<lparr>fs := (fs (mach s))\<lparr>bytes := b\<rparr>\<rparr>\<rparr>"

fun put_lines :: "string list \<Rightarrow> sys \<Rightarrow> sys option" where
  "put_lines [] s = Some s"
| "put_lines (l # ls) s = do { s \<leftarrow> put_str (ln l) [] s; put_lines ls s }"

section \<open>Help, settings, aliases\<close>

definition help_lines :: "string list" where
  "help_lines =
     [''  help          - Show this help'',
      ''  clear         - Clear screen'',
      ''  echo          - Print arguments to the screen'',
      ''  exit          - Exit the shell'',
      ''  shutdown      - Shut down the system'',
      ''  reboot        - Reboot the system'',
      ''  beep          - Play a beep sound'',
      ''  memory        - Show memory information'',
      ''  uptime        - Show system uptime'',
      ''  ls            - List directory contents'',
      ''  cd <dir>      - Change directory'',
      ''  pwd           - Print working directory'',
      ''  cat <file>    - Display file contents'',
      ''  mkdir <dir>   - Create a directory'',
      ''  touch <file>  - Create an empty file'',
      ''  rm <file>     - Remove a file or directory'',
      ''  write <file>  - Write text to a file'',
      ''  date          - Show system uptime'',
      ''  banner        - Show ASCII banner'',
      ''  alias         - Manage command aliases'',
      ''  set           - Change shell settings'',
      ''  history       - Show command history'',
      ''  sysinfo       - Show system information'',
      ''  calc          - Simple calculator'',
      ''  sound         - Play startup sound'']"

definition cmd_help :: "sys \<Rightarrow> sys option" where
  "cmd_help s = do { s \<leftarrow> print_info (ln ''Available commands:'') s; put_lines help_lines s }"

definition cmd_alias :: "string list \<Rightarrow> sys \<Rightarrow> sys option" where
  "cmd_alias args s =
     (if length args = 1 then list_aliases s
      else if length args = 3 then add_alias (args ! 1) (args ! 2) s
      else put_str (ln ''Usage: alias [name] [command]'') [] s)"

definition on_off :: "bool \<Rightarrow> varg" where
  "on_off b = VStr (Some (if b then ''on'' else ''off''))"

definition cmd_set :: "string list \<Rightarrow> sys \<Rightarrow> sys option" where
  "cmd_set args s =
     (if length args = 1
      then do { s \<leftarrow> put_str (ln ''Shell settings:'') [] s;
                s \<leftarrow> put_str (ln ''  debug: %s'') [on_off (debug_mode (sh s))] s;
                s \<leftarrow> put_str (ln ''  color: %s'') [on_off (color_enabled (sh s))] s;
                put_str (ln ''  echo: %s'') [on_off (echo_enabled (sh s))] s }
      else if length args = 3
      then (let on = (strcmp_spec (args ! 2) ''on'' = 0) in
        if strcmp_spec (args ! 1) ''debug'' = 0
        then print_success (ln ''Debug mode updated'') (s\<lparr>sh := (sh s)\<lparr>debug_mode := on\<rparr>\<rparr>)
        else if strcmp_spec (args ! 1) ''color'' = 0
        then print_success (ln ''Color mode updated'') (s\<lparr>sh := (sh s)\<lparr>color_enabled := on\<rparr>\<rparr>)
        else if strcmp_spec (args ! 1) ''echo'' = 0
        then print_success (ln ''Echo mode updated'') (s\<lparr>sh := (sh s)\<lparr>echo_enabled := on\<rparr>\<rparr>)
        else print_error (ln ''Unknown setting'') s)
      else put_str (ln ''Usage: set [setting] [on|off]'') [] s)"

section \<open>Files and directories\<close>

definition cmd_cd :: "string list \<Rightarrow> sys \<Rightarrow> sys option" where
  "cmd_cd args s =
     (let path = (if length args > 1 then args ! 1 else ''/'') in
      do { (node, s) \<leftarrow> sys_fs (vfs_finddir (fs_root (fs (mach s))) path) s;
           is_dir \<leftarrow> (if node \<noteq> NULL
                     then do { n \<leftarrow> fs_nodes (fs (mach s)) node; Some (n_flags n AND FS_DIRECTORY \<noteq> 0) }
                     else Some False);
           if is_dir
           then do { d \<leftarrow> arr_strncpy (current_directory (sh s)) path 63;
                     d \<leftarrow> arr_set d 63 NUL;
                     Some (s\<lparr>sh := (sh s)\<lparr>current_directory := d\<rparr>\<rparr>) }
           else do { s \<leftarrow> print_error ''No such directory: '' s;
                     s \<leftarrow> put_str (ln ''%s'') [VStr (Some path)] s;
                     Some (set_exit 1 s) } })"

partial_function (option) ls_loop :: "addr \<Rightarrow> u32 \<Rightarrow> sys \<Rightarrow> sys option" where
  "ls_loop dir i s =
     do { (entry, s) \<leftarrow> sys_fs (vfs_readdir dir i) s;
          case entry of
            None \<Rightarrow> Some s
          | Some e \<Rightarrow> do { s \<leftarrow> put_str (ln ''  %s'') [VStr (Some (d_name e))] s; ls_loop dir (i + 1) s } }"

declare ls_loop.simps [code]

definition sys_close_node :: "addr \<Rightarrow> sys \<Rightarrow> sys option" where
  "sys_close_node dir s =
     do { f \<leftarrow> vfs_close dir (fs (mach s)); Some (s\<lparr>mach := (mach s)\<lparr>fs := f\<rparr>\<rparr>) }"

definition cmd_ls :: "sys \<Rightarrow> flow option" where
  "cmd_ls s =
     do { (dir, s) \<leftarrow> sys_fs (vfs_open ''/'' 0) s;
          if dir = NULL
          then do { s \<leftarrow> put_str (ln ''Error: Could not open directory /'') [] s; Some (Return s) }
          else do {
            n \<leftarrow> fs_nodes (fs (mach s)) dir;
            if n_flags n AND 0x7 \<noteq> FS_DIRECTORY
            then do { s \<leftarrow> put_str (ln ''Error: / is not a directory'') [] s;
                      s \<leftarrow> sys_close_node dir s; Some (Return s) }
            else do { s \<leftarrow> put_str (ln ''Contents of /'') [] s;
                      s \<leftarrow> ls_loop dir 0 s;
                      s \<leftarrow> sys_close_node dir s; Some (Fall s) } } }"

partial_function (option) cat_loop :: "int \<Rightarrow> sys \<Rightarrow> sys option" where
  "cat_loop fd s =
     do { (bytes_read, s) \<leftarrow> sys_fs (read_fd fd (frame s) 1023) s;
          if bytes_read > 0
          then do { b \<leftarrow> st (sys_bytes s) (frame s + nat bytes_read) NUL;
                    str \<leftarrow> read_cstr b (frame s);
                    s \<leftarrow> put_str ''%s'' [VStr (Some str)] (set_bytes b s);
                    cat_loop fd s }
          else Some s }"

declare cat_loop.simps [code]

definition cmd_cat :: "string list \<Rightarrow> sys \<Rightarrow> flow option" where
  "cmd_cat args s =
     (if length args < 2
      then do { s \<leftarrow> put_str (ln ''Usage: cat <file>'') [] s; Some (Return s) }
      else do {
        (fd, s) \<leftarrow> sys_fs (open_fd (args ! 1) O_RDONLY) s;
        if fd < 0
        then do { s \<leftarrow> put_str (ln ''Error: Could not open file %s'') [VStr (Some (args ! 1))] s; Some (Return s) }
        else do { s \<leftarrow> cat_loop fd s;
                  (r, s) \<leftarrow> sys_fs (close_fd fd) s;
                  s \<leftarrow> put_str (ln '''') [] s; Some (Fall s) } })"

definition cmd_stub :: "string \<Rightarrow> string \<Rightarrow> string list \<Rightarrow> sys \<Rightarrow> flow option" where
  "cmd_stub usage msg args s =
     (if length args < 2
      then do { s \<leftarrow> put_str (ln usage) [] s; Some (Return s) }
      else do { s \<leftarrow> put_str (ln msg) [] s; Some (Fall s) })"

definition cmd_touch :: "string list \<Rightarrow> sys \<Rightarrow> flow option" where
  "cmd_touch args s =
     (if length args < 2
      then do { s \<leftarrow> put_str (ln ''Usage: touch <file>'') [] s; Some (Return s) }
      else do {
        (fd, s) \<leftarrow> sys_fs (open_fd (args ! 1) (O_CREAT OR O_WRONLY)) s;
        if fd < 0
        then do { s \<leftarrow> put_str (ln ''Error: Could not create file %s'') [VStr (Some (args ! 1))] s; Some (Return s) }
        else do { (r, s) \<leftarrow> sys_fs (close_fd fd) s;
                  s \<leftarrow> put_str (ln ''Created file %s'') [VStr (Some (args ! 1))] s; Some (Fall s) } })"

text \<open>\<^verbatim>\<open>strcat\<close> of a command word onto the string at an address.\<close>

fun store_bytes :: "mem \<Rightarrow> addr \<Rightarrow> byte list \<Rightarrow> mem option" where
  "store_bytes b p [] = Some b"
| "store_bytes b p (c # cs) = do { b \<leftarrow> st b p c; store_bytes b (p + 1) cs }"

definition cat_str :: "mem \<Rightarrow> addr \<Rightarrow> string \<Rightarrow> mem option" where
  "cat_str b p str = do { n \<leftarrow> strlen b p; store_bytes b (p + n) (str @ [NUL]) }"

fun join_args :: "mem \<Rightarrow> addr \<Rightarrow> string list \<Rightarrow> mem option" where
  "join_args b p [] = Some b"
| "join_args b p (a # as) =
     do { b \<leftarrow> cat_str b p a;
          b \<leftarrow> (if as \<noteq> [] then cat_str b p '' '' else Some b);
          join_args b p as }"

definition cmd_write :: "string list \<Rightarrow> sys \<Rightarrow> flow option" where
  "cmd_write args s =
     (if length args < 3
      then do { s \<leftarrow> put_str (ln ''Usage: write <file> <text>'') [] s; Some (Return s) }
      else do {
        (fd, s) \<leftarrow> sys_fs (open_fd (args ! 1) (O_WRONLY OR O_CREAT)) s;
        if fd < 0
        then do { s \<leftarrow> put_str (ln ''Error: Could not open file %s'') [VStr (Some (args ! 1))] s; Some (Return s) }
        else do {
          b \<leftarrow> memset (sys_bytes s) (frame s) 0 1024;
          b \<leftarrow> join_args b (frame s) (drop 2 args);
          len \<leftarrow> strlen b (frame s);
          (written, s) \<leftarrow> sys_fs (write_fd fd (frame s) (of_nat len)) (set_bytes b s);
          s \<leftarrow> (if written \<noteq> int len then put_str (ln ''Error: Could not write to file'') [] s
                else put_str (ln ''Wrote %d bytes to %s'') [VInt (word_of_int written), VStr (Some (args ! 1))] s);
          (r, s) \<leftarrow> sys_fs (close_fd fd) s;
          Some (Fall s) } })"

text \<open>A word that is no command: perhaps a file in the root directory.\<close>

definition cmd_other :: "string list \<Rightarrow> sys \<Rightarrow> sys option" where
  "cmd_other args s =
     do { (node, s) \<leftarrow> sys_fs (vfs_finddir (fs_root (fs (mach s))) (args ! 0)) s;
          if node \<noteq> NULL
          then do { s \<leftarrow> print_error (ln ''Execution of binary files is not yet implemented'') s;
                    Some (set_exit 126 s) }
          else do { s \<leftarrow> print_error ''Command not found: '' s;
                    s \<leftarrow> put_str (ln ''%s'') [VStr (Some (args ! 0))] s;
                    Some (set_exit 127 s) } }"

section \<open>Dispatch\<close>

definition cmd_shutdown :: "sys \<Rightarrow> flow option" where
  "cmd_shutdown s =
     do { s \<leftarrow> print_info (ln ''Shutting down system...'') s;
          Some (Halt (s\<lparr>mach := kernel_shutdown (mach s)\<rparr>)) }"

definition cmd_reboot :: "sys \<Rightarrow> flow option" where
  "cmd_reboot s =
     do { s \<leftarrow> print_warning (ln ''Rebooting system...'') s;
          let m = mach s;
          let i = irq m;
          Some (Halt (s\<lparr>mach := m\<lparr>irq := i\<lparr>iports := outb 0x64 0xFE (iports i)\<rparr>\<rparr>\<rparr>)) }"

definition cmd_pwd :: "sys \<Rightarrow> sys option" where
  "cmd_pwd s =
     do { d \<leftarrow> arr_cstr (current_directory (sh s)); put_str (ln ''%s'') [VStr (Some d)] s }"

definition cmd_uptime :: "sys \<Rightarrow> sys option" where
  "cmd_uptime s = put_str (ln ''System uptime: %d seconds'') [VInt (get_uptime (mach s))] s"

definition cmd_clear :: "sys \<Rightarrow> sys" where
  "cmd_clear s = s\<lparr>mach := (mach s)\<lparr>screen := terminal_clear (screen (mach s))\<rparr>\<rparr>"

definition falls :: "sys option \<Rightarrow> flow option" where
  "falls r = map_option Fall r"

definition dispatch :: "string list \<Rightarrow> sys \<Rightarrow> flow option" where
  "dispatch args s =
     (let is = (\<lambda>name. strcmp_spec (args ! 0) name = 0) in
      if is ''help'' then falls (cmd_help s)
      else if is ''clear'' then Some (Fall (cmd_clear s))
      else if is ''echo'' then falls (echo_test args s)
      else if is ''exit'' then map_option Return (print_info (ln ''Goodbye!'') s)
      else if is ''shutdown'' then cmd_shutdown s
      else if is ''reboot'' then cmd_reboot s
      else if is ''pwd'' then falls (cmd_pwd s)
      else if is ''cd'' then falls (cmd_cd args s)
      else if is ''beep'' then Some (Fall (sys_nosound (delay 500 (sys_beep 1000 s))))
      else if is ''memory'' then falls (show_memory_info s)
      else if is ''uptime'' then falls (cmd_uptime s)
      else if is ''ls'' then cmd_ls s
      else if is ''cat'' then cmd_cat args s
      else if is ''mkdir'' then cmd_stub ''Usage: mkdir <directory>'' ''mkdir: Not implemented yet'' args s
      else if is ''touch'' then cmd_touch args s
      else if is ''rm'' then cmd_stub ''Usage: rm <file>'' ''rm: Not implemented yet'' args s
      else if is ''write'' then cmd_write args s
      else if is ''date'' then falls (cmd_uptime s)
      else if is ''banner'' then falls (display_banner s)
      else if is ''alias'' then falls (cmd_alias args s)
      else if is ''set'' then falls (cmd_set args s)
      else if is ''history'' then falls (show_history s)
      else if is ''sysinfo'' then falls (show_system_info s)
      else if is ''calc'' then falls (calculator args s)
      else if is ''sound'' then Some (Fall (play_startup_sound s))
      else falls (cmd_other args s))"

definition debug_report :: "string list \<Rightarrow> sys \<Rightarrow> sys option" where
  "debug_report args s =
     (if debug_mode (sh s)
      then put_str (ln (''[DEBUG] Command '' @ [CHR 0x27] @ ''%s'' @ [CHR 0x27] @ '' exited with code %d''))
        [VStr (Some (args ! 0)), VInt (last_exit_code (sh s))] s
      else Some s)"

text \<open>
  The whole function. The words of a resolved alias replace those of the input, arguments and
  all; an alias for no word at all leaves a null command word to be compared.
\<close>

definition execute_command :: "string \<Rightarrow> sys \<Rightarrow> outcome option" where
  "execute_command input s =
     (if length input = 0 then Some (Running s)
      else do {
        h \<leftarrow> add_to_history input (sh s);
        let s = s\<lparr>sh := h\<rparr>;
        args \<leftarrow> parse_command input;
        if args = [] then Some (Running s)
        else do {
          resolved \<leftarrow> resolve_alias (args ! 0) (sh s);
          args \<leftarrow> (case resolved of None \<Rightarrow> Some args | Some cmd \<Rightarrow> parse_command cmd);
          if args = [] then None
          else do {
            flow \<leftarrow> dispatch args (set_exit 0 s);
            case flow of
              Return s \<Rightarrow> Some (Running s)
            | Halt s \<Rightarrow> Some (Halted s)
            | Fall s \<Rightarrow> map_option Running (debug_report args s) } } })"

end
