(* ===== verification/ShellMain.thy ===== *)
theory ShellMain
  imports ShellExec
begin

text \<open>
  The shell's main loop, \<^verbatim>\<open>start_shell\<close> of \<^verbatim>\<open>kernel/shell.c\<close>, and the kernel's entry point,
  \<^verbatim>\<open>kmain\<close> of \<^verbatim>\<open>kernel/kernel.c\<close>. The line being edited is the 128-byte array \<^verbatim>\<open>input\<close> with its
  \<^verbatim>\<open>position\<close>. The keyboard is a list of scancodes; waiting for a key that never comes has no
  result, so the loop ends only by the \<^verbatim>\<open>exit\<close> command or by halting the machine.
\<close>

section \<open>The line editor\<close>

record line =
  input :: "byte list"
  position :: int

definition rubout :: string where
  "rubout = [CHR 0x08, CHR '' '', CHR 0x08]"

text \<open>\<^verbatim>\<open>while (position > 0)\<close>: one \<^verbatim>\<open>printk\<close> of the three characters per place.\<close>

fun erase_loop :: "nat \<Rightarrow> sys \<Rightarrow> sys option" where
  "erase_loop 0 s = Some s"
| "erase_loop (Suc n) s = do { s \<leftarrow> put_str rubout [] s; erase_loop n s }"

definition erase_line :: "sys \<Rightarrow> line \<Rightarrow> (sys \<times> line) option" where
  "erase_line s l =
     do { s \<leftarrow> erase_loop (nat (position l)) s;
          Some (s, if position l > 0 then l\<lparr>position := 0\<rparr> else l) }"

text \<open>Copy an entry of the history into the line and show it.\<close>

definition recall :: "int \<Rightarrow> sys \<Rightarrow> line \<Rightarrow> (sys \<times> line) option" where
  "recall k s l =
     do { (s, l) \<leftarrow> erase_line s l;
          if k < 0 \<or> k \<ge> HISTORY_SIZE then None
          else do {
            h \<leftarrow> arr_cstr (history (sh s) ! nat k);
            a \<leftarrow> arr_strcpy (input l) 0 h;
            s \<leftarrow> put_str ''%s'' [VStr (Some h)] s;
            Some (s, \<lparr>input = a, position = int (length h)\<rparr>) } }"

definition set_current_history :: "int \<Rightarrow> sys \<Rightarrow> sys" where
  "set_current_history k s = s\<lparr>sh := (sh s)\<lparr>current_history := k\<rparr>\<rparr>"

definition key_up :: "sys \<Rightarrow> line \<Rightarrow> (sys \<times> line) option" where
  "key_up s l =
     (let h = sh s;
          k = (if current_history h = - 1 then history_pos h - 1
               else if current_history h > 0 then current_history h - 1 else current_history h) in
      recall k (set_current_history k s) l)"

definition key_down :: "sys \<Rightarrow> line \<Rightarrow> (sys \<times> line) option" where
  "key_down s l =
     (let h = sh s in
      if current_history h < history_pos h - 1
      then recall (current_history h + 1) (set_current_history (current_history h + 1) s) l
      else do {
        (s, l) \<leftarrow> erase_line (set_current_history (- 1) s) l;
        a \<leftarrow> arr_set (input l) 0 NUL;
        Some (s, \<lparr>input = a, position = 0\<rparr>) })"

definition completions :: "string list" where
  "completions =
     [''help'', ''clear'', ''echo'', ''exit'', ''shutdown'', ''reboot'',
      ''beep'', ''memory'', ''uptime'', ''date'', ''ls'', ''cat'',
      ''mkdir'', ''touch'', ''rm'', ''write'', ''banner'', ''alias'',
      ''set'', ''history'', ''sysinfo'', ''calc'', ''sound'']"

text \<open>\<^verbatim>\<open>strncmp(input, commands[i], position) == 0\<close> for the first such command.\<close>

definition find_completion :: "string \<Rightarrow> nat \<Rightarrow> string option" where
  "find_completion typed n = List.find (\<lambda>c. strcmp_spec (take n typed) (take n c) = 0) completions"

definition sys_putchar :: "byte \<Rightarrow> sys \<Rightarrow> sys" where
  "sys_putchar c s = s\<lparr>mach := (mach s)\<lparr>screen := putchar c (screen (mach s))\<rparr>\<rparr>"

definition key_tab :: "sys \<Rightarrow> line \<Rightarrow> (sys \<times> line) option" where
  "key_tab s l =
     (if position l > 0
      then do {
        typed \<leftarrow> arr_cstr (input l);
        case find_completion typed (nat (position l)) of
          None \<Rightarrow> Some (s, l)
        | Some cmd \<Rightarrow>
            if nat (position l) > length cmd then None
            else do {
              a \<leftarrow> arr_strcpy (input l) (nat (position l)) (drop (nat (position l)) cmd);
              full \<leftarrow> arr_cstr a;
              Some (fold sys_putchar (drop (nat (position l)) full) s,
                \<lparr>input = a, position = max (position l) (int (length full))\<rparr>) } }
      else Some (s, l))"

text \<open>
  One key: the tests in the order of the code. The flag says that the line is complete.
\<close>

definition shell_key :: "byte \<Rightarrow> sys \<Rightarrow> line \<Rightarrow> (bool \<times> sys \<times> line) option" where
  "shell_key c s l =
     (if c = CHR 0x0D
      then do { s \<leftarrow> put_str (ln '''') [] s;
                a \<leftarrow> arr_set (input l) (position l) NUL; Some (True, s, l\<lparr>input := a\<rparr>) }
      else if c = CHR 0x08 \<and> position l > 0
      then do { s \<leftarrow> put_str rubout [] s;
                a \<leftarrow> arr_set (input l) (position l - 1) NUL;
                Some (False, s, \<lparr>input = a, position = position l - 1\<rparr>) }
      else if c = CHR 0x48 \<and> history_pos (sh s) > 0 then map_option (Pair False) (key_up s l)
      else if c = CHR 0x50 \<and> current_history (sh s) \<noteq> - 1 then map_option (Pair False) (key_down s l)
      else if c = CHR 0x09 then map_option (Pair False) (key_tab s l)
      else if position l < int MAX_INPUT - 2 \<and> schar c \<ge> 32 \<and> schar c \<le> 126
      then do { a \<leftarrow> arr_set (input l) (position l) c;
                a \<leftarrow> arr_set a (position l + 1) NUL;
                Some (False, if echo_enabled (sh s) then sys_putchar c s else s,
                  \<lparr>input = a, position = position l + 1\<rparr>) }
      else if position l \<ge> int MAX_INPUT - 2
      then Some (False, sys_nosound (delay 100 (sys_beep 1000 s)), l)
      else Some (False, s, l))"

section \<open>The main loop\<close>

definition sys_getchar :: "u8 list \<Rightarrow> sys \<Rightarrow> (byte \<times> sys \<times> u8 list) option" where
  "sys_getchar scs s =
     do { (c, i, scs) \<leftarrow> keyboard_getchar scs (irq (mach s));
          Some (c, s\<lparr>mach := (mach s)\<lparr>irq := i\<rparr>\<rparr>, scs) }"

partial_function (option) read_line :: "u8 list \<Rightarrow> sys \<Rightarrow> line \<Rightarrow> (sys \<times> line \<times> u8 list) option" where
  "read_line scs s l =
     do { (c, s, scs) \<leftarrow> sys_getchar scs s;
          (complete, s, l) \<leftarrow> shell_key c s l;
          if complete then Some (s, l, scs) else read_line scs s l }"

definition show_prompt :: "sys \<Rightarrow> sys option" where
  "show_prompt s =
     do { s \<leftarrow> (if last_exit_code (sh s) \<noteq> 0
               then do { s \<leftarrow> print_error ''['' s;
                         s \<leftarrow> put_str ''%d'' [VInt (last_exit_code (sh s))] s;
                         print_error ''] '' s }
               else Some s);
          if color_enabled (sh s)
          then do { s \<leftarrow> print_success ''user@based'' s;
                    s \<leftarrow> print_info '':'' s;
                    d \<leftarrow> arr_cstr (current_directory (sh s));
                    s \<leftarrow> print_warning d s;
                    print_info ''$ '' s }
          else put_str ''user@based:~$ '' [] s }"

partial_function (option) shell_loop :: "u8 list \<Rightarrow> byte list \<Rightarrow> sys \<Rightarrow> (outcome \<times> u8 list) option" where
  "shell_loop scs input_array s =
     do { s \<leftarrow> show_prompt s;
          a \<leftarrow> arr_set input_array 0 NUL;
          (s, l, scs) \<leftarrow> read_line scs s \<lparr>input = a, position = 0\<rparr>;
          cmd \<leftarrow> arr_cstr (input l);
          r \<leftarrow> execute_command cmd s;
          case r of
            Halted s \<Rightarrow> Some (Halted s, scs)
          | Running s \<Rightarrow>
              let s = set_current_history (- 1) s in
              if strcmp_spec cmd ''exit'' = 0 then Some (Running s, scs)
              else shell_loop scs (input l) s }"

text \<open>What \<^verbatim>\<open>start_shell\<close> does before its loop: the greeting and the default aliases.\<close>

definition shell_greeting :: "sys \<Rightarrow> sys option" where
  "shell_greeting s =
     do { s \<leftarrow> display_banner s;
          s \<leftarrow> print_success (ln ''BasedOS Shell v2.0'') s;
          s \<leftarrow> print_info (ln (''Type '' @ [CHR 0x27] @ ''help'' @ [CHR 0x27] @ '' for available commands'')) s;
          s \<leftarrow> put_str (ln '''') [] s;
          s \<leftarrow> add_alias ''ll'' ''ls -l'' s;
          s \<leftarrow> add_alias ''la'' ''ls -a'' s;
          s \<leftarrow> add_alias ''cls'' ''clear'' s;
          s \<leftarrow> add_alias ''mem'' ''memory'' s;
          add_alias ''sys'' ''sysinfo'' s }"

text \<open>\<open>input_array\<close> is the uninitialised line buffer.\<close>

definition start_shell :: "u8 list \<Rightarrow> byte list \<Rightarrow> sys \<Rightarrow> (outcome \<times> u8 list) option" where
  "start_shell scs input_array s = do { s \<leftarrow> shell_greeting s; shell_loop scs input_array s }"

section \<open>The entry point\<close>

text \<open>
  \<^verbatim>\<open>kmain\<close>. The link addresses, the address of the test string and those of the two stack
  buffers are arguments. If the shell returns, the machine halts.
\<close>

definition kmain_boot :: "u32 \<Rightarrow> u32 \<Rightarrow> u32 \<Rightarrow> addr \<Rightarrow> addr \<Rightarrow> machine \<Rightarrow> machine option" where
  "kmain_boot kbd_addr timer_addr idt_addr data_addr test_buf m =
     do { let m = m\<lparr>screen := terminal_initialize (screen m)\<rparr>;
          let m = init_memory_manager m;
          let m = init_enhanced_interrupts kbd_addr timer_addr idt_addr m;
          let m = init_scheduler m;
          f \<leftarrow> vfs_initialize (fs m);
          f \<leftarrow> memfs_initialize f;
          (r, m) \<leftarrow> on_fs (vfs_mount ''/'' ''memfs'') (m\<lparr>fs := f\<rparr>);
          m \<leftarrow> (if r \<noteq> 0 then kprint (ln ''Failed to mount root filesystem!'') [] m else Some m);
          m \<leftarrow> kprint (ln ''BasedOS Kernel v0.1'') [] m;
          fs_test data_addr test_buf m }"

definition kmain ::
  "u32 \<Rightarrow> u32 \<Rightarrow> u32 \<Rightarrow> addr \<Rightarrow> addr \<Rightarrow> addr \<Rightarrow> byte list \<Rightarrow> u8 list \<Rightarrow> machine \<Rightarrow> sys option" where
  "kmain kbd_addr timer_addr idt_addr data_addr test_buf frame_addr input_array scs m =
     do { m \<leftarrow> kmain_boot kbd_addr timer_addr idt_addr data_addr test_buf m;
          (r, scs) \<leftarrow> start_shell scs input_array \<lparr>mach = m, sh = shell_init, frame = frame_addr\<rparr>;
          case r of Running s \<Rightarrow> Some s | Halted s \<Rightarrow> Some s }"

end
