(* ===== verification/ShellFacts.thy ===== *)
theory ShellFacts
  imports ShellMain TerminalFacts KernelFacts "HOL-Library.Sublist"
begin

text \<open>
  Facts about the shell: the parser against the tokens of the line, output that always
  succeeds, the alias table, the history ring, and the line editor with its invariant.
\<close>

section \<open>Parsing\<close>

lemma parse_loop_NULL [simp]: "parse_loop n m l NULL = Some (m, [])"
  by (cases n) simp_all

lemma parse_loop_tokens:
  assumes "cstr m l rest" and "0 < l" and "l + length rest \<le> DELIMS" and "cstr m DELIMS ds"
    and "cstr m token t" and "0 < token" and "token + length t \<le> l"
  shows "\<exists>m' ps. parse_loop (Suc room) m l token = Some (m', token # ps) \<and>
    read_args m' (token # ps) = Some (t # take room (tokens ds rest)) \<and> (\<forall>x \<le> l. m' x = m x)"
  using assms
proof (induction room arbitrary: m l rest token t)
  case (0 m l rest token t)
  show ?case
  proof (cases "skip_delims ds rest = []")
    case True
    obtain k where "strtok m l NULL DELIMS = Some (m, k, NULL)"
      using strtok_none [of l NULL l m rest DELIMS ds] 0 True by auto
    then show ?thesis using 0 by (simp add: read_cstr_cstr)
  next
    case False
    then obtain m1 k q where s: "strtok m l NULL DELIMS = Some (m1, k, q)"
      "\<forall>x. x \<le> l \<or> l + length rest \<le> x \<longrightarrow> m1 x = m x"
      using strtok_token [of l NULL l m rest DELIMS ds] 0 by auto
    have "cstr m1 token t = cstr m token t" using s(2) 0(7) by (intro cstr_cong) auto
    then show ?thesis using s 0 by (simp add: read_cstr_cstr)
  qed
next
  case (Suc room m l rest token t)
  show ?case
  proof (cases "skip_delims ds rest = []")
    case True
    obtain k where "strtok m l NULL DELIMS = Some (m, k, NULL)"
      using strtok_none [of l NULL l m rest DELIMS ds] Suc.prems True by auto
    moreover have "tokens ds rest = []" using True by (subst tokens.simps) simp
    ultimately show ?thesis using Suc.prems by (simp add: read_cstr_cstr)
  next
    case False
    then obtain m1 k q where s: "strtok m l NULL DELIMS = Some (m1, k, q)" "l \<le> q"
      "cstr m1 q (first_token ds rest)" "q + length (first_token ds rest) \<le> k"
      "cstr m1 k (after_token ds rest)" "k + length (after_token ds rest) = l + length rest"
      "\<forall>x. x \<le> l \<or> l + length rest \<le> x \<longrightarrow> m1 x = m x"
      using strtok_token [of l NULL l m rest DELIMS ds] Suc.prems by auto
    have ds1: "cstr m1 DELIMS ds"
      using s(7) Suc.prems(3,4) cstr_cong [of ds m1 DELIMS m] by auto
    have "\<exists>m' ps. parse_loop (Suc room) m1 k q = Some (m', q # ps) \<and>
        read_args m' (q # ps) = Some (first_token ds rest # take room (tokens ds (after_token ds rest))) \<and>
        (\<forall>x \<le> k. m' x = m1 x)"
      by (rule Suc.IH) (use s Suc.prems ds1 in auto)
    then obtain m' ps where r: "parse_loop (Suc room) m1 k q = Some (m', q # ps)"
      "read_args m' (q # ps) = Some (first_token ds rest # take room (tokens ds (after_token ds rest)))"
      "\<forall>x \<le> k. m' x = m1 x" by blast
    have lk: "l \<le> k" using s(2,4) by simp
    then have same: "m' x = m x" if "x \<le> l" for x using r(3) s(7) that by simp
    have "cstr m' token t = cstr m token t" using same Suc.prems(7) by (intro cstr_cong) auto
    then have tok: "read_cstr m' token = Some t" using Suc.prems(5) read_cstr_cstr by blast
    have toks: "tokens ds rest = first_token ds rest # tokens ds (after_token ds rest)"
      using False by (subst tokens.simps) simp
    have "parse_loop (Suc (Suc room)) m l token = Some (m', token # q # ps)"
      using s(1) r(1) Suc.prems(6) by (subst parse_loop.simps(2)) (simp del: parse_loop.simps)
    moreover have "read_args m' (token # q # ps) = Some (t # take (Suc room) (tokens ds rest))"
      using tok r(2) by (subst read_args.simps(2)) (simp add: toks del: read_args.simps)
    ultimately show ?thesis using same by blast
  qed
qed

definition blanks :: string where
  "blanks = [CHR '' '', CHR 0x09]"

lemma parse_mem_strings:
  assumes "NUL \<notin> set str" and "length str < MAX_INPUT"
  shows "cstr (parse_mem str) INPUT str" and "cstr (parse_mem str) DELIMS blanks"
    and "valid (parse_mem str) PARSE_BUF (Suc (length str))"
proof -
  note addrs = PARSE_BUF_def DELIMS_def INPUT_def MAX_INPUT_def
  show "cstr (parse_mem str) INPUT str" unfolding parse_mem_def using assms(1) by (rule cstr_put)
  have d: "[CHR '' '', CHR 0x09, NUL] = blanks @ [NUL]" "NUL \<notin> set blanks" by (simp_all add: blanks_def)
  show "cstr (parse_mem str) DELIMS blanks"
    unfolding parse_mem_def d(1)
    by (subst cstr_put_apart) (simp add: apart_def addrs blanks_def, rule cstr_put, rule d(2))
  show "valid (parse_mem str) PARSE_BUF (Suc (length str))"
    unfolding parse_mem_def using assms(2) by (intro valid_put valid_put_block) simp
qed

lemma parse_command_tokens:
  assumes "NUL \<notin> set str" and "length str < MAX_INPUT"
  shows "parse_command str = Some (take 15 (tokens blanks str))"
proof -
  note p = parse_mem_strings [OF assms] and addrs = PARSE_BUF_def DELIMS_def INPUT_def
  define m where "m = put (parse_mem str) PARSE_BUF (str @ [NUL])"
  have cp: "strcpy (parse_mem str) PARSE_BUF INPUT = Some m" unfolding m_def
    by (rule strcpy_put [OF p(1,3)]) (use assms(2) in \<open>simp add: apart_def addrs MAX_INPUT_def\<close>)
  have s: "cstr m PARSE_BUF str" unfolding m_def using assms(1) by (rule cstr_put)
  have d: "cstr m DELIMS blanks" unfolding m_def using p(2) assms(2)
    by (subst cstr_put_apart) (simp_all add: apart_def addrs MAX_INPUT_def)
  have nz: "PARSE_BUF \<noteq> NULL" by (simp add: PARSE_BUF_def)
  have args: "MAX_ARGS - 1 = Suc 14" by (simp add: MAX_ARGS_def)
  show ?thesis
  proof (cases "skip_delims blanks str = []")
    case True
    obtain k where "strtok m NULL PARSE_BUF DELIMS = Some (m, k, NULL)"
      using strtok_none [of PARSE_BUF PARSE_BUF NULL m str DELIMS blanks] s d nz True by auto
    moreover have "tokens blanks str = []" using True by (subst tokens.simps) simp
    ultimately show ?thesis using cp unfolding parse_command_def args by simp
  next
    case False
    then obtain m1 k q where t: "strtok m NULL PARSE_BUF DELIMS = Some (m1, k, q)" "PARSE_BUF \<le> q"
      "cstr m1 q (first_token blanks str)" "q + length (first_token blanks str) \<le> k"
      "cstr m1 k (after_token blanks str)" "k + length (after_token blanks str) = PARSE_BUF + length str"
      "\<forall>x. x \<le> PARSE_BUF \<or> PARSE_BUF + length str \<le> x \<longrightarrow> m1 x = m x"
      using strtok_token [of PARSE_BUF PARSE_BUF NULL m str DELIMS blanks] s d nz by auto
    have "PARSE_BUF + length str \<le> DELIMS" using assms(2) by (simp add: addrs MAX_INPUT_def)
    then have d1: "cstr m1 DELIMS blanks" and room: "k + length (after_token blanks str) \<le> DELIMS"
      using t(6,7) d cstr_cong [of blanks m1 DELIMS m] by auto
    have "0 < PARSE_BUF" using nz by simp
    then have pos: "0 < q" "0 < k" using t(2,4) by linarith+
    from parse_loop_tokens [OF t(5) pos(2) room d1 t(3) pos(1) t(4), of 14] obtain m' ps where
      "parse_loop (Suc 14) m1 k q = Some (m', q # ps)"
      "read_args m' (q # ps) = Some (first_token blanks str # take 14 (tokens blanks (after_token blanks str)))"
      by blast
    moreover have "tokens blanks str = first_token blanks str # tokens blanks (after_token blanks str)"
      using False by (subst tokens.simps) simp
    ultimately show ?thesis using cp t(1) unfolding parse_command_def args
      by (simp add: numeral_eq_Suc del: parse_loop.simps read_args.simps)
  qed
qed

lemma parse_command_too_long:
  assumes "NUL \<notin> set str" and "MAX_INPUT \<le> length str" and "PARSE_BUF + length str < DELIMS"
  shows "parse_command str = None"
proof -
  have "strcpy (parse_mem str) PARSE_BUF INPUT = None"
  proof (rule strcpy_overflow [where t = str and k = MAX_INPUT])
    show "cstr (parse_mem str) INPUT str" unfolding parse_mem_def using assms(1) by (rule cstr_put)
    show "PARSE_BUF + MAX_INPUT \<notin> dom (parse_mem str)"
      by (simp add: parse_mem_def put_apply PARSE_BUF_def DELIMS_def INPUT_def MAX_INPUT_def dom_def)
  qed (use assms in \<open>simp_all add: apart_def PARSE_BUF_def DELIMS_def INPUT_def\<close>)
  then show ?thesis by (simp add: parse_command_def)
qed

section \<open>Words\<close>

text \<open>Joining words with single blanks.\<close>

fun unwords :: "string list \<Rightarrow> string" where
  "unwords [] = []"
| "unwords [w] = w"
| "unwords (w # ws) = w @ '' '' @ unwords ws"

definition is_word :: "string \<Rightarrow> bool" where
  "is_word w \<longleftrightarrow> w \<noteq> [] \<and> set w \<inter> {CHR '' '', CHR 0x09, NUL} = {}"

lemma unwords_no_NUL: "\<forall>w \<in> set ws. is_word w \<Longrightarrow> NUL \<notin> set (unwords ws)"
  by (induction ws rule: unwords.induct) (auto simp: is_word_def)

lemma blank_word: "is_word w \<Longrightarrow> c \<in> set w \<Longrightarrow> c \<notin> set blanks"
  by (auto simp: is_word_def blanks_def)

lemma tokens_word:
  assumes "is_word w" and "rest = [] \<or> hd rest \<in> set blanks"
  shows "tokens blanks (w @ rest) = w # tokens blanks (tl rest)"
proof -
  obtain c u where w: "w = c # u" using assms(1) by (cases w) (auto simp: is_word_def)
  have "c \<notin> set blanks" using blank_word [OF assms(1)] w by simp
  then have skip: "skip_delims blanks (w @ rest) = w @ rest" by (simp add: skip_delims_def w)
  have all: "\<And>x. x \<in> set w \<Longrightarrow> x \<notin> set blanks" using blank_word [OF assms(1)] .
  have tk: "takeWhile (\<lambda>c. c \<notin> set blanks) rest = []" "dropWhile (\<lambda>c. c \<notin> set blanks) rest = rest"
    using assms(2) by (cases rest; simp)+
  have "first_token blanks (w @ rest) = w" "after_token blanks (w @ rest) = tl rest"
    using all tk by (simp_all add: first_token_def after_token_def skip)
  moreover have "skip_delims blanks (w @ rest) \<noteq> []" unfolding skip by (simp add: w)
  ultimately show ?thesis using tokens.simps [of blanks "w @ rest"] by simp
qed

lemma tokens_Nil: "tokens ds [] = []"
  by (subst tokens.simps) (simp add: skip_delims_def)

lemma tokens_unwords: "\<forall>w \<in> set ws. is_word w \<Longrightarrow> tokens blanks (unwords ws) = ws"
proof (induction ws rule: unwords.induct)
  case 1
  show ?case by (simp add: tokens_Nil)
next
  case (2 w)
  then show ?case using tokens_word [of w "[]"] by (simp add: tokens_Nil)
next
  case (3 w v vs)
  then show ?case using tokens_word [of w "'' '' @ unwords (v # vs)"] by (simp add: blanks_def)
qed

text \<open>The words of a line, each with a separator, are at most one character longer than the line.\<close>

lemma tokens_length: "sum_list (map (\<lambda>w. Suc (length w)) (tokens ds s)) \<le> Suc (length s)"
proof (induction ds s rule: tokens.induct)
  case (1 ds s)
  show ?case
  proof (cases "skip_delims ds s = []")
    case True
    then show ?thesis by (subst tokens.simps) simp
  next
    case False
    let ?d = "dropWhile (\<lambda>c. c \<notin> set ds) (skip_delims ds s)"
    have "length (first_token ds s @ ?d) = length (skip_delims ds s)" by (simp add: first_token_def)
    moreover have "length (skip_delims ds s) \<le> length s"
      by (simp add: skip_delims_def length_dropWhile_le)
    moreover have "Suc (length (after_token ds s)) = length ?d \<or> tokens ds (after_token ds s) = []"
    proof (cases ?d)
      case Nil
      then have "after_token ds s = []" unfolding after_token_def by (simp only: list.sel)
      then show ?thesis by (simp add: tokens_Nil)
    next
      case (Cons c cs)
      then show ?thesis unfolding after_token_def by (simp only: list.sel list.size) simp
    qed
    ultimately show ?thesis using 1 [OF False] False
      by (subst tokens.simps) auto
  qed
qed

lemma length_unwords: "length (unwords ws) \<le> sum_list (map (\<lambda>w. Suc (length w)) ws)"
  by (induction ws rule: unwords.induct) auto

lemma sum_list_take_drop:
  fixes f :: "'a \<Rightarrow> nat"
  shows "sum_list (map f (take n xs)) \<le> sum_list (map f xs)" "sum_list (map f (drop n xs)) \<le> sum_list (map f xs)"
proof -
  have "sum_list (map f xs) = sum_list (map f (take n xs)) + sum_list (map f (drop n xs))"
    by (metis append_take_drop_id map_append sum_list_append)
  then show "sum_list (map f (take n xs)) \<le> sum_list (map f xs)" "sum_list (map f (drop n xs)) \<le> sum_list (map f xs)"
    by simp_all
qed

section \<open>Output\<close>

text \<open>Printing changes the screen and nothing else.\<close>

definition write_sys :: "string \<Rightarrow> sys \<Rightarrow> sys" where
  "write_sys str s = s\<lparr>mach := (mach s)\<lparr>screen := terminal_writestring str (screen (mach s))\<rparr>\<rparr>"

definition screen_only :: "sys \<Rightarrow> sys \<Rightarrow> bool" where
  "screen_only s s' \<longleftrightarrow> (\<exists>t. s' = s\<lparr>mach := (mach s)\<lparr>screen := t\<rparr>\<rparr>)"

lemma screen_only_refl [simp]: "screen_only s s"
  unfolding screen_only_def by (rule exI [of _ "screen (mach s)"]) simp

lemma screen_only_trans [trans]: "screen_only s s' \<Longrightarrow> screen_only s' s'' \<Longrightarrow> screen_only s s''"
  by (auto simp: screen_only_def)

lemma screen_only_simps:
  "screen_only s s' \<Longrightarrow> sh s' = sh s" "screen_only s s' \<Longrightarrow> irq (mach s') = irq (mach s)"
  "screen_only s s' \<Longrightarrow> fs (mach s') = fs (mach s)" "screen_only s s' \<Longrightarrow> frame s' = frame s"
  "screen_only s s' \<Longrightarrow> status (mach s') = status (mach s)"
  by (auto simp: screen_only_def)

lemma put_str_render: "put_str fmt args s = map_option (\<lambda>str. write_sys str s) (render fmt args)"
  by (cases "render fmt args") (simp_all add: put_str_def kprint_def printk_render write_sys_def)

lemma put_str_screen: "put_str fmt args s = Some s' \<Longrightarrow> screen_only s s'"
  by (auto simp: put_str_render write_sys_def screen_only_def)

lemma set_color_screen [simp]: "screen_only s (set_color c s)"
  by (auto simp: set_color_def screen_only_def)

lemma render_s [simp]: "render ''%s'' [VStr (Some str)] = Some str"
  by simp

lemma print_color_total: "\<exists>s'. print_color str c s = Some s' \<and> screen_only s s'"
  using screen_only_trans [OF set_color_screen]
  by (auto simp: print_color_def put_str_render write_sys_def set_color_def screen_only_def)

lemmas print_total = print_color_total
  print_color_total [where c = 12, folded print_error_def]
  print_color_total [where c = 10, folded print_success_def]
  print_color_total [where c = 11, folded print_info_def]
  print_color_total [where c = 14, folded print_warning_def]

lemma sys_putchar_screen: "screen_only s (sys_putchar c s)"
  by (auto simp: sys_putchar_def screen_only_def)

lemma fold_sys_putchar_screen: "screen_only s (fold sys_putchar str s)"
proof (induction str arbitrary: s)
  case (Cons c str)
  show ?case using screen_only_trans [OF sys_putchar_screen [of s c] Cons.IH] by simp
qed simp

lemma render_plain: "CHR ''%'' \<notin> set fmt \<Longrightarrow> render fmt args = Some fmt"
  by (induction fmt) auto

lemma put_plain: "CHR ''%'' \<notin> set fmt \<Longrightarrow> put_str fmt args s = Some (write_sys fmt s)"
  by (simp add: put_str_render render_plain)

lemma write_sys_screen [simp]: "screen_only s (write_sys str s)"
  by (auto simp: write_sys_def screen_only_def)

lemma sh_write_sys [simp]: "sh (write_sys str s) = sh s"
  by (simp add: write_sys_def)

section \<open>The invariant of the shell's tables\<close>

definition row_ok :: "nat \<Rightarrow> byte list \<Rightarrow> bool" where
  "row_ok n row \<longleftrightarrow> length row = n \<and> NUL \<in> set row"

text \<open>A line of the history is at most 126 bytes, so that it can be edited again.\<close>

definition hist_ok :: "byte list \<Rightarrow> bool" where
  "hist_ok row \<longleftrightarrow> length row = MAX_INPUT \<and> (\<exists>str. arr_cstr row = Some str \<and> length str \<le> 126)"

definition entry_row :: "alias_entry \<Rightarrow> bool" where
  "entry_row e \<longleftrightarrow> length (a_alias e) = 32 \<and> row_ok 128 (a_command e)"

definition shell_inv :: "shell \<Rightarrow> bool" where
  "shell_inv h \<longleftrightarrow>
     length (history h) = 10 \<and> (\<forall>row \<in> set (history h). hist_ok row) \<and>
     0 \<le> history_pos h \<and> history_pos h < 10 \<and>
     - 1 \<le> current_history h \<and> current_history h < 10 \<and>
     length (aliases h) = 20 \<and> (\<forall>e \<in> set (aliases h). entry_row e) \<and>
     0 \<le> alias_count h \<and> alias_count h \<le> 20 \<and> row_ok 64 (current_directory h)"

lemma shell_inv_init: "shell_inv shell_init"
  by (auto simp: shell_inv_def shell_init_def hist_ok_def entry_row_def row_ok_def arr_cstr_def MAX_INPUT_def)

lemma hist_row:
  assumes "shell_inv h" and "0 \<le> k" and "k < 10"
  obtains str where "arr_cstr (history h ! nat k) = Some str" and "length str \<le> 126" and "NUL \<notin> set str"
proof -
  have "history h ! nat k \<in> set (history h)" using assms by (intro nth_mem) (auto simp: shell_inv_def)
  then obtain str where "arr_cstr (history h ! nat k) = Some str" "length str \<le> 126"
    using assms(1) by (auto simp: shell_inv_def hist_ok_def)
  with that arr_cstr_Some show thesis by blast
qed

section \<open>The line editor\<close>

definition line_text :: "line \<Rightarrow> string" where
  "line_text l = take (nat (position l)) (input l)"

definition line_inv :: "line \<Rightarrow> bool" where
  "line_inv l \<longleftrightarrow> length (input l) = MAX_INPUT \<and> 0 \<le> position l \<and> position l \<le> 126 \<and>
     NUL \<notin> set (line_text l) \<and> input l ! nat (position l) = NUL"

lemma line_position: "line_inv l \<Longrightarrow> nat (position l) < 127 \<and> length (input l) = 128 \<and> 0 \<le> position l"
  by (auto simp: line_inv_def MAX_INPUT_def)

lemma line_text_length: "line_inv l \<Longrightarrow> length (line_text l) = nat (position l)"
  using line_position [of l] by (simp add: line_text_def)

lemma line_cstr: "line_inv l \<Longrightarrow> arr_cstr (input l) = Some (line_text l)"
proof -
  assume inv: "line_inv l"
  then have "nat (position l) < length (input l)" using line_position [of l] by simp
  then have "input l = line_text l @ NUL # drop (Suc (nat (position l))) (input l)"
    using inv id_take_nth_drop [of "nat (position l)" "input l"] by (simp add: line_inv_def line_text_def)
  then show ?thesis using inv arr_cstr_append [of "line_text l"] unfolding line_inv_def by metis
qed

text \<open>A line that holds a given text.\<close>

lemma line_invI:
  assumes "arr_cstr a = Some str" and "length a = MAX_INPUT" and "length str \<le> 126" and "p = int (length str)"
  shows "line_inv \<lparr>input = a, position = p\<rparr> \<and> line_text \<lparr>input = a, position = p\<rparr> = str"
proof -
  have t: "str = takeWhile (\<lambda>c. c \<noteq> NUL) a" and "NUL \<in> set a"
    using assms(1) by (auto simp: arr_cstr_def split: if_splits)
  have s: "take (length str) a = str" unfolding t by (simp add: takeWhile_eq_take [symmetric])
  have "length str < length a" "NUL \<notin> set str" using arr_cstr_Some [OF assms(1)] by simp_all
  moreover have "a ! length str = NUL"
    using nth_length_takeWhile [of "\<lambda>c. c \<noteq> NUL" a] calculation(1) unfolding t by simp
  ultimately show ?thesis using assms s by (simp add: line_inv_def line_text_def)
qed

lemma erase_loop_total: "\<exists>s'. erase_loop n s = Some s' \<and> screen_only s s'"
proof (induction n arbitrary: s)
  case (Suc n)
  have "put_str rubout [] s = Some (write_sys rubout s)" by (simp add: put_plain rubout_def)
  then show ?case using Suc [of "write_sys rubout s"] screen_only_trans [OF write_sys_screen] by auto
qed simp

lemma erase_line_total: "\<exists>s' l'. erase_line s l = Some (s', l') \<and> screen_only s s' \<and> input l' = input l"
  using erase_loop_total [of "nat (position l)" s] by (auto simp: erase_line_def)

lemma recall_total:
  assumes "shell_inv (sh s)" and "line_inv l" and "0 \<le> k" and "k < 10"
  shows "\<exists>s' l'. recall k s l = Some (s', l') \<and> screen_only s s' \<and> line_inv l' \<and>
    arr_cstr (history (sh s) ! nat k) = Some (line_text l')"
proof -
  obtain s1 l1 where e: "erase_line s l = Some (s1, l1)" "screen_only s s1" "input l1 = input l"
    using erase_line_total by blast
  obtain str where str: "arr_cstr (history (sh s) ! nat k) = Some str" "length str \<le> 126" "NUL \<notin> set str"
    by (rule hist_row [OF assms(1,3,4)])
  have len: "length (input l) = MAX_INPUT" using assms(2) by (simp add: line_inv_def)
  obtain a where a: "arr_strcpy (input l) 0 str = Some a"
    using str(2) len by (simp add: arr_strcpy_def MAX_INPUT_def)
  have i: "line_inv \<lparr>input = a, position = int (length str)\<rparr> \<and>
      line_text \<lparr>input = a, position = int (length str)\<rparr> = str"
    using arr_cstr_strcpy [OF str(3) a] length_arr_strcpy [OF a] len str(2) by (intro line_invI) simp_all
  have "recall k s l = Some (write_sys str s1, \<lparr>input = a, position = int (length str)\<rparr>)"
    using e a str(1) assms(3,4) screen_only_simps(1) [OF e(2)]
    by (simp add: recall_def HISTORY_SIZE_def put_str_render)
  then show ?thesis using i str(1) screen_only_trans [OF e(2) write_sys_screen, of str]
    by (intro exI [of _ "write_sys str s1"] exI [of _ "\<lparr>input = a, position = int (length str)\<rparr>"]) simp
qed

text \<open>Tab completes the line to the first command it is a prefix of.\<close>

definition complete :: "string \<Rightarrow> string" where
  "complete str = (case List.find (prefix str) completions of None \<Rightarrow> str | Some cmd \<Rightarrow> cmd)"

lemma completions_short: "c \<in> set completions \<Longrightarrow> length c \<le> 8 \<and> NUL \<notin> set c"
  by (auto simp: completions_def)

lemma find_completion_prefix:
  assumes "NUL \<notin> set str"
  shows "find_completion str (length str) = List.find (prefix str) completions"
  unfolding find_completion_def
proof (rule find_cong [OF refl])
  fix c
  assume "c \<in> set completions"
  then have "NUL \<notin> set c" using completions_short by blast
  then show "(strcmp_spec (take (length str) str) (take (length str) c) = 0) = prefix str c"
    using strcmp_spec_take_prefix [OF assms] by (simp add: prefix_def)
qed

lemma key_tab_total:
  assumes "line_inv l"
  shows "\<exists>s' l'. key_tab s l = Some (s', l') \<and> screen_only s s' \<and> line_inv l' \<and>
    line_text l' = (if line_text l = [] then [] else complete (line_text l))"
proof (cases "position l > 0")
  case False
  then have "line_text l = []" by (simp add: line_text_def)
  then show ?thesis using False assms by (simp add: key_tab_def)
next
  case True
  let ?n = "nat (position l)" and ?t = "line_text l"
  note pos = line_position [OF assms] and cs = line_cstr [OF assms] and len = line_text_length [OF assms]
  have ne: "?t \<noteq> []" using True len by auto
  have nul: "NUL \<notin> set ?t" using assms by (simp add: line_inv_def)
  have fc: "find_completion ?t ?n = List.find (prefix ?t) completions"
    using find_completion_prefix [OF nul] len by simp
  show ?thesis
  proof (cases "List.find (prefix ?t) completions")
    case None
    then show ?thesis using True assms cs fc ne by (simp add: key_tab_def complete_def)
  next
    case (Some cmd)
    then have cmd: "cmd \<in> set completions" "prefix ?t cmd" by (auto simp: find_Some_iff)
    then obtain u where u: "cmd = ?t @ u" by (auto simp: prefix_def)
    have short: "length cmd \<le> 8" "NUL \<notin> set cmd" using completions_short [OF cmd(1)] by simp_all
    have n: "?n + length u = length cmd" using len u by simp
    obtain a where a: "arr_strcpy (input l) ?n u = Some a"
      using n short(1) pos by (simp add: arr_strcpy_def)
    have full: "arr_cstr a = Some cmd"
      using arr_cstr_strcpy_at [OF a] short(2) nul unfolding u by (simp add: line_text_def)
    have drop: "drop ?n cmd = u" using len u by simp
    have mx: "max (position l) (int (length cmd)) = int (length cmd)" using n pos by linarith
    have i: "line_inv \<lparr>input = a, position = int (length cmd)\<rparr> \<and>
        line_text \<lparr>input = a, position = int (length cmd)\<rparr> = cmd"
      using full length_arr_strcpy [OF a] pos short(1) by (intro line_invI) (simp_all add: MAX_INPUT_def)
    have "key_tab s l = Some (fold sys_putchar u s, \<lparr>input = a, position = int (length cmd)\<rparr>)"
      using True cs fc Some a full n drop mx by (simp add: key_tab_def)
    then show ?thesis using i ne Some fold_sys_putchar_screen by (auto simp: complete_def)
  qed
qed

lemma line_insert:
  assumes "line_inv l" and "position l < 126" and "c \<noteq> NUL"
  shows "\<exists>a. (do { a \<leftarrow> arr_set (input l) (position l) c; arr_set a (position l + 1) NUL }) = Some a \<and>
    line_inv \<lparr>input = a, position = position l + 1\<rparr> \<and>
    line_text \<lparr>input = a, position = position l + 1\<rparr> = line_text l @ [c]"
proof -
  let ?n = "nat (position l)" and ?xs = "input l"
  note pos = line_position [OF assms(1)]
  have n: "nat (position l + 1) = Suc ?n" "Suc ?n < length ?xs" using pos assms(2) by auto
  let ?a = "?xs[?n := c, Suc ?n := NUL]"
  have "take (Suc ?n) ?a = take ?n ?xs @ [c]"
    using n(2) by (simp add: take_Suc_conv_app_nth)
  moreover have "?a ! Suc ?n = NUL" using n(2) by simp
  ultimately show ?thesis using assms pos n
    by (simp add: arr_set_def line_inv_def line_text_def)
qed

lemma line_delete:
  assumes "line_inv l" and "position l > 0"
  shows "\<exists>a. arr_set (input l) (position l - 1) NUL = Some a \<and>
    line_inv \<lparr>input = a, position = position l - 1\<rparr> \<and>
    line_text \<lparr>input = a, position = position l - 1\<rparr> = butlast (line_text l)"
proof -
  obtain k where k: "nat (position l) = Suc k" using assms(2) by (cases "nat (position l)") auto
  note pos = line_position [OF assms(1)]
  have k': "nat (position l - 1) = k" "k < length (input l)" using k pos by auto
  have "NUL \<notin> set (take k (input l))"
    using assms(1) k set_take_subset_set_take [of k "Suc k" "input l"] by (auto simp: line_inv_def line_text_def)
  moreover have "butlast (take (Suc k) (input l)) = take k (input l)"
    using k' by (simp add: take_Suc_conv_app_nth)
  ultimately show ?thesis using assms k k' pos
    by (simp add: arr_set_def line_inv_def line_text_def)
qed

lemma line_terminate:
  assumes "line_inv l"
  shows "arr_set (input l) (position l) NUL = Some (input l)"
  using assms line_position [OF assms] by (simp add: arr_set_def line_inv_def list_update_same_conv)

section \<open>One key\<close>

text \<open>A key changes of the shell's state only the place in the history, and outside it only the
  screen and the port log; the keyboard queue and the interrupt flag are left alone.\<close>

definition key_frame :: "sys \<Rightarrow> sys \<Rightarrow> bool" where
  "key_frame s s' \<longleftrightarrow> shell_inv (sh s') \<and>
     (\<exists>k. sh s' = (sh s)\<lparr>current_history := k\<rparr>) \<and> frame s' = frame s \<and> fs (mach s') = fs (mach s) \<and>
     status (mach s') = status (mach s) \<and>
     (\<exists>p. irq (mach s') = (irq (mach s))\<lparr>iports := p\<rparr>)"

lemma key_frame_screen:
  assumes "shell_inv (sh s)" and "screen_only s s'"
  shows "key_frame s s'"
proof -
  have "\<exists>k. sh s = (sh s)\<lparr>current_history := k\<rparr>" by (rule exI [of _ "current_history (sh s)"]) simp
  moreover have "\<exists>p. irq (mach s) = (irq (mach s))\<lparr>iports := p\<rparr>" by (rule exI [of _ "iports (irq (mach s))"]) simp
  ultimately show ?thesis using assms screen_only_simps [OF assms(2)] by (simp add: key_frame_def)
qed

lemma key_frame_history:
  assumes "shell_inv (sh s)" and "- 1 \<le> k" and "k < 10" and "screen_only (set_current_history k s) s'"
  shows "key_frame s s'"
proof -
  have "shell_inv (sh (set_current_history k s))"
    using assms(1-3) by (simp add: shell_inv_def set_current_history_def)
  moreover have "\<exists>p. irq (mach s) = (irq (mach s))\<lparr>iports := p\<rparr>" by (rule exI [of _ "iports (irq (mach s))"]) simp
  ultimately show ?thesis using screen_only_simps [OF assms(4)]
    by (auto simp: key_frame_def set_current_history_def)
qed

lemma key_up_total:
  assumes "shell_inv (sh s)" and "line_inv l" and "history_pos (sh s) > 0"
  shows "\<exists>s' l' k. key_up s l = Some (s', l') \<and> key_frame s s' \<and> line_inv l' \<and>
    0 \<le> k \<and> k < 10 \<and> arr_cstr (history (sh s) ! nat k) = Some (line_text l')"
proof -
  define k where "k = (if current_history (sh s) = - 1 then history_pos (sh s) - 1
      else if current_history (sh s) > 0 then current_history (sh s) - 1 else current_history (sh s))"
  have k: "0 \<le> k" "k < 10" using assms(1,3) by (auto simp: k_def shell_inv_def)
  let ?s = "set_current_history k s"
  have "shell_inv (sh ?s)" "history (sh ?s) = history (sh s)"
    using assms(1) k by (simp_all add: shell_inv_def set_current_history_def)
  from recall_total [OF this(1) assms(2) k] this(2) obtain s' l' where
    "recall k ?s l = Some (s', l')" "screen_only ?s s'" "line_inv l'"
    "arr_cstr (history (sh s) ! nat k) = Some (line_text l')" by auto
  then show ?thesis using key_frame_history [OF assms(1) _ k(2)] k
    by (auto simp: key_up_def k_def [symmetric] Let_def)
qed

lemma key_down_total:
  assumes "shell_inv (sh s)" and "line_inv l" and "current_history (sh s) \<noteq> - 1"
  shows "\<exists>s' l'. key_down s l = Some (s', l') \<and> key_frame s s' \<and> line_inv l'"
proof (cases "current_history (sh s) < history_pos (sh s) - 1")
  case True
  let ?k = "current_history (sh s) + 1"
  have k: "0 \<le> ?k" "?k < 10" using assms(1) True by (auto simp: shell_inv_def)
  have "shell_inv (sh (set_current_history ?k s))"
    using assms(1) k by (simp add: shell_inv_def set_current_history_def)
  from recall_total [OF this assms(2) k] obtain s' l' where
    "recall ?k (set_current_history ?k s) l = Some (s', l')" "screen_only (set_current_history ?k s) s'"
    "line_inv l'" by blast
  then show ?thesis using True key_frame_history [OF assms(1) _ k(2)] k
    by (auto simp: key_down_def Let_def)
next
  case False
  obtain s' l' where e: "erase_line (set_current_history (- 1) s) l = Some (s', l')"
    "screen_only (set_current_history (- 1) s) s'" "input l' = input l"
    using erase_line_total by blast
  have len: "length (input l) = 128" using line_position [OF assms(2)] by simp
  then have "line_inv \<lparr>input = (input l)[0 := NUL], position = 0\<rparr>"
    by (simp add: line_inv_def line_text_def MAX_INPUT_def)
  then show ?thesis using e len False key_frame_history [OF assms(1) _ _ e(2)]
    by (cases "input l") (simp_all add: key_down_def arr_set_def Let_def)
qed

lemma key_frame_beep:
  assumes "shell_inv (sh s)"
  shows "key_frame s (sys_nosound (sys_beep f s))"
proof -
  have "\<exists>k. sh s = (sh s)\<lparr>current_history := k\<rparr>" by (rule exI [of _ "current_history (sh s)"]) simp
  then show ?thesis using assms by (auto simp: key_frame_def sys_beep_def sys_nosound_def Let_def)
qed

text \<open>The text of the line after a key that is not one of the two history keys.\<close>

definition edited :: "byte \<Rightarrow> string \<Rightarrow> string" where
  "edited c str =
     (if c = CHR 0x0D then str
      else if c = CHR 0x08 then butlast str
      else if c = CHR 0x09 then (if str = [] then [] else complete str)
      else if 32 \<le> schar c \<and> schar c \<le> 126 \<and> length str < 126 then str @ [c]
      else str)"

lemma schar_NUL: "schar NUL = 0"
  by (simp add: schar_def)

lemma shell_key_total:
  assumes "shell_inv (sh s)" and "line_inv l"
  shows "\<exists>s' l'. shell_key c s l = Some (c = CHR 0x0D, s', l') \<and> key_frame s s' \<and> line_inv l' \<and>
    (if c = CHR 0x48 \<and> history_pos (sh s) > 0
     then \<exists>k. 0 \<le> k \<and> k < 10 \<and> arr_cstr (history (sh s) ! nat k) = Some (line_text l')
     else if c = CHR 0x50 \<and> current_history (sh s) \<noteq> - 1 then True
     else line_text l' = edited c (line_text l))"
proof -
  note pos = line_position [OF assms(2)] and len = line_text_length [OF assms(2)]
  have scr: "key_frame s s'" if "screen_only s s'" for s' by (rule key_frame_screen [OF assms(1) that])
  have low: "schar (CHR 0x0D) < 32" "schar (CHR 0x08) < 32" "schar (CHR 0x09) < 32"
    by (simp_all add: schar_def)
  consider "c = CHR 0x0D" | "c = CHR 0x08" "position l > 0" | "c = CHR 0x08" "\<not> position l > 0"
    | "c = CHR 0x48" "history_pos (sh s) > 0" | "c = CHR 0x50" "current_history (sh s) \<noteq> - 1"
    | "c = CHR 0x09"
    | "c \<noteq> CHR 0x0D" "c \<noteq> CHR 0x08" "c \<noteq> CHR 0x09" "\<not> (c = CHR 0x48 \<and> history_pos (sh s) > 0)"
      "\<not> (c = CHR 0x50 \<and> current_history (sh s) \<noteq> - 1)"
    by blast
  then show ?thesis
  proof cases
    case 1
    then show ?thesis using assms line_terminate [OF assms(2)] scr [OF write_sys_screen]
      by (simp add: shell_key_def put_plain ln_def edited_def)
  next
    case 2
    then show ?thesis using line_delete [OF assms(2) 2(2)] scr [OF write_sys_screen]
      by (auto simp: shell_key_def put_plain rubout_def edited_def)
  next
    case 3
    then have "line_text l = []" by (simp add: line_text_def)
    then show ?thesis using 3 assms scr [OF screen_only_refl] low(2)
      by (auto simp: shell_key_def edited_def MAX_INPUT_def)
  next
    case 4
    then show ?thesis using key_up_total [OF assms 4(2)] by (auto simp: shell_key_def)
  next
    case 5
    then show ?thesis using key_down_total [OF assms 5(2)] by (auto simp: shell_key_def)
  next
    case 6
    then show ?thesis using key_tab_total [OF assms(2), of s] scr
      by (auto simp: shell_key_def edited_def)
  next
    case 7
    have lt: "position l < 126 \<longleftrightarrow> length (line_text l) < 126" using len pos by auto
    show ?thesis
    proof (cases "position l < 126 \<and> 32 \<le> schar c \<and> schar c \<le> 126")
      case True
      then have "c \<noteq> NUL" using schar_NUL by auto
      with True obtain a where a: "(do { a \<leftarrow> arr_set (input l) (position l) c; arr_set a (position l + 1) NUL }) = Some a"
        "line_inv \<lparr>input = a, position = position l + 1\<rparr>"
        "line_text \<lparr>input = a, position = position l + 1\<rparr> = line_text l @ [c]"
        using line_insert [OF assms(2)] by blast
      then obtain b where b: "arr_set (input l) (position l) c = Some b" "arr_set b (position l + 1) NUL = Some a"
        by (auto simp: option_bind_Some_iff)
      show ?thesis using 7 True a(2,3) b lt scr sys_putchar_screen [of s c]
        by (auto simp: shell_key_def edited_def MAX_INPUT_def)
    next
      case False
      then have "edited c (line_text l) = line_text l" using 7 lt by (auto simp: edited_def)
      then show ?thesis using 7 False assms key_frame_beep [OF assms(1), of 1000] scr [OF screen_only_refl]
        by (auto simp: shell_key_def MAX_INPUT_def)
    qed
  qed
qed

section \<open>Aliases\<close>

text \<open>The table as an association list, in order.\<close>

definition alias_list :: "shell \<Rightarrow> (string \<times> string) list" where
  "alias_list h = map (\<lambda>e. (the (entry_name e), the (arr_cstr (a_command e))))
     (take (nat (alias_count h)) (aliases h))"

lemma row_ok_cstr: "row_ok n row \<Longrightarrow> \<exists>str. arr_cstr row = Some str \<and> NUL \<notin> set str"
proof -
  assume "row_ok n row"
  then obtain str where "arr_cstr row = Some str" by (auto simp: row_ok_def arr_cstr_def)
  then show ?thesis using arr_cstr_Some by blast
qed

lemma entry_row_name:
  assumes "entry_row e"
  obtains str where "entry_name e = Some str" and "NUL \<notin> set str"
proof -
  have "NUL \<in> set (a_alias e @ a_command e)" using assms by (simp add: entry_row_def row_ok_def)
  then obtain str where str: "entry_name e = Some str" by (auto simp: entry_name_def arr_cstr_def)
  then show thesis using that arr_cstr_Some by (auto simp: entry_name_def)
qed

lemma find_alias_spec:
  assumes "\<forall>e \<in> set es. entry_row e" and "NUL \<notin> set nm"
  shows "find_alias es nm i = Some (map_option (\<lambda>k. i + k)
    (if nm \<in> set (map (\<lambda>e. the (entry_name e)) es)
     then Some (length (takeWhile (\<lambda>e. the (entry_name e) \<noteq> nm) es)) else None))"
  using assms
proof (induction es arbitrary: i)
  case (Cons e es)
  have row: "entry_row e" "\<forall>e \<in> set es. entry_row e" using Cons.prems(1) by simp_all
  obtain str where str: "entry_name e = Some str" "NUL \<notin> set str" by (rule entry_row_name [OF row(1)])
  have eq: "strcmp_spec str nm = 0 \<longleftrightarrow> str = nm" using strcmp_spec_eq_0 [OF str(2) assms(2)] .
  show ?case using Cons.IH [OF row(2) assms(2), of "i + 1"] by (auto simp: str(1) eq)
qed simp

text \<open>The name under which a command is found again: of a name with 32 characters or more the command, copied after
  it into the same entry, has overwritten all but the first 32.\<close>

definition alias_name :: "string \<Rightarrow> string \<Rightarrow> string" where
  "alias_name nm c = (if length nm < 32 then nm else take 32 nm @ c)"

fun enter_alias :: "string \<Rightarrow> string \<Rightarrow> (string \<times> string) list \<Rightarrow> (string \<times> string) list" where
  "enter_alias nm c [] = [(alias_name nm c, c)]"
| "enter_alias nm c ((k, d) # al) =
     (if k = nm then (alias_name nm c, c) # al else (k, d) # enter_alias nm c al)"

lemma enter_alias_cases:
  "enter_alias nm c al =
     (if nm \<in> fst ` set al then al[length (takeWhile (\<lambda>p. fst p \<noteq> nm) al) := (alias_name nm c, c)]
      else al @ [(alias_name nm c, c)])"
proof (induction al)
  case (Cons p al)
  then show ?case by (cases p; cases "fst p = nm") (simp_all split: if_splits)
qed simp

lemma set_enter_alias: "set (enter_alias nm c al) \<subseteq> insert (alias_name nm c, c) (set al)"
  by (induction al) (auto split: if_splits)

lemma map_of_enter_alias: "length nm < 32 \<Longrightarrow> map_of (enter_alias nm c al) = (map_of al)(nm \<mapsto> c)"
  by (induction al) (auto simp: alias_name_def fun_eq_iff)

text \<open>The two copies into a free entry, and the copy over the command of one in use.\<close>

lemma entry_written:
  assumes "entry_row e" and "NUL \<notin> set nm" and "length nm < 160" and "NUL \<notin> set cmd" and "length cmd < 128"
  obtains a c where "arr_strcpy (a_alias e @ a_command e) 0 nm = Some a" and "arr_strcpy (drop 32 a) 0 cmd = Some c"
    and "entry_row \<lparr>a_alias = take 32 a, a_command = c\<rparr>" and "arr_cstr c = Some cmd"
    and "entry_name \<lparr>a_alias = take 32 a, a_command = c\<rparr> = Some (alias_name nm cmd)"
proof -
  have len: "length (a_alias e @ a_command e) = 160" using assms(1) by (simp add: entry_row_def row_ok_def)
  then obtain xs where a: "arr_strcpy (a_alias e @ a_command e) 0 nm = Some (nm @ NUL # xs)" "length (nm @ NUL # xs) = 160"
    using assms(3) by (simp add: arr_strcpy_def)
  then have d: "length (drop 32 (nm @ NUL # xs)) = 128" by simp
  then obtain ys where c: "arr_strcpy (drop 32 (nm @ NUL # xs)) 0 cmd = Some (cmd @ NUL # ys)" "length (cmd @ NUL # ys) = 128"
    using assms(5) by (simp add: arr_strcpy_def)
  have "entry_name \<lparr>a_alias = take 32 (nm @ NUL # xs), a_command = cmd @ NUL # ys\<rparr> = Some (alias_name nm cmd)"
  proof (cases "length nm < 32")
    case True
    then have "take 32 (nm @ NUL # xs) = nm @ NUL # take (31 - length nm) xs" by (simp add: take_Cons')
    then show ?thesis using True arr_cstr_append [OF assms(2)] by (simp add: entry_name_def alias_name_def)
  next
    case False
    have "NUL \<notin> set (take 32 nm @ cmd)" using assms(2,4) by (auto dest: in_set_takeD)
    from arr_cstr_append [OF this, of ys] False show ?thesis by (simp add: entry_name_def alias_name_def)
  qed
  moreover have "entry_row \<lparr>a_alias = take 32 (nm @ NUL # xs), a_command = cmd @ NUL # ys\<rparr>"
    using a(2) c(2) by (simp add: entry_row_def row_ok_def)
  ultimately show thesis using that [OF a(1) c(1)] arr_cstr_append [OF assms(4)] by blast
qed

lemma entry_updated:
  assumes "entry_row e" and "the (entry_name e) = nm" and "NUL \<notin> set cmd" and "length cmd < 128"
  obtains c where "arr_strcpy (a_command e) 0 cmd = Some c" and "entry_row (e\<lparr>a_command := c\<rparr>)"
    and "arr_cstr c = Some cmd" and "entry_name (e\<lparr>a_command := c\<rparr>) = Some (alias_name nm cmd)"
proof -
  have len: "length (a_alias e) = 32" "length (a_command e) = 128" using assms(1) by (simp_all add: entry_row_def row_ok_def)
  then obtain ys where c: "arr_strcpy (a_command e) 0 cmd = Some (cmd @ NUL # ys)" "length (cmd @ NUL # ys) = 128"
    using assms(4) by (simp add: arr_strcpy_def)
  have nm: "nm = takeWhile (\<lambda>c. c \<noteq> NUL) (a_alias e @ a_command e)"
    using assms(1,2) by (simp add: entry_name_def arr_cstr_def entry_row_def row_ok_def)
  have "entry_name (e\<lparr>a_command := cmd @ NUL # ys\<rparr>) = Some (alias_name nm cmd)"
  proof (cases "NUL \<in> set (a_alias e)")
    case True
    then have nm': "nm = takeWhile (\<lambda>c. c \<noteq> NUL) (a_alias e)" unfolding nm by (subst takeWhile_append1 [OF True]) simp_all
    have "arr_cstr (a_alias e) = Some nm" using True by (simp add: nm' arr_cstr_def)
    then have "length nm < 32" using arr_cstr_Some [of "a_alias e" nm] len by simp
    then show ?thesis using True nm' by (simp add: entry_name_def arr_cstr_def alias_name_def takeWhile_append1 [OF True])
  next
    case False
    have n: "nm = a_alias e @ takeWhile (\<lambda>c. c \<noteq> NUL) (a_command e)"
      unfolding nm by (rule takeWhile_append2) (use False in auto)
    have "NUL \<notin> set (a_alias e @ cmd)" using False assms(3) by simp
    from arr_cstr_append [OF this, of ys] show ?thesis using len by (simp add: entry_name_def alias_name_def n)
  qed
  moreover have "entry_row (e\<lparr>a_command := cmd @ NUL # ys\<rparr>)" using len c(2) by (simp add: entry_row_def row_ok_def)
  ultimately show thesis using that [OF c(1)] arr_cstr_append [OF assms(3)] by blast
qed

end
