(* ===== verification/ShellTables.thy ===== *)
theory ShellTables
  imports ShellFacts
begin

text \<open>
  The shell's tables against their abstractions: the alias table is an association list, in which a name that fits
  its array is entered as into a map, the history the last lines entered, newest first; and when the calculator's
  division instruction traps.
\<close>

section \<open>The alias table is a map\<close>

lemma map_of_first:
  "map_of (map (\<lambda>e. (f e, g e)) es) x =
     (if x \<in> f ` set es then Some (g (es ! length (takeWhile (\<lambda>e. f e \<noteq> x) es))) else None)"
  by (induction es) auto

lemma length_takeWhile_less:
  "\<exists>e \<in> set es. \<not> P e \<Longrightarrow> length (takeWhile P es) < length es"
  by (induction es) auto

lemma takeWhile_map_fst: "length (takeWhile (\<lambda>p. fst p \<noteq> x) (map (\<lambda>e. (f e, g e)) es)) =
  length (takeWhile (\<lambda>e. f e \<noteq> x) es)"
  by (induction es) simp_all

lemma alias_rows:
  assumes "shell_inv h"
  shows "\<forall>e \<in> set (take n (aliases h)). entry_row e"
  using assms set_take_subset [of n "aliases h"] by (auto simp: shell_inv_def)

lemma resolve_alias_map:
  assumes "shell_inv h" and "NUL \<notin> set nm"
  shows "resolve_alias nm h = Some (map_of (alias_list h) nm)"
proof -
  let ?es = "take (nat (alias_count h)) (aliases h)" and ?key = "\<lambda>e. the (entry_name e)"
  let ?k = "length (takeWhile (\<lambda>e. ?key e \<noteq> nm) ?es)"
  have rows: "\<forall>e \<in> set ?es. entry_row e" using alias_rows [OF assms(1)] by blast
  note f = find_alias_spec [OF rows assms(2), of 0]
  show ?thesis
  proof (cases "nm \<in> ?key ` set ?es")
    case False
    then show ?thesis using f by (simp add: resolve_alias_def alias_list_def map_of_first)
  next
    case True
    then have "\<exists>e \<in> set ?es. \<not> ?key e \<noteq> nm" by auto
    then have k: "?k < length ?es" by (rule length_takeWhile_less)
    then have at: "alias_at (int ?k) h = ?es ! ?k" by (simp add: alias_at_def)
    have "?es ! ?k \<in> set ?es" using k by (rule nth_mem)
    then obtain c where "arr_cstr (a_command (?es ! ?k)) = Some c"
      using alias_rows [OF assms(1)] row_ok_cstr unfolding entry_row_def by blast
    then show ?thesis using True f at
      by (simp add: resolve_alias_def alias_list_def map_of_first)
  qed
qed

lemma shell_inv_set_alias:
  assumes "shell_inv h" and "entry_row e" and "0 \<le> c" and "c \<le> 20"
  shows "shell_inv (h\<lparr>aliases := (aliases h)[i := e], alias_count := c\<rparr>)"
  using assms set_update_subset_insert [of "aliases h" i e] by (auto simp: shell_inv_def)

text \<open>The entries in use, as pairs, and where a name is found among them.\<close>

lemma alias_entries:
  fixes h :: shell
  defines "es \<equiv> take (nat (alias_count h)) (aliases h)"
  assumes inv: "shell_inv h" and nm: "NUL \<notin> set nm"
  shows "alias_list h = map (\<lambda>e. (the (entry_name e), the (arr_cstr (a_command e)))) es"
    and "find_alias es nm 0 = Some (if nm \<in> fst ` set (alias_list h)
      then Some (length (takeWhile (\<lambda>e. the (entry_name e) \<noteq> nm) es)) else None)"
    and "0 \<le> alias_count h" and "length (aliases h) = 20"
proof -
  show al: "alias_list h = map (\<lambda>e. (the (entry_name e), the (arr_cstr (a_command e)))) es"
    by (simp add: alias_list_def es_def)
  have "\<forall>e \<in> set es. entry_row e" using alias_rows [OF inv] by (simp add: es_def)
  from find_alias_spec [OF this nm, of 0] show "find_alias es nm 0 = Some (if nm \<in> fst ` set (alias_list h)
      then Some (length (takeWhile (\<lambda>e. the (entry_name e) \<noteq> nm) es)) else None)"
    by (simp add: al image_image)
qed (use inv in \<open>simp_all add: shell_inv_def\<close>)

lemma add_alias_update:
  assumes inv: "shell_inv (sh s)" and room: "alias_count (sh s) < 20"
    and nm: "NUL \<notin> set nm" and cmd: "NUL \<notin> set cmd" "length cmd < 128"
    and old: "nm \<in> fst ` set (alias_list (sh s))"
  shows "\<exists>s'. add_alias nm cmd s = Some s' \<and> shell_inv (sh s') \<and>
    alias_list (sh s') = enter_alias nm cmd (alias_list (sh s)) \<and>
    alias_count (sh s') = alias_count (sh s) \<and> irq (mach s') = irq (mach s)"
proof -
  let ?h = "sh s" and ?key = "\<lambda>e. the (entry_name e)"
  define n where "n = nat (alias_count ?h)"
  define es where "es = take n (aliases ?h)"
  note f = alias_entries [OF inv nm, folded n_def, folded es_def]
  define k where "k = length (takeWhile (\<lambda>e. ?key e \<noteq> nm) es)"
  have "\<exists>e \<in> set es. \<not> ?key e \<noteq> nm" using old by (auto simp: f(1))
  then have k: "k < length es" unfolding k_def by (rule length_takeWhile_less)
  then have k': "k < 20" "es ! k = aliases ?h ! k" "es ! k \<in> set (aliases ?h)"
    using f(4) by (simp_all add: es_def)
  have key: "?key (es ! k) = nm"
    using nth_length_takeWhile [of "\<lambda>e. ?key e \<noteq> nm" es] k by (simp add: k_def)
  let ?e = "es ! k"
  have row: "entry_row ?e" using inv k'(3) by (auto simp: shell_inv_def)
  obtain c where c: "arr_strcpy (a_command ?e) 0 cmd = Some c" "entry_row (?e\<lparr>a_command := c\<rparr>)" "arr_cstr c = Some cmd"
    "entry_name (?e\<lparr>a_command := c\<rparr>) = Some (alias_name nm cmd)" by (rule entry_updated [OF row key cmd])
  let ?s = "set_alias (int k) (?e\<lparr>a_command := c\<rparr>) s"
  obtain s' where s': "print_success (ln ''Alias updated'') ?s = Some s'" "screen_only ?s s'"
    using print_total(3) by blast
  have sh': "sh s' = ?h\<lparr>aliases := (aliases ?h)[k := ?e\<lparr>a_command := c\<rparr>]\<rparr>"
    using screen_only_simps(1) [OF s'(2)] by (simp add: set_alias_def)
  have run: "add_alias nm cmd s = Some s'"
    using room c(1) s'(1) k'(2) f(2) old
    by (simp add: add_alias_def Let_def alias_at_def MAX_ALIASES_def es_def n_def k_def)
  have new: "alias_list (sh s') = (alias_list ?h)[k := (alias_name nm cmd, cmd)]"
    using c(3,4) by (simp add: sh' alias_list_def es_def n_def take_update_swap map_update)
  have "k = length (takeWhile (\<lambda>p. fst p \<noteq> nm) (alias_list ?h))"
    by (simp only: f(1) takeWhile_map_fst k_def)
  then have "alias_list (sh s') = enter_alias nm cmd (alias_list ?h)" using new old by (simp add: enter_alias_cases)
  moreover have "shell_inv (sh s')"
    using shell_inv_set_alias [OF inv c(2), of "alias_count ?h" k] room f(3) by (simp add: sh')
  ultimately show ?thesis using run screen_only_simps(2) [OF s'(2)] by (auto simp: sh' set_alias_def)
qed

lemma add_alias_new:
  assumes inv: "shell_inv (sh s)" and room: "alias_count (sh s) < 20"
    and nm: "NUL \<notin> set nm" "length nm < 160" and cmd: "NUL \<notin> set cmd" "length cmd < 128"
    and fresh: "nm \<notin> fst ` set (alias_list (sh s))"
  shows "\<exists>s'. add_alias nm cmd s = Some s' \<and> shell_inv (sh s') \<and>
    alias_list (sh s') = enter_alias nm cmd (alias_list (sh s)) \<and>
    alias_count (sh s') = alias_count (sh s) + 1 \<and> irq (mach s') = irq (mach s)"
proof -
  let ?h = "sh s"
  define n where "n = nat (alias_count ?h)"
  note f = alias_entries [OF inv nm(1), folded n_def]
  have n: "n < 20" "int n = alias_count ?h" using room f(3) by (simp_all add: n_def)
  let ?e = "aliases ?h ! n"
  have "?e \<in> set (aliases ?h)" using n f(4) by simp
  then have row: "entry_row ?e" using inv by (auto simp: shell_inv_def)
  obtain a c where w: "arr_strcpy (a_alias ?e @ a_command ?e) 0 nm = Some a" "arr_strcpy (drop 32 a) 0 cmd = Some c"
    "entry_row \<lparr>a_alias = take 32 a, a_command = c\<rparr>" "arr_cstr c = Some cmd"
    "entry_name \<lparr>a_alias = take 32 a, a_command = c\<rparr> = Some (alias_name nm cmd)"
    by (rule entry_written [OF row nm cmd])
  let ?new = "\<lparr>a_alias = take 32 a, a_command = c\<rparr>"
  let ?s1 = "set_alias (alias_count ?h) ?new s"
  let ?s = "?s1\<lparr>sh := (sh ?s1)\<lparr>alias_count := alias_count ?h + 1\<rparr>\<rparr>"
  obtain s' where s': "print_success (ln ''Alias added'') ?s = Some s'" "screen_only ?s s'"
    using print_total(3) by blast
  have sh': "sh s' = ?h\<lparr>aliases := (aliases ?h)[n := ?new], alias_count := alias_count ?h + 1\<rparr>"
    using screen_only_simps(1) [OF s'(2)] by (simp add: set_alias_def n_def)
  have run: "add_alias nm cmd s = Some s'"
    using room f(2) fresh w(1,2) s'(1) by (simp add: add_alias_def Let_def alias_at_def MAX_ALIASES_def n_def)
  have "nat (alias_count ?h + 1) = Suc n" using n by simp
  then have "alias_list (sh s') = alias_list ?h @ [(alias_name nm cmd, cmd)]"
    using n f(4) w(4,5) by (simp add: sh' alias_list_def n_def [symmetric] take_Suc_conv_app_nth)
  then have "alias_list (sh s') = enter_alias nm cmd (alias_list ?h)" using fresh by (simp add: enter_alias_cases)
  moreover have "shell_inv (sh s')"
    using shell_inv_set_alias [OF inv w(3), of "alias_count ?h + 1" n] n room f(3) by (simp add: sh')
  ultimately show ?thesis using run screen_only_simps(2) [OF s'(2)] by (auto simp: sh' set_alias_def)
qed

text \<open>Entering a name, of any length that leaves the entry's neighbours alone.\<close>

lemma add_alias_enters:
  assumes "shell_inv (sh s)" and "alias_count (sh s) < 20"
    and "NUL \<notin> set nm" "length nm < 160" and "NUL \<notin> set cmd" "length cmd < 128"
  shows "\<exists>s'. add_alias nm cmd s = Some s' \<and> shell_inv (sh s') \<and>
    alias_list (sh s') = enter_alias nm cmd (alias_list (sh s)) \<and>
    alias_count (sh s') = (if nm \<in> fst ` set (alias_list (sh s)) then alias_count (sh s) else alias_count (sh s) + 1) \<and>
    irq (mach s') = irq (mach s)"
  using add_alias_update [OF assms(1-3,5,6)] add_alias_new [OF assms] by presburger

text \<open>A name that fits its array updates the map.\<close>

lemma add_alias_map:
  assumes "shell_inv (sh s)" and "alias_count (sh s) < 20"
    and "NUL \<notin> set nm" "length nm < 32" and "NUL \<notin> set cmd" "length cmd < 128"
  shows "\<exists>s'. add_alias nm cmd s = Some s' \<and> shell_inv (sh s') \<and>
    map_of (alias_list (sh s')) = (map_of (alias_list (sh s)))(nm \<mapsto> cmd) \<and>
    alias_count (sh s') = (if nm \<in> fst ` set (alias_list (sh s)) then alias_count (sh s) else alias_count (sh s) + 1) \<and>
    irq (mach s') = irq (mach s)"
  using add_alias_enters [OF assms(1-3) _ assms(5,6)] assms(4) map_of_enter_alias [OF assms(4)] by fastforce

section \<open>The division instruction\<close>

definition in_int :: "int \<Rightarrow> bool" where
  "in_int x \<longleftrightarrow> - (2 ^ 31) \<le> x \<and> x < 2 ^ 31"

lemma sdiv_traps:
  assumes "in_int x" and "in_int y"
  shows "x sdiv y \<ge> 2 ^ 31 \<longleftrightarrow> x = - (2 ^ 31) \<and> y = - 1"
proof
  assume big: "x sdiv y \<ge> 2 ^ 31"
  have "x sdiv y \<le> \<bar>x\<bar>" using sdiv_int_range [of x y] by simp
  with big assms(1) have x: "x = - (2 ^ 31)" "x sdiv y = - x"
    by (auto simp: in_int_def simp del: int_sdiv_negated_is_minus1)
  then have "y = - 1" using int_sdiv_negated_is_minus1 [of x y] by auto
  with x show "x = - (2 ^ 31) \<and> y = - 1" by blast
qed simp

lemma in_int_sint: "in_int (sint (a :: u32))"
  using sint_range_size [of a] by (simp add: in_int_def word_size)

lemma idiv_traps_iff: "idiv_traps a b \<longleftrightarrow> b = 0 \<or> sint a = - (2 ^ 31) \<and> sint b = - 1"
  by (simp only: idiv_traps_def sdiv_traps [OF in_int_sint in_int_sint])

section \<open>History\<close>

definition recent :: "shell \<Rightarrow> int \<Rightarrow> string" where
  "recent h k = the (arr_cstr (history h ! nat ((history_pos h - 1 - k) mod 10)))"

lemma add_history_recent:
  assumes inv: "shell_inv h" and cmd: "NUL \<notin> set cmd" "0 < length cmd" "length cmd \<le> 126"
  shows "\<exists>h'. add_to_history cmd h = Some h' \<and> shell_inv h' \<and> recent h' 0 = cmd \<and>
    (if history_pos h > 0 \<and> recent h 0 = cmd then h' = h
     else history_pos h' = (history_pos h + 1) mod 10 \<and>
       (\<forall>k. 0 \<le> k \<and> k < 9 \<longrightarrow> recent h' (k + 1) = recent h k)) \<and>
    (\<exists>hs p. h' = h\<lparr>history := hs, history_pos := p\<rparr>)"
proof -
  let ?p = "history_pos h"
  have p: "0 \<le> ?p" "?p < 10" "length (history h) = 10" using inv by (auto simp: shell_inv_def)
  have self: "\<exists>hs p. h = h\<lparr>history := hs, history_pos := p\<rparr>"
    by (rule exI [of _ "history h"], rule exI [of _ ?p]) simp
  have dup: "recent h 0 = str" if "?p > 0" "arr_cstr (history h ! nat (?p - 1)) = Some str" for str
    using that p by (simp add: recent_def)
  obtain prev where prev: "?p > 0 \<Longrightarrow> arr_cstr (history h ! nat (?p - 1)) = Some prev" "NUL \<notin> set prev"
  proof (cases "?p > 0")
    case True
    then have "0 \<le> ?p - 1" "?p - 1 < 10" using p by simp_all
    from hist_row [OF inv this] that show thesis by blast
  next
    case False
    then show thesis using that [of "[]"] by simp
  qed
  show ?thesis
  proof (cases "?p > 0 \<and> prev = cmd")
    case True
    then have "add_to_history cmd h = Some h"
      using prev cmd by (simp add: add_to_history_def strcmp_spec_eq_0)
    then show ?thesis using inv dup True prev(1) self by (auto intro: exI [of _ h])
  next
    case False
    have "length (history h ! nat ?p) = MAX_INPUT"
      using inv p nth_mem [of "nat ?p" "history h"] by (auto simp: shell_inv_def hist_ok_def)
    then obtain row where row: "arr_strcpy (history h ! nat ?p) 0 cmd = Some row" "length row = MAX_INPUT"
      using cmd(3) by (simp add: arr_strcpy_def MAX_INPUT_def)
    have rc: "arr_cstr row = Some cmd" by (rule arr_cstr_strcpy [OF cmd(1) row(1)])
    let ?h = "h\<lparr>history := (history h)[nat ?p := row], history_pos := (?p + 1) mod HISTORY_SIZE\<rparr>"
    have run: "add_to_history cmd h = Some ?h"
      using False prev cmd row(1) by (auto simp: add_to_history_def strcmp_spec_eq_0)
    have "hist_ok row" using row(2) rc cmd(3) by (simp add: hist_ok_def)
    moreover have "set ((history h)[nat ?p := row]) \<subseteq> insert row (set (history h))"
      by (rule set_update_subset_insert)
    moreover have pos: "0 \<le> (?p + 1) mod 10 \<and> (?p + 1) mod 10 < 10" by simp
    ultimately have inv': "shell_inv ?h" using inv unfolding shell_inv_def HISTORY_SIZE_def by auto
    have idx: "((?p + 1) mod 10 - 1 - k) mod 10 = (?p - k) mod 10" for k
      using mod_diff_left_eq [of "?p + 1" 10 "1 + k"] by (simp add: algebra_simps)
    have new: "recent ?h 0 = cmd" using p rc idx [of 0] by (simp add: recent_def HISTORY_SIZE_def)
    have "recent ?h (k + 1) = recent h k" if k: "0 \<le> k" "k < 9" for k
    proof -
      have "(?p - (k + 1)) mod 10 \<noteq> ?p" using p k by presburger
      moreover have "0 \<le> (?p - (k + 1)) mod 10" by simp
      ultimately have "nat ?p \<noteq> nat ((?p - (k + 1)) mod 10)" using p by (simp add: eq_nat_nat_iff)
      then show ?thesis using idx [of "k + 1"] by (simp add: recent_def HISTORY_SIZE_def algebra_simps)
    qed
    moreover have "\<not> (?p > 0 \<and> recent h 0 = cmd)" using False dup prev(1) by blast
    ultimately show ?thesis using run inv' new
      by (intro exI [of _ ?h]) (auto simp: HISTORY_SIZE_def)
  qed
qed

text \<open>The alias commands change the shell and the screen, nothing else.\<close>

definition shell_only :: "sys \<Rightarrow> sys \<Rightarrow> bool" where
  "shell_only s s' \<longleftrightarrow> (\<exists>h t. s' = s\<lparr>sh := h, mach := (mach s)\<lparr>screen := t\<rparr>\<rparr>)"

lemma shell_only_refl [simp]: "shell_only s s"
  unfolding shell_only_def by (rule exI [of _ "sh s"], rule exI [of _ "screen (mach s)"]) simp

lemma shell_only_trans: "shell_only s s' \<Longrightarrow> shell_only s' s'' \<Longrightarrow> shell_only s s''"
proof -
  assume "shell_only s s'" "shell_only s' s''"
  then obtain h t h' t' where "s' = s\<lparr>sh := h, mach := (mach s)\<lparr>screen := t\<rparr>\<rparr>"
    "s'' = s'\<lparr>sh := h', mach := (mach s')\<lparr>screen := t'\<rparr>\<rparr>" by (auto simp: shell_only_def)
  then have "s'' = s\<lparr>sh := h', mach := (mach s)\<lparr>screen := t'\<rparr>\<rparr>" by simp
  then show ?thesis unfolding shell_only_def by blast
qed

lemma screen_shell_only: "screen_only s s' \<Longrightarrow> shell_only s s'"
proof -
  assume "screen_only s s'"
  then obtain t where "s' = s\<lparr>mach := (mach s)\<lparr>screen := t\<rparr>\<rparr>" by (auto simp: screen_only_def)
  then have "s' = s\<lparr>sh := sh s, mach := (mach s)\<lparr>screen := t\<rparr>\<rparr>" by simp
  then show ?thesis unfolding shell_only_def by blast
qed

lemma shell_only_sh: "shell_only s (s\<lparr>sh := h\<rparr>)"
  unfolding shell_only_def by (rule exI [of _ h], rule exI [of _ "screen (mach s)"]) simp

lemma shell_only_simps:
  "shell_only s s' \<Longrightarrow> fs (mach s') = fs (mach s)" "shell_only s s' \<Longrightarrow> irq (mach s') = irq (mach s)"
  "shell_only s s' \<Longrightarrow> frame s' = frame s" "shell_only s s' \<Longrightarrow> status (mach s') = status (mach s)"
  by (auto simp: shell_only_def)

lemma print_success_frame: "print_success str s = Some s' \<Longrightarrow> screen_only s s'"
  using print_total(3) [of str s] by auto

lemma print_error_frame: "print_error str s = Some s' \<Longrightarrow> screen_only s s'"
  using print_total(2) [of str s] by auto

lemma add_alias_frame: "add_alias nm cmd s = Some s' \<Longrightarrow> shell_only s s'"
  by (auto simp: add_alias_def set_alias_def Let_def option_bind_Some_iff split: if_splits option.splits
      dest!: print_success_frame print_error_frame screen_shell_only
      intro: shell_only_trans [OF shell_only_sh])

end
