(* ===== verification/LineFacts.thy ===== *)
theory LineFacts
  imports ShellFacts
begin

text \<open>
  Reading a line: sequences of keys in the editor, and the loop of \<^verbatim>\<open>start_shell\<close> that fetches
  them from the keyboard, as a function of the scancodes.
\<close>

section \<open>Sequences of keys\<close>

text \<open>Keys handled one after the other.\<close>

fun run_keys :: "byte list \<Rightarrow> sys \<Rightarrow> line \<Rightarrow> (sys \<times> line) option" where
  "run_keys [] s l = Some (s, l)"
| "run_keys (c # cs) s l = do { (complete, s, l) \<leftarrow> shell_key c s l; run_keys cs s l }"

lemma key_frame_refl: "shell_inv (sh s) \<Longrightarrow> key_frame s s"
  by (rule key_frame_screen) simp_all

lemma key_frame_trans:
  assumes "key_frame s s'" and "key_frame s' s''"
  shows "key_frame s s''"
proof -
  obtain k p k' p' where "sh s' = (sh s)\<lparr>current_history := k\<rparr>" "irq (mach s') = (irq (mach s))\<lparr>iports := p\<rparr>"
    "sh s'' = (sh s')\<lparr>current_history := k'\<rparr>" "irq (mach s'') = (irq (mach s'))\<lparr>iports := p'\<rparr>"
    using assms by (auto simp: key_frame_def)
  then show ?thesis using assms
    by (auto simp: key_frame_def intro: exI [of _ k'] exI [of _ p'])
qed

lemma key_frame_inv: "key_frame s s' \<Longrightarrow> shell_inv (sh s')"
  by (simp add: key_frame_def)

lemma run_keys_safe:
  assumes "shell_inv (sh s)" and "line_inv l"
  shows "\<exists>s' l'. run_keys cs s l = Some (s', l') \<and> key_frame s s' \<and> line_inv l'"
  using assms
proof (induction cs arbitrary: s l)
  case Nil
  then show ?case using key_frame_refl by simp
next
  case (Cons c cs)
  obtain s1 l1 where k: "shell_key c s l = Some (c = CHR 0x0D, s1, l1)" "key_frame s s1" "line_inv l1"
    using shell_key_total [OF Cons.prems, of c] by blast
  obtain s2 l2 where "run_keys cs s1 l1 = Some (s2, l2)" "key_frame s1 s2" "line_inv l2"
    using Cons.IH [OF key_frame_inv [OF k(2)] k(3)] by blast
  then show ?case using k key_frame_trans by auto
qed

lemma run_keys_text:
  assumes "shell_inv (sh s)" and "line_inv l" and "set cs \<inter> {CHR ''H'', CHR ''P''} = {}"
  shows "\<exists>s' l'. run_keys cs s l = Some (s', l') \<and> line_text l' = fold edited cs (line_text l)"
  using assms
proof (induction cs arbitrary: s l)
  case (Cons c cs)
  have c: "c \<noteq> CHR ''H''" "c \<noteq> CHR ''P''" "set cs \<inter> {CHR ''H'', CHR ''P''} = {}"
    using Cons.prems(3) by auto
  obtain s1 l1 where k: "shell_key c s l = Some (c = CHR 0x0D, s1, l1)" "key_frame s s1" "line_inv l1"
    "line_text l1 = edited c (line_text l)"
    using shell_key_total [OF Cons.prems(1,2), of c] c by auto
  from Cons.IH [OF key_frame_inv [OF k(2)] k(3) c(3)] show ?case using k by auto
qed simp

section \<open>From the keyboard to the line\<close>

lemma key_of_range: "key_of sc = Some c \<Longrightarrow> c \<noteq> CHR ''H'' \<and> c \<noteq> CHR ''P'' \<and> c \<noteq> NUL"
proof -
  assume k: "key_of sc = Some c"
  then have c: "sc AND 0x80 = 0" "c = scancode_to_ascii ! unat sc" "c \<noteq> NUL"
    by (auto simp: key_of_def Let_def split: if_splits)
  have "unat sc < length scancode_to_ascii" using make_code_bound [OF c(1)] by (simp add: length_scancodes)
  then have "c \<in> set scancode_to_ascii" using c(2) by simp
  moreover have "CHR ''H'' \<notin> set scancode_to_ascii" "CHR ''P'' \<notin> set scancode_to_ascii"
    by (simp_all add: scancode_to_ascii_def)
  ultimately show ?thesis using c(3) by blast
qed

text \<open>The keyboard waits: interrupts are on and no key is buffered.\<close>

definition listening :: "intr \<Rightarrow> bool" where
  "listening i \<longleftrightarrow> kbd_inv i \<and> pending i = [] \<and> int_flag i"

lemma listening_iports [simp]: "listening (i\<lparr>iports := p\<rparr>) = listening i"
  by (simp add: listening_def kbd_inv_def pending_def)

lemma getchar_quiet:
  assumes "listening i" and "key_of q = None"
  shows "keyboard_getchar (q # scs) i = keyboard_getchar scs (keyboard_handler_internal q i)"
    and "listening (keyboard_handler_internal q i)"
proof -
  have "key_buffer_pos i = 0" using assms(1) pending_empty by (auto simp: listening_def)
  then show "keyboard_getchar (q # scs) i = keyboard_getchar scs (keyboard_handler_internal q i)"
    using assms(1) by (simp add: listening_def)
  show "listening (keyboard_handler_internal q i)"
    using assms key_handler_pending [of i q] by (simp add: listening_def)
qed

lemma getchar_key:
  assumes "listening i" and "key_of sc = Some c"
  shows "\<exists>i'. keyboard_getchar (sc # rest) i = Some (c, i', rest) \<and> listening i'"
proof -
  let ?i = "keyboard_handler_internal sc i"
  have inv: "kbd_inv i" "pending i = []" "int_flag i" using assms(1) by (simp_all add: listening_def)
  note h = key_handler_pending [OF inv(1), of sc]
  have p: "pending ?i = [c]" using h(2) inv(2) assms(2) by simp
  then have n: "key_buffer_pos ?i \<noteq> 0" using pending_empty [OF h(1)] by auto
  note t = take_key_pending [OF h(1)]
  have "key_buffer_pos i = 0" using inv pending_empty by blast
  then have "keyboard_getchar (sc # rest) i = Some (c, snd (take_key ?i), rest)"
    using inv n t(1) p by (cases rest) (auto simp: case_prod_beta)
  moreover have "listening (snd (take_key ?i))" using p t h(3) inv(3) by (simp add: listening_def)
  ultimately show ?thesis by blast
qed

lemma read_line_typed:
  assumes "shell_inv (sh s)" and "line_inv l" and "listening (irq (mach s))"
    and "\<forall>sc \<in> set scs. key_of sc \<noteq> Some (CHR 0x0D)"
  shows "\<exists>s' l' k. read_line (scs @ 0x1C # rest) s l = Some (s', l', rest) \<and>
    shell_inv (sh s') \<and> sh s' = (sh s)\<lparr>current_history := k\<rparr> \<and> line_inv l' \<and> listening (irq (mach s')) \<and>
    fs (mach s') = fs (mach s) \<and> frame s' = frame s \<and> status (mach s') = status (mach s) \<and>
    line_text l' = fold edited (List.map_filter key_of scs) (line_text l)"
  using assms
proof (induction scs arbitrary: s l)
  case Nil
  have "key_of 0x1C = Some (CHR 0x0D)" by (simp add: key_of_def scancode_to_ascii_def)
  then obtain i where g: "keyboard_getchar (0x1C # rest) (irq (mach s)) = Some (CHR 0x0D, i, rest)" "listening i"
    using getchar_key [OF Nil(3)] by blast
  let ?s = "s\<lparr>mach := (mach s)\<lparr>irq := i\<rparr>\<rparr>"
  have inv: "shell_inv (sh ?s)" using Nil(1) by simp
  obtain s' l' where k: "shell_key (CHR 0x0D) ?s l = Some (True, s', l')" "key_frame ?s s'" "line_inv l'"
    "line_text l' = edited (CHR 0x0D) (line_text l)"
    using shell_key_total [OF inv Nil(2), of "CHR 0x0D"] by auto
  have "read_line ([] @ 0x1C # rest) s l = Some (s', l', rest)"
    by (subst read_line.simps) (simp add: sys_getchar_def g(1) k(1) del: keyboard_getchar.simps)
  then show ?case using k g(2) by (auto simp: key_frame_def edited_def List.map_filter_def)
next
  case (Cons q scs)
  show ?case
  proof (cases "key_of q")
    case None
    let ?i = "keyboard_handler_internal q (irq (mach s))"
    let ?s = "s\<lparr>mach := (mach s)\<lparr>irq := ?i\<rparr>\<rparr>"
    note g = getchar_quiet [OF Cons.prems(3) None]
    have "sys_getchar ((q # scs) @ 0x1C # rest) s = sys_getchar (scs @ 0x1C # rest) ?s"
      using g(1) by (simp add: sys_getchar_def del: keyboard_getchar.simps)
    then have same: "read_line ((q # scs) @ 0x1C # rest) s l = read_line (scs @ 0x1C # rest) ?s l"
      by (subst (1 2) read_line.simps) simp
    have "shell_inv (sh ?s)" "listening (irq (mach ?s))" using Cons.prems(1) g(2) by simp_all
    from Cons.IH [OF this(1) Cons.prems(2) this(2)] Cons.prems(4) same None show ?thesis
      by (auto simp: List.map_filter_def)
  next
    case (Some c)
    then have c: "c \<noteq> CHR 0x0D" using Cons.prems(4) by auto
    obtain i where g: "keyboard_getchar (q # scs @ 0x1C # rest) (irq (mach s)) = Some (c, i, scs @ 0x1C # rest)"
      "listening i" using getchar_key [OF Cons.prems(3) Some] by blast
    let ?s = "s\<lparr>mach := (mach s)\<lparr>irq := i\<rparr>\<rparr>"
    have inv: "shell_inv (sh ?s)" using Cons.prems(1) by simp
    have "c \<noteq> CHR 0x48" "c \<noteq> CHR 0x50" using key_of_range [OF Some] by simp_all
    then obtain s1 l1 where k: "shell_key c ?s l = Some (False, s1, l1)" "key_frame ?s s1" "line_inv l1"
      "line_text l1 = edited c (line_text l)"
      using shell_key_total [OF inv Cons.prems(2), of c] c by auto
    have step: "read_line ((q # scs) @ 0x1C # rest) s l = read_line (scs @ 0x1C # rest) s1 l1"
      by (subst read_line.simps) (simp add: sys_getchar_def g(1) k(1) del: keyboard_getchar.simps)
    obtain k1 p where f: "sh s1 = (sh s)\<lparr>current_history := k1\<rparr>" "fs (mach s1) = fs (mach s)" "frame s1 = frame s"
      "status (mach s1) = status (mach s)"
      "irq (mach s1) = i\<lparr>iports := p\<rparr>" using k(2) by (auto simp: key_frame_def)
    have "listening (irq (mach s1))" using f(5) g(2) by simp
    from Cons.IH [OF key_frame_inv [OF k(2)] k(3) this] Cons.prems(4) obtain s' l' k' where
      "read_line (scs @ 0x1C # rest) s1 l1 = Some (s', l', rest)" "shell_inv (sh s')"
      "sh s' = (sh s1)\<lparr>current_history := k'\<rparr>" "line_inv l'" "listening (irq (mach s'))"
      "fs (mach s') = fs (mach s1)" "frame s' = frame s1" "status (mach s') = status (mach s1)"
      "line_text l' = fold edited (List.map_filter key_of scs) (line_text l1)"
      by auto
    then show ?thesis using step f k(4) Some by (auto simp: List.map_filter_def)
  qed
qed

text \<open>Without the Enter key the line is never complete, and with interrupts off no key arrives.\<close>

lemma read_line_no_enter:
  assumes "shell_inv (sh s)" and "line_inv l" and "listening (irq (mach s))"
    and "\<forall>sc \<in> set scs. key_of sc \<noteq> Some (CHR 0x0D)"
  shows "read_line scs s l = None"
  using assms
proof (induction scs arbitrary: s l)
  case Nil
  then have "key_buffer_pos (irq (mach s)) = 0" using pending_empty by (auto simp: listening_def)
  then show ?case by (subst read_line.simps) (simp add: sys_getchar_def)
next
  case (Cons q scs)
  show ?case
  proof (cases "key_of q")
    case None
    let ?i = "keyboard_handler_internal q (irq (mach s))"
    let ?s = "s\<lparr>mach := (mach s)\<lparr>irq := ?i\<rparr>\<rparr>"
    note g = getchar_quiet [OF Cons.prems(3) None]
    have "sys_getchar (q # scs) s = sys_getchar scs ?s"
      using g(1) by (simp add: sys_getchar_def del: keyboard_getchar.simps)
    then have "read_line (q # scs) s l = read_line scs ?s l" by (subst (1 2) read_line.simps) simp
    then show ?thesis using Cons.IH [of ?s l] Cons.prems g(2) by simp
  next
    case (Some c)
    then have c: "c \<noteq> CHR 0x0D" using Cons.prems(4) by auto
    obtain i where g: "keyboard_getchar (q # scs) (irq (mach s)) = Some (c, i, scs)" "listening i"
      using getchar_key [OF Cons.prems(3) Some] by blast
    let ?s = "s\<lparr>mach := (mach s)\<lparr>irq := i\<rparr>\<rparr>"
    have inv: "shell_inv (sh ?s)" using Cons.prems(1) by simp
    obtain s1 l1 where k: "shell_key c ?s l = Some (False, s1, l1)" "key_frame ?s s1" "line_inv l1"
      using shell_key_total [OF inv Cons.prems(2), of c] c by auto
    have "listening (irq (mach s1))" using k(2) g(2) by (auto simp: key_frame_def)
    then have "read_line scs s1 l1 = None" using Cons.IH [OF key_frame_inv [OF k(2)] k(3)] Cons.prems(4) by simp
    then show ?thesis
      by (subst read_line.simps) (simp add: sys_getchar_def g(1) k(1) del: keyboard_getchar.simps)
  qed
qed

definition deaf :: "intr \<Rightarrow> bool" where
  "deaf i \<longleftrightarrow> kbd_inv i \<and> pending i = [] \<and> \<not> int_flag i"

lemma deaf_iports [simp]: "deaf (i\<lparr>iports := p\<rparr>) = deaf i"
  by (simp add: deaf_def kbd_inv_def pending_def)

lemma deaf_getchar: "deaf i \<Longrightarrow> keyboard_getchar scs i = None"
  using pending_empty by (cases scs) (auto simp: deaf_def)

lemma read_line_deaf: "deaf (irq (mach s)) \<Longrightarrow> read_line scs s l = None"
  by (subst read_line.simps) (simp add: sys_getchar_def deaf_getchar)

lemma enter_code: "key_of sc = Some (CHR 0x0D) \<longleftrightarrow> sc = 0x1C"
proof
  assume k: "key_of sc = Some (CHR 0x0D)"
  then have c: "sc AND 0x80 = 0" "scancode_to_ascii ! unat sc = CHR 0x0D"
    by (auto simp: key_of_def Let_def split: if_splits)
  have "\<forall>k \<in> set [0..<128]. scancode_to_ascii ! k = CHR 0x0D \<longrightarrow> k = 28" by code_simp
  then have "unat sc = 28" using c(2) make_code_bound [OF c(1)] by simp
  then have "unat sc = unat (0x1C :: u8)" by simp
  then show "sc = 0x1C" by (simp add: word_unat_eq_iff)
qed (simp add: key_of_def scancode_to_ascii_def)

end
