(* ===== verification/ShellProps.thy ===== *)
theory ShellProps
  imports ShellTables LineFacts LibProps
begin

text \<open>
  Properties of the shell, component by component: the parser, the line editor, tab completion,
  aliases, history and the calculator, each with an instance at a concrete input.
\<close>

section \<open>Parsing\<close>

text \<open>A line that fits the static buffer is cut into its words, the maximal runs without blanks, of
  which the first fifteen are kept; a longer line overruns the buffer.\<close>

theorem parse_command_words:
  assumes "NUL \<notin> set str" and "length str < 4096"
  shows "parse_command str = (if length str < 128 then Some (take 15 (tokens blanks str)) else None)"
proof (cases "length str < 128")
  case True
  then show ?thesis using parse_command_tokens [OF assms(1)] by (simp add: MAX_INPUT_def)
next
  case False
  have "PARSE_BUF + length str < DELIMS" using assms(2) by (simp add: PARSE_BUF_def DELIMS_def)
  with False show ?thesis using parse_command_too_long [OF assms(1)] by (simp add: MAX_INPUT_def)
qed

lemma parse_command_words_witness:
  "parse_command (CHR 0x09 # ''write  f a'') = Some [''write'', ''f'', ''a''] \<and>
   parse_command (replicate 128 (CHR ''x'')) = None"
proof
  have "parse_command (CHR 0x09 # ''write  f a'') = Some (take 15 (tokens blanks (CHR 0x09 # ''write  f a'')))"
    using parse_command_words [of "CHR 0x09 # ''write  f a''"] by simp
  then show "parse_command (CHR 0x09 # ''write  f a'') = Some [''write'', ''f'', ''a'']"
    by (simp add: tokens.simps skip_delims_def first_token_def after_token_def blanks_def)
  show "parse_command (replicate 128 (CHR ''x'')) = None"
    using parse_command_words [of "replicate 128 (CHR ''x'')"] by simp
qed

text \<open>Parsing undoes joining: up to fifteen words, joined with blanks into a line that fits, come back.\<close>

theorem parse_command_unwords:
  assumes "\<forall>w \<in> set ws. is_word w" and "length (unwords ws) < 128" and "length ws \<le> 15"
  shows "parse_command (unwords ws) = Some ws"
  using parse_command_tokens [OF unwords_no_NUL [OF assms(1)]] assms(2,3) tokens_unwords [OF assms(1)]
  by (simp add: MAX_INPUT_def)

lemma parse_command_unwords_witness:
  "parse_command (unwords [''alias'', ''ll'', ''ls'']) = Some [''alias'', ''ll'', ''ls'']"
  by (rule parse_command_unwords) (simp_all add: is_word_def)

section \<open>The line editor\<close>

text \<open>C23: Whatever keys are pressed, in whatever order, the editor writes inside its 128-byte buffer, keeps
  the line terminated with at most 126 characters and leaves the shell's tables and the file
  system alone. Without the two history codes the text is that of the obvious editing functions:
  printable characters are appended, backspace removes, tab completes.\<close>

theorem line_editor:
  assumes "shell_inv (sh s)" and "line_inv l"
  shows "(\<exists>s' l'. run_keys cs s l = Some (s', l') \<and> shell_inv (sh s') \<and> line_inv l' \<and>
      history (sh s') = history (sh s) \<and> aliases (sh s') = aliases (sh s) \<and> fs (mach s') = fs (mach s) \<and>
      arr_cstr (input l') = Some (line_text l') \<and> length (line_text l') \<le> 126 \<and>
      (set cs \<inter> {CHR ''H'', CHR ''P''} = {} \<longrightarrow> line_text l' = fold edited cs (line_text l)))"
proof -
  obtain s' l' where r: "run_keys cs s l = Some (s', l')" "key_frame s s'" "line_inv l'"
    using run_keys_safe [OF assms] by blast
  have "length (line_text l') \<le> 126" using line_position [OF r(3)] line_text_length [OF r(3)] by simp
  moreover have "line_text l' = fold edited cs (line_text l)" if "set cs \<inter> {CHR ''H'', CHR ''P''} = {}"
    using run_keys_text [OF assms that] r(1) by auto
  ultimately show ?thesis using r line_cstr by (auto simp: key_frame_def)
qed

definition empty_line :: line where
  "empty_line = \<lparr>input = replicate 128 NUL, position = 0\<rparr>"

lemma empty_line_inv: "line_inv empty_line" "line_text empty_line = []"
  by (simp_all add: empty_line_def line_inv_def line_text_def MAX_INPUT_def)

definition idle_machine :: machine where
  "idle_machine = machine_init (fs_init (heap_init 0x100000) Map.empty)
     \<lparr>video = (\<lambda>_. 0), cursor_x = 0, cursor_y = 0, text_attribute = 7, ports = []\<rparr> 0"

definition idle_sys :: sys where
  "idle_sys = \<lparr>mach = idle_machine, sh = shell_init, frame = 0x2000\<rparr>"

lemma idle_sys_inv: "shell_inv (sh idle_sys)"
  by (simp add: idle_sys_def shell_inv_init)

lemma schar_lower: "schar (CHR ''l'') = 108" "schar (CHR ''x'') = 120" "schar (CHR ''s'') = 115"
  by (simp_all add: schar_def)

lemma line_editor_witness:
  "\<exists>s' l'. run_keys (''lx'' @ [CHR 0x08] @ ''s'') idle_sys empty_line = Some (s', l') \<and> line_text l' = ''ls''"
  using line_editor [OF idle_sys_inv empty_line_inv(1), of "''lx'' @ [CHR 0x08] @ ''s''"] empty_line_inv(2)
  by (auto simp: edited_def schar_lower)

section \<open>From the keyboard to the line\<close>

text \<open>What is typed is what is read: with interrupts on, the scancodes up to the one of the Enter key give
  the line obtained by editing with the characters of the keys pressed, key releases and
  unknown keys ignored; the rest of the keys is left for the next line.\<close>

theorem typed_line_is_read:
  assumes "shell_inv (sh s)" and "line_inv l" and "listening (irq (mach s))"
    and "\<forall>sc \<in> set scs. key_of sc \<noteq> Some (CHR 0x0D)"
  shows "\<exists>s' l'. read_line (scs @ 0x1C # rest) s l = Some (s', l', rest) \<and>
    arr_cstr (input l') = Some (fold edited (List.map_filter key_of scs) (line_text l)) \<and>
    shell_inv (sh s') \<and> listening (irq (mach s')) \<and> fs (mach s') = fs (mach s)"
  using read_line_typed [OF assms, of rest] line_cstr by force

definition live_sys :: sys where
  "live_sys = idle_sys\<lparr>mach := idle_machine\<lparr>irq := intr_init\<lparr>int_flag := True\<rparr>\<rparr>\<rparr>"

lemma live_sys_ok: "shell_inv (sh live_sys)" "listening (irq (mach live_sys))"
  by (simp_all add: live_sys_def idle_sys_def shell_inv_init listening_def kbd_inv_def pending_def intr_init_def)

lemma typed_line_is_read_witness:
  "\<exists>s' l'. read_line [0x26, 0xA6, 0x1F, 0x1C, 0x02] live_sys empty_line = Some (s', l', [0x02]) \<and>
    arr_cstr (input l') = Some ''ls''"
  using typed_line_is_read [OF live_sys_ok(1) empty_line_inv(1) live_sys_ok(2), of "[0x26, 0xA6, 0x1F]" "[0x02]"]
    empty_line_inv(2)
  by (auto simp: key_of_def scancode_to_ascii_def List.map_filter_def edited_def schar_lower)

lemma find_filter: "List.find P xs = (case filter P xs of [] \<Rightarrow> None | x # _ \<Rightarrow> Some x)"
  by (induction xs) auto

text \<open>Tab replaces the line by the first command, in the order of the code's table, that it is a prefix
  of, and leaves it alone when there is none; a completed line completes to itself.\<close>

theorem tab_completes:
  assumes "line_inv l" and "line_text l \<noteq> []"
  shows "\<exists>s' l'. key_tab s l = Some (s', l') \<and> line_inv l' \<and> prefix (line_text l) (line_text l') \<and>
    (if \<exists>c \<in> set completions. prefix (line_text l) c
     then line_text l' = hd (filter (prefix (line_text l)) completions) \<and> line_text l' \<in> set completions
     else l' = l)"
proof -
  let ?t = "line_text l"
  obtain s' l' where k: "key_tab s l = Some (s', l')" "line_inv l'" "line_text l' = complete ?t"
    using key_tab_total [OF assms(1), of s] assms(2) by auto
  have f: "List.find (prefix ?t) completions =
      (case filter (prefix ?t) completions of [] \<Rightarrow> None | c # cs \<Rightarrow> Some c)"
    by (rule find_filter)
  show ?thesis
  proof (cases "\<exists>c \<in> set completions. prefix ?t c")
    case True
    then obtain c cs where c: "filter (prefix ?t) completions = c # cs"
      by (cases "filter (prefix ?t) completions") (auto simp: filter_empty_conv)
    then have "c \<in> set (filter (prefix ?t) completions)" by simp
    then have "c \<in> set completions" "prefix ?t c" by simp_all
    then show ?thesis using True k c f by (auto simp: complete_def)
  next
    case False
    then have none: "List.find (prefix ?t) completions = None" by (simp add: find_None_iff)
    have "NUL \<notin> set ?t" using assms(1) by (simp add: line_inv_def)
    then have "find_completion ?t (nat (position l)) = None"
      using find_completion_prefix none line_text_length [OF assms(1)] by metis
    then have "key_tab s l = Some (s, l)"
      using assms(2) line_cstr [OF assms(1)] by (simp add: key_tab_def line_text_def)
    then show ?thesis using False assms(1) by auto
  qed
qed

lemma tab_completes_witness:
  "\<exists>s' l'. key_tab idle_sys \<lparr>input = ''sh'' @ replicate 126 NUL, position = 2\<rparr> = Some (s', l') \<and>
    line_text l' = ''shutdown''"
  using tab_completes [of "\<lparr>input = ''sh'' @ replicate 126 NUL, position = 2\<rparr>" idle_sys]
  by (auto simp: line_inv_def line_text_def MAX_INPUT_def completions_def)

section \<open>Aliases\<close>

text \<open>C35: \<^verbatim>\<open>add_alias\<close> is an update of the map that \<^verbatim>\<open>resolve_alias\<close> reads: a name of at most 31 characters resolves
  to the new command and every other name as before. With twenty entries it refuses, also to change an existing one.
  A new name of 32 characters or more runs over its array into the command of the same entry, and the command then
  overwrites its tail: what is entered is its first 32 characters followed by the command, and any name that already
  had an alias keeps it.\<close>

theorem alias_resolves:
  assumes "shell_inv (sh s)" and "NUL \<notin> set nm" and "NUL \<notin> set cmd" and "length cmd < 128"
  shows "(alias_count (sh s) < 20 \<and> length nm < 32 \<longrightarrow> (\<exists>s'. add_alias nm cmd s = Some s' \<and> shell_inv (sh s') \<and>
      (\<forall>x. NUL \<notin> set x \<longrightarrow> resolve_alias x (sh s') = (if x = nm then Some (Some cmd) else resolve_alias x (sh s))))) \<and>
    (alias_count (sh s) = 20 \<longrightarrow> (\<exists>s'. add_alias nm cmd s = Some s' \<and> sh s' = sh s)) \<and>
    (alias_count (sh s) < 20 \<and> 32 \<le> length nm \<and> length nm < 160 \<and> resolve_alias nm (sh s) = Some None \<longrightarrow>
      (\<exists>s'. add_alias nm cmd s = Some s' \<and> shell_inv (sh s') \<and>
        (\<forall>x. NUL \<notin> set x \<longrightarrow> resolve_alias x (sh s') =
          (if x = take 32 nm @ cmd \<and> resolve_alias x (sh s) = Some None then Some (Some cmd) else resolve_alias x (sh s)))))"
proof (intro conjI impI)
  assume a: "alias_count (sh s) < 20 \<and> length nm < 32"
  then obtain s' where s': "add_alias nm cmd s = Some s'" "shell_inv (sh s')"
    "map_of (alias_list (sh s')) = (map_of (alias_list (sh s)))(nm \<mapsto> cmd)"
    using add_alias_map [OF assms(1) _ assms(2) _ assms(3,4)] by auto
  then show "\<exists>s'. add_alias nm cmd s = Some s' \<and> shell_inv (sh s') \<and>
      (\<forall>x. NUL \<notin> set x \<longrightarrow> resolve_alias x (sh s') = (if x = nm then Some (Some cmd) else resolve_alias x (sh s)))"
    using resolve_alias_map [OF s'(2)] resolve_alias_map [OF assms(1)] by auto
next
  assume "alias_count (sh s) = 20"
  moreover obtain s' where "print_error (ln ''Maximum aliases reached'') s = Some s'" "screen_only s s'"
    using print_total(2) by blast
  ultimately show "\<exists>s'. add_alias nm cmd s = Some s' \<and> sh s' = sh s"
    using screen_only_simps(1) by (auto simp: add_alias_def MAX_ALIASES_def)
next
  assume a: "alias_count (sh s) < 20 \<and> 32 \<le> length nm \<and> length nm < 160 \<and> resolve_alias nm (sh s) = Some None"
  then obtain s' where s': "add_alias nm cmd s = Some s'" "shell_inv (sh s')"
    "alias_list (sh s') = enter_alias nm cmd (alias_list (sh s))"
    using add_alias_enters [OF assms(1) _ assms(2) _ assms(3,4)] by auto
  have "map_of (alias_list (sh s)) nm = None" using a resolve_alias_map [OF assms(1,2)] by simp
  then have "alias_list (sh s') = alias_list (sh s) @ [(take 32 nm @ cmd, cmd)]"
    using a s'(3) by (simp add: enter_alias_cases map_of_eq_None_iff alias_name_def)
  then show "\<exists>s'. add_alias nm cmd s = Some s' \<and> shell_inv (sh s') \<and>
      (\<forall>x. NUL \<notin> set x \<longrightarrow> resolve_alias x (sh s') =
        (if x = take 32 nm @ cmd \<and> resolve_alias x (sh s) = Some None then Some (Some cmd) else resolve_alias x (sh s)))"
    using s'(1,2) resolve_alias_map [OF s'(2)] resolve_alias_map [OF assms(1)]
    by (auto simp: map_add_def split: option.splits)
qed

lemma alias_resolves_witness:
  "\<exists>s'. add_alias ''ll'' ''ls -l'' idle_sys = Some s' \<and> resolve_alias ''ll'' (sh s') = Some (Some ''ls -l'')"
  using alias_resolves [OF idle_sys_inv, of "''ll''" "''ls -l''"]
  by (auto simp: idle_sys_def shell_init_def)

section \<open>History\<close>

text \<open>C36: The history is a ring of the last ten lines. Entering a line makes it the most recent and pushes
  the nine before it back by one; the line just entered again is not stored twice, except when the
  ring has wrapped round to its first slot, where the check is skipped.\<close>

theorem history_ring:
  assumes "shell_inv h" and "NUL \<notin> set cmd" and "cmd \<noteq> []" and "length cmd \<le> 126"
  shows "\<exists>h'. add_to_history cmd h = Some h' \<and> shell_inv h' \<and> recent h' 0 = cmd \<and>
    (if history_pos h > 0 \<and> recent h 0 = cmd then h' = h
     else history_pos h' = (history_pos h + 1) mod 10 \<and>
       (\<forall>k. 0 \<le> k \<and> k < 9 \<longrightarrow> recent h' (k + 1) = recent h k))"
  using add_history_recent [OF assms(1,2) _ assms(4)] assms(3) by auto

lemma history_ring_witness:
  "\<exists>h. add_to_history ''ls'' shell_init = Some h \<and> recent h 0 = ''ls'' \<and> history_pos h = 1 \<and> recent h 1 = []"
proof -
  from history_ring [OF shell_inv_init, of "''ls''"] obtain h where
    h: "add_to_history ''ls'' shell_init = Some h" "recent h 0 = ''ls''" "history_pos h = 1"
      "\<forall>k. 0 \<le> k \<and> k < 9 \<longrightarrow> recent h (k + 1) = recent shell_init k"
    by (auto simp: shell_init_def)
  have "recent h (0 + 1) = recent shell_init 0" using h(4) [THEN spec, of 0] by simp
  moreover have "recent shell_init 0 = []" by (simp add: recent_def shell_init_def arr_cstr_def)
  ultimately show ?thesis using h by auto
qed

text \<open>One line of the listing.\<close>

definition history_line :: "shell \<Rightarrow> int \<Rightarrow> string" where
  "history_line h i = (let str = recent h (9 - i) in
     if str = [] then [] else '' '' @ show_int (i + 1) @ '': '' @ ln str)"

lemma write_sys_write: "write_sys b (write_sys a s) = write_sys (a @ b) s"
  by (simp add: write_sys_def writestring_append)

lemma write_sys_Nil: "write_sys [] s = s"
  by (simp add: write_sys_def)

lemma show_history_loop_text:
  assumes "shell_inv (sh s)" and "\<forall>i \<in> set is. 0 \<le> i \<and> i < 10"
  shows "show_history_loop is s = Some (write_sys (concat (map (history_line (sh s)) is)) s)"
  using assms
proof (induction "is" arbitrary: s)
  case Nil
  then show ?case by (simp add: write_sys_Nil)
next
  case (Cons i "is")
  let ?h = "sh s" and ?k = "(history_pos (sh s) + i) mod 10"
  have k: "0 \<le> ?k" "?k < 10" by simp_all
  obtain str where str: "arr_cstr (history ?h ! nat ?k) = Some str"
    using hist_row [OF Cons.prems(1) k] by blast
  have "history_pos ?h - 1 - (9 - i) = history_pos ?h + i - 10" by simp
  then have "(history_pos ?h - 1 - (9 - i)) mod 10 = ?k" by (simp only: minus_mod_self2)
  then have r: "recent ?h (9 - i) = str" using str by (simp add: recent_def)
  have "sint (word_of_int (i + 1) :: u32) = i + 1"
    by (rule sint_word_of_int_small) (use Cons.prems(2) in simp_all)
  then have "put_str (ln '' %d: %s'') [VInt (word_of_int (i + 1)), VStr (Some str)] s =
      Some (write_sys ('' '' @ show_int (i + 1) @ '': '' @ ln str) s)"
    by (simp add: put_str_render ln_def)
  then have "show_history_loop (i # is) s = show_history_loop is (write_sys (history_line ?h i) s)"
    using str r by (simp add: HISTORY_SIZE_def history_line_def write_sys_Nil)
  also have "\<dots> = Some (write_sys (concat (map (history_line ?h) is)) (write_sys (history_line ?h i) s))"
    using Cons by simp
  finally show ?case by (simp add: write_sys_write)
qed

text \<open>\<^verbatim>\<open>history\<close> lists the lines of the ring from the oldest to the newest with their numbers, leaving out
  the slots not yet used.\<close>

theorem history_listing:
  assumes "shell_inv (sh s)"
  shows "\<exists>s1. print_info (ln ''Command history:'') s = Some s1 \<and> sh s1 = sh s \<and>
    show_history s = Some (write_sys (concat (map (history_line (sh s)) [0..9])) s1)"
proof -
  obtain s1 where s1: "print_info (ln ''Command history:'') s = Some s1" "screen_only s s1"
    using print_total(4) by blast
  have sh: "sh s1 = sh s" by (rule screen_only_simps(1) [OF s1(2)])
  have "show_history_loop [0..9] s1 = Some (write_sys (concat (map (history_line (sh s)) [0..9])) s1)"
    using show_history_loop_text [of s1 "[0..9]"] assms sh by simp
  then show ?thesis using s1 sh by (simp add: show_history_def HISTORY_SIZE_def)
qed

lemma history_listing_witness:
  "\<exists>s1. print_info (ln ''Command history:'') idle_sys = Some s1 \<and>
    show_history idle_sys = Some (write_sys (concat (map (history_line (sh idle_sys)) [0..9])) s1)"
  using history_listing [OF idle_sys_inv] by blast

section \<open>The calculator\<close>

lemma sint_word_of_int: "in_int x \<Longrightarrow> sint (word_of_int x :: u32) = x"
  by (simp add: in_int_def sint_word_of_int_small)

lemma word_of_int_zero: "in_int x \<Longrightarrow> (word_of_int x :: u32) = 0 \<longleftrightarrow> x = 0"
  using sint_word_of_int [of x] by auto

text \<open>The mathematical result; division truncates towards zero.\<close>

definition calc_value :: "byte \<Rightarrow> int \<Rightarrow> int \<Rightarrow> int" where
  "calc_value opr x y =
     (if opr = CHR ''+'' then x + y else if opr = CHR ''-'' then x - y
      else if opr = CHR ''*'' then x * y else if opr = CHR ''/'' then x sdiv y else x smod y)"

definition wrap32 :: "int \<Rightarrow> int" where
  "wrap32 x = sint (word_of_int x :: u32)"

definition calc_line :: "int \<Rightarrow> byte \<Rightarrow> int \<Rightarrow> string" where
  "calc_line x opr y =
     show_int x @ '' '' @ [opr] @ '' '' @ show_int y @ '' = '' @ ln (show_int (wrap32 (calc_value opr x y)))"

lemma schar_uchar: "schar c = uchar c \<or> schar c = uchar c - 256"
  by (simp add: schar_def uchar_def)

lemma schar_range: "- 256 \<le> schar c \<and> schar c < 256"
  using schar_uchar [of c] uchar_range [of c] by linarith

lemma to_char_schar: "to_char (schar c) = c"
proof -
  have "schar c mod 256 = uchar c mod 256" using schar_uchar [of c] by auto
  then have "uchar (to_char (schar c)) = uchar c" using uchar_range [of c] by (simp add: uchar_to_char)
  then show ?thesis by simp
qed

lemma calc_op_value:
  assumes "opr \<in> set ''+-*/%''" and "in_int x" and "in_int y"
  shows "calc_op opr (word_of_int x) (word_of_int y) =
    (if opr \<in> set ''/%'' \<and> y = 0 then Some DivByZero
     else if opr \<in> set ''/%'' \<and> x = - (2 ^ 31) \<and> y = - 1 then None
     else Some (Value (word_of_int (calc_value opr x y))))"
  using assms sdiv_traps [OF assms(2,3)]
  by (auto simp: calc_op_def calc_value_def idiv_traps_def sint_word_of_int word_of_int_zero)

text \<open>C37: \<^verbatim>\<open>calc\<close> on two numerals of the \<^verbatim>\<open>int\<close> range prints the operation with its result, reduced to 32 bits
  as the machine does it, and truncated in the case of division; division by zero is reported.
  The two cases where the division instruction traps are exactly those with the smallest number
  divided by -1.\<close>

theorem calculator_result:
  assumes "opr \<in> set ''+-*/%''" and "in_int x" and "in_int y"
  shows "calculator [''calc'', show_int x, [opr], show_int y] s =
    (if opr \<in> set ''/%'' \<and> y = 0 then print_error (ln ''Error: Division by zero'') s
     else if opr \<in> set ''/%'' \<and> x = - (2 ^ 31) \<and> y = - 1 then None
     else Some (write_sys (calc_line x opr y) s))"
proof -
  have "put_str (ln ''%d %c %d = %d'') [VInt (word_of_int x), VInt (word_of_int (schar opr)), VInt (word_of_int y),
      VInt (word_of_int (calc_value opr x y))] s = Some (write_sys (calc_line x opr y) s)"
    using assms(2,3) sint_word_of_int [of "schar opr"] schar_range [of opr]
    by (simp add: put_str_render calc_line_def ln_def sint_word_of_int wrap32_def in_int_def to_char_schar)
  then show ?thesis
    using calc_op_value [OF assms] by (simp add: calculator_def atoi_spec_show_int Let_def)
qed

lemma calculator_result_witness:
  "calculator [''calc'', show_int 7, ''/'', show_int (- 2)] idle_sys = Some (write_sys (calc_line 7 (CHR ''/'') (- 2)) idle_sys) \<and>
   calculator [''calc'', show_int (- 2147483648), ''%'', show_int (- 1)] idle_sys = None"
  using calculator_result [of "CHR ''/''" 7 "- 2" idle_sys] calculator_result [of "CHR ''%''" "- 2147483648" "- 1" idle_sys]
  by (simp add: in_int_def)

end
