(* ===== verification/SystemFacts.thy ===== *)
theory SystemFacts
  imports ShellTables
begin

text \<open>
  The components together: the state of the file system after the boot sequence, the invariant
  of the running system, and the total correctness of every command of the shell in it, stated
  with the rules for \<open>succeeds\<close> of the prelude.
\<close>

section \<open>The file system after boot\<close>

text \<open>The global root is the bare node and no descriptor is open.\<close>

definition booted :: "fs_state \<Rightarrow> bool" where
  "booted f \<longleftrightarrow> fs_root f \<noteq> NULL \<and> fs_nodes f (fs_root f) = Some bare_root \<and>
     file_descriptors f = replicate MAX_FILE_DESCRIPTORS zero_fd"

lemma booted_bytes [simp]: "booted (f\<lparr>bytes := b\<rparr>) = booted f"
  by (simp add: booted_def)

lemma booted_finddir: "booted f \<Longrightarrow> vfs_finddir (fs_root f) path f = Some (NULL, f)"
  by (simp add: booted_def vfs_finddir_def)

lemma booted_open:
  assumes "booted f"
  shows "open_fd path flags f =
    (if path = ''/'' then Some (0, set_fd 0 \<lparr>fd_node = fs_root f, fd_pos = 0, fd_flags = flags\<rparr> f)
     else Some (- 1, f))"
proof -
  have slot: "free_slot (file_descriptors f) 0 = Some 0"
    using assms by (simp add: booted_def MAX_FILE_DESCRIPTORS_def free_slot_replicate)
  show ?thesis
  proof (cases "path = ''/''")
    case True
    then show ?thesis using assms slot
      by (simp add: open_fd_def booted_def vfs_open_def set_fd_def Let_def)
  next
    case False
    then show ?thesis using slot assms vfs_open_no_finddir [of f bare_root path flags]
      by (simp add: open_fd_def booted_def)
  qed
qed

lemma set_fd_twice [simp]: "set_fd i d (set_fd i e f) = set_fd i d f"
  by (simp add: set_fd_def)

lemma booted_set_fd: "booted f \<Longrightarrow> set_fd 0 zero_fd f = f"
  by (simp add: booted_def set_fd_def MAX_FILE_DESCRIPTORS_def numeral_eq_Suc)

lemma set_fd_bytes: "(set_fd i d f)\<lparr>bytes := b\<rparr> = set_fd i d (f\<lparr>bytes := b\<rparr>)"
  by (simp add: set_fd_def)

lemma fd_at: "booted f \<Longrightarrow> file_descriptors (set_fd 0 d f) ! 0 = d"
  by (simp add: booted_def MAX_FILE_DESCRIPTORS_def)

lemma booted_good_fd:
  assumes "booted f" and "fd_node d = fs_root f"
  shows "\<not> bad_fd 0 (set_fd 0 d f)"
  using assms(2) fd_at [OF assms(1), of d] assms(1)
  by (auto simp: bad_fd_def MAX_FILE_DESCRIPTORS_def booted_def simp del: set_fd_driver)

lemma booted_close:
  assumes "booted f" and "fd_node d = fs_root f"
  shows "close_fd 0 (set_fd 0 d f) = Some (0, f)"
  using booted_good_fd [OF assms] fd_at [OF assms(1), of d] assms booted_set_fd [OF assms(1)]
  by (simp add: close_fd_def booted_def zero_fd_def Let_def del: set_fd_driver) (simp add: set_fd_def)

lemma booted_read_rdonly:
  assumes "booted f" and "fd_node d = fs_root f" and "fd_flags d = O_RDONLY"
  shows "read_fd 0 buf n (set_fd 0 d f) = Some (- 1, set_fd 0 d f)"
  using booted_good_fd [OF assms(1,2)] fd_at [OF assms(1), of d] assms(3)
  by (simp add: read_fd_def Let_def O_RDONLY_def)

lemma booted_write:
  assumes "booted f" and "fd_node d = fs_root f" and "fd_flags d AND O_WRONLY \<noteq> 0"
  shows "write_fd 0 buf n (set_fd 0 d f) = Some (0, set_fd 0 d f)"
proof -
  have "vfs_write (fs_root f) (fd_pos d) n buf (set_fd 0 d f) = Some (0, set_fd 0 d f)"
    using assms(1) by (simp add: vfs_write_def booted_def set_fd_def)
  then show ?thesis
    using booted_good_fd [OF assms(1,2)] fd_at [OF assms(1), of d] assms(2,3)
    by (simp add: write_fd_def Let_def)
qed

section \<open>The invariant of the running system\<close>

definition commands_ok :: "shell \<Rightarrow> bool" where
  "commands_ok h \<longleftrightarrow> (\<forall>(nm, c) \<in> set (alias_list h). tokens blanks c \<noteq> [] \<and> NUL \<notin> set c \<and> length c < 128)"

text \<open>\<open>i\<close> is the state of the interrupt system, up to the port log, which grows.\<close>

definition sys_inv :: "intr \<Rightarrow> sys \<Rightarrow> bool" where
  "sys_inv i s \<longleftrightarrow> shell_inv (sh s) \<and> commands_ok (sh s) \<and> booted (fs (mach s)) \<and>
     valid (bytes (fs (mach s))) (frame s) 1024 \<and> status_total (status (mach s)) \<noteq> 0 \<and>
     (\<exists>p. irq (mach s) = i\<lparr>iports := p\<rparr>)"

lemma sys_inv_screen: "sys_inv i s \<Longrightarrow> screen_only s s' \<Longrightarrow> sys_inv i s'"
  by (auto simp: sys_inv_def screen_only_def)

lemma sys_inv_shell:
  assumes "sys_inv i s" and "shell_inv h" and "commands_ok h"
  shows "sys_inv i (s\<lparr>sh := h\<rparr>)"
  using assms by (auto simp: sys_inv_def)

lemma put_str_ok [step_intros]: "sys_inv i s \<Longrightarrow> render fmt args \<noteq> None \<Longrightarrow> succeeds (sys_inv i) (put_str fmt args s)"
  using sys_inv_screen [OF _ write_sys_screen] by (auto simp: succeeds_def put_str_render)

lemma print_ok [step_intros]:
  "sys_inv i s \<Longrightarrow> succeeds (sys_inv i) (print_info str s)"
  "sys_inv i s \<Longrightarrow> succeeds (sys_inv i) (print_success str s)"
  "sys_inv i s \<Longrightarrow> succeeds (sys_inv i) (print_warning str s)"
  "sys_inv i s \<Longrightarrow> succeeds (sys_inv i) (print_error str s)"
  using print_total sys_inv_screen by (fastforce simp: succeeds_def)+

lemma sys_inv_shell_inv: "sys_inv i s \<Longrightarrow> shell_inv (sh s)"
  by (simp add: sys_inv_def)

lemma directory_bind [step_intros]:
  assumes "shell_inv (sh s)" and "\<And>d. succeeds P (f d)"
  shows "succeeds P (arr_cstr (current_directory (sh s)) \<bind> f)"
proof -
  have "row_ok 64 (current_directory (sh s))" using assms(1) by (simp add: shell_inv_def)
  then obtain d where "arr_cstr (current_directory (sh s)) = Some d" using row_ok_cstr by blast
  then show ?thesis using assms(2) by simp
qed

lemma set_exit_ok: "sys_inv i s \<Longrightarrow> sys_inv i (set_exit c s)"
  unfolding set_exit_def
  by (rule sys_inv_shell) (auto simp: sys_inv_def shell_inv_def commands_ok_def alias_list_def)

lemma render_ln: "CHR ''%'' \<notin> set str \<Longrightarrow> render (ln str) args \<noteq> None"
  by (simp add: ln_def render_plain)

section \<open>Commands that print\<close>

lemma put_lines_ok:
  "sys_inv i s \<Longrightarrow> \<forall>l \<in> set ls. CHR ''%'' \<notin> set l \<Longrightarrow> succeeds (sys_inv i) (put_lines ls s)"
proof (induction ls arbitrary: s)
  case Nil
  then show ?case by (simp add: succeeds_Some)
next
  case (Cons l ls)
  have "succeeds (sys_inv i) (put_str (ln l) [] s)"
    using Cons.prems render_ln by (intro put_str_ok) auto
  then show ?case using Cons by (auto intro: succeeds_bind)
qed

lemma help_ok: "sys_inv i s \<Longrightarrow> succeeds (sys_inv i) (cmd_help s)"
  unfolding cmd_help_def
  by (intro step_intros put_lines_ok) (simp_all add: help_lines_def)

lemma echo_ok: "sys_inv i s \<Longrightarrow> succeeds (sys_inv i) (echo_test args s)"
proof -
  have loop: "succeeds (sys_inv i) (echo_loop as s)" if "sys_inv i s" for "as" s
    using that
  proof (induction "as" arbitrary: s)
    case Nil
    then show ?case by (simp add: succeeds_Some)
  next
    case (Cons a "as")
    show ?case by (simp only: echo_loop.simps) (intro step_intros Cons; simp)
  qed
  assume "sys_inv i s"
  then show ?thesis unfolding echo_test_def
    by (intro step_intros loop) (simp_all add: ln_def)
qed

lemma uptime_ok: "sys_inv i s \<Longrightarrow> succeeds (sys_inv i) (cmd_uptime s)"
  unfolding cmd_uptime_def by (intro step_intros) (simp_all add: ln_def)

lemma banner_ok: "sys_inv i s \<Longrightarrow> succeeds (sys_inv i) (display_banner s)"
  unfolding display_banner_def by (intro step_intros) (simp_all add: ln_def)

lemma pwd_ok: "sys_inv i s \<Longrightarrow> succeeds (sys_inv i) (cmd_pwd s)"
  unfolding cmd_pwd_def by (intro step_intros) (simp_all add: ln_def sys_inv_shell_inv)

lemma system_info_ok: "sys_inv i s \<Longrightarrow> succeeds (sys_inv i) (show_system_info s)"
  unfolding show_system_info_def get_memory_stats_def Let_def prod.case
  by (intro step_intros) (simp_all add: ln_def sys_inv_shell_inv)

lemma memory_info_ok: "sys_inv i s \<Longrightarrow> succeeds (sys_inv i) (show_memory_info s)"
proof -
  assume inv: "sys_inv i s"
  then have "status_total (status (mach s)) \<noteq> 0" by (simp add: sys_inv_def)
  with inv show ?thesis unfolding show_memory_info_def get_memory_stats_def Let_def prod.case
    by (intro step_intros) (simp_all add: ln_def)
qed

section \<open>Commands on the shell's own state\<close>

lemma list_alias_loop_ok:
  "sys_inv i s \<Longrightarrow> \<forall>e \<in> set es. entry_row e \<Longrightarrow>
   succeeds (sys_inv i) (list_alias_loop es s)"
proof (induction es arbitrary: s)
  case Nil
  then show ?case by (simp add: succeeds_Some)
next
  case (Cons e es)
  then have row: "entry_row e" and rest: "\<forall>e \<in> set es. entry_row e" by simp_all
  obtain a where a: "entry_name e = Some a" by (rule entry_row_name [OF row])
  moreover obtain c where "arr_cstr (a_command e) = Some c" using row row_ok_cstr by (auto simp: entry_row_def)
  ultimately have ac: "entry_name e = Some a" "arr_cstr (a_command e) = Some c" by simp_all
  have "succeeds (sys_inv i) (put_str (ln ''  %s -> %s'') [VStr (Some a), VStr (Some c)] s)"
    using Cons.prems(1) by (intro put_str_ok) (simp_all add: ln_def)
  then have "succeeds (sys_inv i) (put_str (ln ''  %s -> %s'') [VStr (Some a), VStr (Some c)] s \<bind> list_alias_loop es)"
    by (rule succeeds_keep) (rule Cons.IH [OF _ rest])
  then show ?case using ac by simp
qed

lemma list_aliases_ok:
  assumes "sys_inv i s"
  shows "succeeds (sys_inv i) (list_aliases s)"
proof -
  obtain s1 where s1: "print_info (ln ''Defined aliases:'') s = Some s1" "screen_only s s1"
    using print_total(4) by blast
  have "succeeds (sys_inv i) (list_alias_loop (take (nat (alias_count (sh s1))) (aliases (sh s1))) s1)"
    using sys_inv_screen [OF assms s1(2)] alias_rows sys_inv_shell_inv by (intro list_alias_loop_ok) blast+
  then show ?thesis unfolding list_aliases_def
    using print_ok(1) [OF assms] s1(1) by simp
qed

lemma commands_ok_extend:
  assumes "commands_ok h" and "tokens blanks c \<noteq> []" and "NUL \<notin> set c" and "length c < 128"
    and "set (alias_list h') \<subseteq> insert (nm, c) (set (alias_list h))"
  shows "commands_ok h'"
  using assms by (auto simp: commands_ok_def)

lemma add_alias_ok:
  assumes "sys_inv i s" and "NUL \<notin> set nm" and "NUL \<notin> set c" and "length c < 128"
    and "tokens blanks c \<noteq> []" and "length nm < 160"
  shows "succeeds (sys_inv i) (add_alias nm c s)"
proof (cases "alias_count (sh s) < 20")
  case True
  have inv: "shell_inv (sh s)" using assms(1) by (simp add: sys_inv_def)
  from add_alias_enters [OF inv True assms(2,6,3,4)] obtain s' where
    s': "add_alias nm c s = Some s'" "shell_inv (sh s')"
      "set (alias_list (sh s')) \<subseteq> insert (alias_name nm c, c) (set (alias_list (sh s)))"
    using set_enter_alias [of nm c "alias_list (sh s)"] by auto
  have "commands_ok (sh s')" using assms(1) commands_ok_extend [OF _ assms(5,3,4) s'(3)]
    by (simp add: sys_inv_def)
  moreover obtain h t where "s' = s\<lparr>sh := h, mach := (mach s)\<lparr>screen := t\<rparr>\<rparr>"
    using add_alias_frame [OF s'(1)] by (auto simp: shell_only_def)
  ultimately have "sys_inv i s'" using s'(2) assms(1) by (simp add: sys_inv_def)
  then show ?thesis using s'(1) by (simp add: succeeds_def)
next
  case False
  then have "add_alias nm c s = print_error (ln ''Maximum aliases reached'') s"
    using assms(1) by (simp add: add_alias_def sys_inv_def shell_inv_def MAX_ALIASES_def)
  then show ?thesis using print_ok(4) [OF assms(1)] by simp
qed

lemma alias_ok:
  assumes "sys_inv i s" and "\<forall>w \<in> set args. is_word w \<and> length w < 128"
  shows "succeeds (sys_inv i) (cmd_alias args s)"
proof -
  consider "length args = 1" | "length args = 3" | "length args \<noteq> 1" "length args \<noteq> 3" by blast
  then show ?thesis
  proof cases
    case 2
    then have "args ! 1 \<in> set args" "args ! 2 \<in> set args" by simp_all
    then have "length (args ! 1) < 128" and w: "is_word (args ! 1)" "is_word (args ! 2)" "length (args ! 2) < 128"
      using assms(2) by blast+
    then have fits: "length (args ! 1) < 160" by linarith
    have n: "NUL \<notin> set (args ! 1)" "NUL \<notin> set (args ! 2)" using w(1,2) by (auto simp: is_word_def)
    have "tokens blanks (args ! 2) \<noteq> []" using tokens_unwords [of "[args ! 2]"] w(2) by simp
    then have "succeeds (sys_inv i) (add_alias (args ! 1) (args ! 2) s)"
      using add_alias_ok [OF assms(1) n w(3)] fits by blast
    then show ?thesis using 2 by (simp add: cmd_alias_def)
  qed (use assms(1) list_aliases_ok put_str_ok [of i s] in \<open>auto simp: cmd_alias_def ln_def\<close>)
qed

lemma sys_inv_flags:
  assumes "sys_inv i s"
  shows "sys_inv i (s\<lparr>sh := (sh s)\<lparr>debug_mode := b\<rparr>\<rparr>)" "sys_inv i (s\<lparr>sh := (sh s)\<lparr>color_enabled := b\<rparr>\<rparr>)"
    "sys_inv i (s\<lparr>sh := (sh s)\<lparr>echo_enabled := b\<rparr>\<rparr>)"
  using assms by (auto simp: sys_inv_def shell_inv_def commands_ok_def alias_list_def)

lemma set_ok: "sys_inv i s \<Longrightarrow> succeeds (sys_inv i) (cmd_set args s)"
  unfolding cmd_set_def Let_def
  by (intro step_intros sys_inv_flags) (simp_all add: ln_def on_off_def)

lemma history_ok:
  assumes "sys_inv i s"
  shows "succeeds (sys_inv i) (show_history s)"
proof -
  have loop: "succeeds (sys_inv i) (show_history_loop ns s)" if "sys_inv i s" for ns s
    using that
  proof (induction ns arbitrary: s)
    case Nil
    then show ?case by (simp add: succeeds_Some)
  next
    case (Cons n ns)
    let ?k = "(history_pos (sh s) + n) mod 10"
    have "0 \<le> ?k" "?k < 10" by simp_all
    then obtain str where str: "arr_cstr (history (sh s) ! nat ?k) = Some str"
      using hist_row [OF sys_inv_shell_inv [OF Cons.prems]] by blast
    have "succeeds (sys_inv i) ((if str \<noteq> [] then put_str (ln '' %d: %s'') [VInt (word_of_int (n + 1)), VStr (Some str)] s
        else Some s) \<bind> show_history_loop ns)"
      using Cons by (intro step_intros) (simp_all add: ln_def)
    then show ?case using str by (simp add: HISTORY_SIZE_def)
  qed
  show ?thesis unfolding show_history_def using assms by (intro step_intros loop) simp_all
qed

lemma calc_ok:
  assumes "sys_inv i s"
    and "length args = 4 \<longrightarrow> calc_op (hd (args ! 2 @ [NUL])) (word_of_int (atoi_spec (args ! 1))) (word_of_int (atoi_spec (args ! 3))) \<noteq> None"
  shows "succeeds (sys_inv i) (calculator args s)"
proof (cases "length args = 4")
  case True
  then obtain r where "calc_op (hd (args ! 2 @ [NUL])) (word_of_int (atoi_spec (args ! 1))) (word_of_int (atoi_spec (args ! 3))) = Some r"
    using assms(2) by blast
  then show ?thesis using True print_ok(4) [OF assms(1)] put_str_ok [OF assms(1)]
    by (cases r) (simp_all add: calculator_def Let_def ln_def)
next
  case False
  then show ?thesis unfolding calculator_def using assms(1) by (simp only: False) (simp, intro step_intros; simp add: ln_def)
qed

lemma speaker_ok:
  "sys_inv i s \<Longrightarrow> sys_inv i (sys_beep f s)" "sys_inv i s \<Longrightarrow> sys_inv i (sys_nosound s)"
  by (auto simp: sys_inv_def sys_beep_def sys_nosound_def Let_def)

lemma sound_ok: "sys_inv i s \<Longrightarrow> sys_inv i (play_startup_sound s)"
  unfolding play_startup_sound_def delay_keeps by (intro fold_inv [where P = "sys_inv i"] speaker_ok)

lemma clear_ok: "sys_inv i s \<Longrightarrow> sys_inv i (cmd_clear s)"
  by (auto simp: sys_inv_def cmd_clear_def)

section \<open>Commands on files\<close>

lemma sys_inv_booted: "sys_inv i s \<Longrightarrow> booted (fs (mach s))"
  by (simp add: sys_inv_def)

lemma sys_fs_same: "f (fs (mach s)) = Some (r, fs (mach s)) \<Longrightarrow> sys_fs f s = Some (r, s)"
  by (simp add: sys_fs_def on_fs_def)

definition with_fs :: "fs_state \<Rightarrow> sys \<Rightarrow> sys" where
  "with_fs f s = s\<lparr>mach := (mach s)\<lparr>fs := f\<rparr>\<rparr>"

lemma with_fs_simps [simp]:
  "fs (mach (with_fs f s)) = f" "with_fs g (with_fs f s) = with_fs g s" "with_fs (fs (mach s)) s = s"
  "frame (with_fs f s) = frame s" "sh (with_fs f s) = sh s"
  "irq (mach (with_fs f s)) = irq (mach s)" "status (mach (with_fs f s)) = status (mach s)"
  "write_sys str (with_fs f s) = with_fs f (write_sys str s)" "set_bytes b s = with_fs ((fs (mach s))\<lparr>bytes := b\<rparr>) s"
  by (simp_all add: with_fs_def write_sys_def set_bytes_def)

lemma sys_fs_step: "f (fs (mach s)) = Some (r, g) \<Longrightarrow> sys_fs f s = Some (r, with_fs g s)"
  by (simp add: sys_fs_def on_fs_def with_fs_def)

lemma sys_inv_bytes:
  assumes "sys_inv i s" and "dom b = dom (bytes (fs (mach s)))"
  shows "sys_inv i (set_bytes b s)"
  using assms by (auto simp: sys_inv_def set_bytes_def valid_def)

lemma cd_ok:
  assumes "sys_inv i s"
  shows "succeeds (sys_inv i) (cmd_cd args s)"
proof -
  have "sys_fs (vfs_finddir (fs_root (fs (mach s))) path) s = Some (NULL, s)" for path
    using booted_finddir [OF sys_inv_booted [OF assms]] by (rule sys_fs_same)
  moreover have "succeeds (sys_inv i) (do { s \<leftarrow> print_error ''No such directory: '' s;
      s \<leftarrow> put_str (ln ''%s'') [VStr (Some path)] s; Some (set_exit 1 s) })" for path
    using assms by (intro step_intros set_exit_ok) (simp_all add: ln_def)
  ultimately show ?thesis by (simp add: cmd_cd_def Let_def)
qed

lemma other_ok:
  assumes "sys_inv i s"
  shows "succeeds (sys_inv i) (cmd_other args s)"
proof -
  have "sys_fs (vfs_finddir (fs_root (fs (mach s))) path) s = Some (NULL, s)" for path
    using booted_finddir [OF sys_inv_booted [OF assms]] by (rule sys_fs_same)
  moreover have "succeeds (sys_inv i) (do { s \<leftarrow> print_error ''Command not found: '' s;
      s \<leftarrow> put_str (ln ''%s'') [VStr (Some (args ! 0))] s; Some (set_exit 127 s) })"
    using assms by (intro step_intros set_exit_ok) (simp_all add: ln_def)
  ultimately show ?thesis by (simp add: cmd_other_def)
qed

text \<open>The state in which a branch of the dispatch ends.\<close>

fun flow_ok :: "intr \<Rightarrow> flow \<Rightarrow> bool" where
  "flow_ok i (Return s) = sys_inv i s"
| "flow_ok i (Fall s) = sys_inv i s"
| "flow_ok i (Halt s) = True"

lemma falls_ok: "succeeds (sys_inv i) r \<Longrightarrow> succeeds (flow_ok i) (falls r)"
  unfolding falls_def by (rule succeeds_map) simp_all

lemma print_return: "sys_inv i s \<Longrightarrow> CHR ''%'' \<notin> set str \<Longrightarrow>
  succeeds (flow_ok i) (do { s \<leftarrow> put_str (ln str) [] s; Some (Return s) })"
  by (rule succeeds_bind [OF put_str_ok]) (auto intro: render_ln succeeds_Some simp: ln_def render_plain)

lemma stub_ok:
  assumes "sys_inv i s" and "CHR ''%'' \<notin> set usage" and "CHR ''%'' \<notin> set msg"
  shows "succeeds (flow_ok i) (cmd_stub usage msg args s)"
proof -
  have "succeeds (flow_ok i) (do { s \<leftarrow> put_str (ln msg) [] s; Some (Fall s) })"
    by (rule succeeds_bind [OF put_str_ok [OF assms(1)]])
      (auto intro: succeeds_Some simp: ln_def render_plain assms(3))
  then show ?thesis using print_return [OF assms(1,2)] by (simp add: cmd_stub_def)
qed

text \<open>\<^verbatim>\<open>ls\<close> opens the bare root, which lists nothing.\<close>

lemma ls_run:
  assumes "sys_inv i s"
  shows "cmd_ls s = Some (Fall (write_sys (ln ''Contents of /'') s))"
proof -
  let ?r = "fs_root (fs (mach s))" and ?s = "write_sys (ln ''Contents of /'') s"
  have b: "booted (fs (mach s))" by (rule sys_inv_booted [OF assms])
  have o: "sys_fs (vfs_open ''/'' 0) s = Some (?r, s)" by (rule sys_fs_same) (simp add: vfs_open_def)
  have f: "fs (mach ?s) = fs (mach s)" by (simp add: write_sys_def)
  have "sys_fs (vfs_readdir ?r 0) ?s = Some (None, ?s)"
    by (rule sys_fs_same) (use b f in \<open>simp add: booted_def vfs_readdir_def\<close>)
  then have l: "ls_loop ?r 0 ?s = Some ?s" by (subst ls_loop.simps) simp
  have "sys_close_node ?r ?s = Some ?s"
    using b f by (simp add: sys_close_node_def booted_def vfs_close_def)
  then show ?thesis using b o l
    by (simp add: cmd_ls_def booted_def FS_DIRECTORY_def put_plain ln_def)
qed

lemma open_root:
  assumes "sys_inv i s"
  shows "sys_fs (open_fd path flags) s =
    (if path = ''/''
     then Some (0, with_fs (set_fd 0 \<lparr>fd_node = fs_root (fs (mach s)), fd_pos = 0, fd_flags = flags\<rparr> (fs (mach s))) s)
     else Some (- 1, s))"
  using booted_open [OF sys_inv_booted [OF assms], of path flags] sys_fs_step [of "open_fd path flags" s]
  by (auto simp: with_fs_def [of "fs (mach s)"])

lemma close_root:
  assumes "booted f" and "fd_node d = fs_root f"
  shows "sys_fs (close_fd 0) (with_fs (set_fd 0 d f) s) = Some (0, with_fs f s)"
  using sys_fs_step [of "close_fd 0" "with_fs (set_fd 0 d f) s"] booted_close [OF assms] by simp

lemma cat_ok:
  assumes "sys_inv i s"
  shows "succeeds (flow_ok i) (cmd_cat args s)"
proof -
  let ?f = "fs (mach s)" and ?path = "args ! 1"
  have b: "booted ?f" by (rule sys_inv_booted [OF assms])
  let ?d = "\<lparr>fd_node = fs_root ?f, fd_pos = 0, fd_flags = O_RDONLY\<rparr>"
  let ?s = "with_fs (set_fd 0 ?d ?f) s"
  have "sys_fs (read_fd 0 (frame ?s) 1023) ?s = Some (- 1, ?s)"
    using sys_fs_step [of "read_fd 0 (frame ?s) 1023" ?s] booted_read_rdonly [OF b, of ?d] by simp
  then have l: "cat_loop 0 ?s = Some ?s" by (subst cat_loop.simps) simp
  have c: "sys_fs (close_fd 0) ?s = Some (0, s)" using close_root [OF b, of ?d s] by simp
  have fail: "succeeds (flow_ok i) (do { s \<leftarrow> put_str (ln ''Error: Could not open file %s'') [VStr (Some ?path)] s; Some (Return s) })"
    by (rule succeeds_bind [OF put_str_ok [OF assms]]) (auto intro: succeeds_Some simp: ln_def)
  have fin: "succeeds (flow_ok i) (do { s \<leftarrow> put_str (ln '''') [] s; Some (Fall s) })"
    by (rule succeeds_bind [OF put_str_ok [OF assms]]) (auto intro: succeeds_Some simp: ln_def)
  show ?thesis
  proof (cases "length args < 2")
    case True
    then show ?thesis using print_return [OF assms] by (simp add: cmd_cat_def)
  next
    case False
    then show ?thesis using open_root [OF assms, of ?path O_RDONLY] l c fail fin
      by (simp add: cmd_cat_def)
  qed
qed

lemma touch_ok:
  assumes "sys_inv i s"
  shows "succeeds (flow_ok i) (cmd_touch args s)"
proof -
  let ?f = "fs (mach s)" and ?path = "args ! 1"
  have b: "booted ?f" by (rule sys_inv_booted [OF assms])
  let ?d = "\<lparr>fd_node = fs_root ?f, fd_pos = 0, fd_flags = O_CREAT OR O_WRONLY\<rparr>"
  have c: "sys_fs (close_fd 0) (with_fs (set_fd 0 ?d ?f) s) = Some (0, s)" using close_root [OF b, of ?d s] by simp
  have fail: "succeeds (flow_ok i) (do { s \<leftarrow> put_str (ln ''Error: Could not create file %s'') [VStr (Some ?path)] s; Some (Return s) })"
    by (rule succeeds_bind [OF put_str_ok [OF assms]]) (auto intro: succeeds_Some simp: ln_def)
  have fin: "succeeds (flow_ok i) (do { s \<leftarrow> put_str (ln ''Created file %s'') [VStr (Some ?path)] s; Some (Fall s) })"
    by (rule succeeds_bind [OF put_str_ok [OF assms]]) (auto intro: succeeds_Some simp: ln_def)
  show ?thesis
  proof (cases "length args < 2")
    case True
    then show ?thesis using print_return [OF assms] by (simp add: cmd_touch_def)
  next
    case False
    then show ?thesis using open_root [OF assms, of ?path "O_CREAT OR O_WRONLY"] c fail fin
      by (cases "?path = ''/''") (simp_all add: cmd_touch_def)
  qed
qed

text \<open>\<^verbatim>\<open>write\<close> joins its words in the buffer of the frame.\<close>

lemma store_bytes_put: "valid b p (length xs) \<Longrightarrow> store_bytes b p xs = Some (put b p xs)"
  by (induction xs arbitrary: b p) (simp_all add: valid_Suc st_eq)

lemma cat_str_run:
  assumes "cstr b p acc" and "NUL \<notin> set str" and "valid b p (Suc (length acc + length str))"
  shows "\<exists>b'. cat_str b p str = Some b' \<and> cstr b' p (acc @ str) \<and> dom b' = dom b \<and>
    (\<forall>a. a < p \<or> p + Suc (length acc + length str) \<le> a \<longrightarrow> b' a = b a)"
proof -
  have v: "valid b (p + length acc) (length (str @ [NUL]))"
    using valid_add [of b p "length acc" "Suc (length str)"] assms(3) by simp
  then show ?thesis
    using store_bytes_put [OF v] cstr_after_append [OF assms(1,2)] strlen_cstr [OF assms(1)] dom_put_valid [OF v]
    by (simp add: cat_str_def put_outside)
qed

lemma join_args_run:
  assumes "cstr b p acc" and "\<forall>w \<in> set ws. NUL \<notin> set w" and "valid b p n"
    and "length acc + length (unwords ws) < n"
  shows "\<exists>b'. join_args b p ws = Some b' \<and> cstr b' p (acc @ unwords ws) \<and> dom b' = dom b \<and>
    (\<forall>a. a < p \<or> p + n \<le> a \<longrightarrow> b' a = b a)"
  using assms
proof (induction ws arbitrary: b acc rule: unwords.induct)
  case 1
  then show ?case by simp
next
  case (2 w)
  have "valid b p (Suc (length acc + length w))" using 2(3,4) by (intro valid_mono [OF 2(3)]) simp
  then obtain b' where "cat_str b p w = Some b'" "cstr b' p (acc @ w)" "dom b' = dom b"
    "\<forall>a. a < p \<or> p + Suc (length acc + length w) \<le> a \<longrightarrow> b' a = b a"
    using cat_str_run [OF 2(1), of w] 2(2) by auto
  then show ?case using 2(4) by auto
next
  case (3 w v vs)
  have v1: "valid b p (Suc (length acc + length w))" using "3.prems"(3,4) by (intro valid_mono [OF "3.prems"(3)]) simp
  obtain b1 where b1: "cat_str b p w = Some b1" "cstr b1 p (acc @ w)" "dom b1 = dom b"
    "\<forall>a. a < p \<or> p + Suc (length acc + length w) \<le> a \<longrightarrow> b1 a = b a"
    using cat_str_run [OF "3.prems"(1) _ v1] "3.prems"(2) by auto
  have vb1: "valid b1 p n" using "3.prems"(3) b1(3) by (simp add: valid_def)
  then have v2: "valid b1 p (Suc (length (acc @ w) + length '' ''))" using "3.prems"(4)
    by (intro valid_mono [OF vb1]) simp
  obtain b2 where b2: "cat_str b1 p '' '' = Some b2" "cstr b2 p ((acc @ w) @ '' '')" "dom b2 = dom b"
    "\<forall>a. a < p \<or> p + Suc (length (acc @ w) + length '' '') \<le> a \<longrightarrow> b2 a = b1 a"
    using cat_str_run [OF b1(2) _ v2] b1(3) by auto
  have vb2: "valid b2 p n" using "3.prems"(3) b2(3) by (simp add: valid_def)
  obtain b3 where "join_args b2 p (v # vs) = Some b3" "cstr b3 p (((acc @ w) @ '' '') @ unwords (v # vs))"
    "dom b3 = dom b2" "\<forall>a. a < p \<or> p + n \<le> a \<longrightarrow> b3 a = b2 a"
    using "3.IH" [OF b2(2) _ vb2] "3.prems"(2,4) by auto
  moreover have "b2 a = b a" if "a < p \<or> p + n \<le> a" for a
    using that b1(4) b2(4) "3.prems"(4) by auto
  ultimately show ?case using b1(1) b2(1,3) by simp
qed

lemma write_ok:
  assumes "sys_inv i s" and "\<forall>w \<in> set args. NUL \<notin> set w" and "length (unwords (drop 2 args)) < 1024"
  shows "succeeds (flow_ok i) (cmd_write args s)"
proof -
  let ?f = "fs (mach s)" and ?path = "args ! 1" and ?text = "unwords (drop 2 args)"
  have b: "booted ?f" by (rule sys_inv_booted [OF assms(1)])
  have v: "valid (bytes ?f) (frame s) 1024" using assms(1) by (simp add: sys_inv_def)
  define b0 where "b0 = put (bytes ?f) (frame s) (replicate 1024 NUL)"
  have "to_char 0 = NUL" using to_char_uchar [of NUL] by simp
  then have ms: "memset (bytes ?f) (frame s) 0 1024 = Some b0" using memset_put [OF v, of 0] by (simp add: b0_def)
  have d0: "dom b0 = dom (bytes ?f)" using v by (simp add: b0_def dom_put_valid)
  then have v0: "valid b0 (frame s) 1024" using v by (simp add: valid_def)
  have e0: "cstr b0 (frame s) []" by (simp add: b0_def put_apply)
  have nul: "\<forall>w \<in> set (drop 2 args). NUL \<notin> set w" using assms(2) by (auto dest: in_set_dropD)
  have "length [] + length ?text < 1024" using assms(3) by simp
  from join_args_run [OF e0 nul v0 this] obtain b1 where
    j: "join_args b0 (frame s) (drop 2 args) = Some b1" "cstr b1 (frame s) ?text" "dom b1 = dom (bytes ?f)"
    using d0 by auto
  let ?d = "\<lparr>fd_node = fs_root ?f, fd_pos = 0, fd_flags = O_WRONLY OR O_CREAT\<rparr>"
  let ?g = "?f\<lparr>bytes := b1\<rparr>"
  let ?s = "with_fs (set_fd 0 ?d ?g) s" and ?t = "set_bytes b1 s"
  have bg: "booted ?g" "fd_node ?d = fs_root ?g" using b by simp_all
  have fl: "fd_flags ?d AND O_WRONLY \<noteq> 0" by (simp add: flag_defs)
  have w: "sys_fs (write_fd 0 (frame s) n) ?s = Some (0, ?s)" for n
    using sys_fs_step [of "write_fd 0 (frame s) n" ?s] booted_write [OF bg fl] by simp
  have c: "sys_fs (close_fd 0) (with_fs (set_fd 0 ?d ?g) s') = Some (0, with_fs ?g s')" for s'
    by (rule close_root [OF bg])
  have t: "sys_inv i ?t" using sys_inv_bytes [OF assms(1) j(3)] .
  have r1: "succeeds (flow_ok i) (do { s \<leftarrow> put_str (ln ''Error: Could not write to file'') [] ?s;
      (r, s) \<leftarrow> sys_fs (close_fd 0) s; Some (Fall s) })"
    using sys_inv_screen [OF t write_sys_screen] c
    by (simp add: put_plain ln_def succeeds_def)
  have r2: "succeeds (flow_ok i) (do { s \<leftarrow> put_str (ln ''Wrote %d bytes to %s'') [VInt 0, VStr (Some ?path)] ?s;
      (r, s) \<leftarrow> sys_fs (close_fd 0) s; Some (Fall s) })"
    using sys_inv_screen [OF t write_sys_screen] c
    by (simp add: put_str_render ln_def succeeds_def)
  have fail: "succeeds (flow_ok i) (do { s \<leftarrow> put_str (ln ''Error: Could not open file %s'') [VStr (Some ?path)] s; Some (Return s) })"
    by (rule succeeds_bind [OF put_str_ok [OF assms(1)]]) (auto intro: succeeds_Some simp: ln_def)
  show ?thesis
  proof (cases "length args < 3")
    case True
    then show ?thesis using print_return [OF assms(1)] by (simp add: cmd_write_def)
  next
    case False
    let ?opened = "with_fs (set_fd 0 ?d ?f) s"
    have "set_bytes b1 ?opened = with_fs (set_fd 0 ?d ?g) s" unfolding with_fs_def set_bytes_def set_fd_def by simp
    moreover have "sys_bytes ?opened = bytes ?f" "frame ?opened = frame s" by (simp_all add: sys_bytes_def)
    ultimately have o: "sys_bytes ?opened = bytes ?f" "frame ?opened = frame s" "set_bytes b1 ?opened = ?s" by blast+
    show ?thesis
    proof (cases "?path = ''/''")
      case True
      then show ?thesis using False open_root [OF assms(1), of ?path "O_WRONLY OR O_CREAT"] ms j(1) strlen_cstr [OF j(2)] w r1 r2 o
        by (simp add: cmd_write_def del: with_fs_simps)
    next
      case F: False
      then show ?thesis using False open_root [OF assms(1), of ?path "O_WRONLY OR O_CREAT"] fail
        by (simp add: cmd_write_def)
    qed
  qed
qed

section \<open>The whole command interpreter\<close>

text \<open>The one command that brings the machine down: \<^verbatim>\<open>calc\<close> with a quotient or a remainder of the smallest number
  and -1.\<close>

definition calc_traps :: "string list \<Rightarrow> bool" where
  "calc_traps args \<longleftrightarrow> args ! 0 = ''calc'' \<and> length args = 4 \<and>
     hd (args ! 2 @ [NUL]) \<in> {CHR ''/'', CHR ''%''} \<and>
     sint (word_of_int (atoi_spec (args ! 1)) :: u32) = - (2 ^ 31) \<and> sint (word_of_int (atoi_spec (args ! 3)) :: u32) = - 1"

lemma calc_op_traps: "calc_op opr a b = None \<longleftrightarrow> opr \<in> {CHR ''/'', CHR ''%''} \<and> sint a = - (2 ^ 31) \<and> sint b = - 1"
proof -
  have "b \<noteq> 0" if "sint b = - 1" using that by auto
  then show ?thesis by (auto simp: calc_op_def idiv_traps_iff)
qed

lemma dispatch_ok:
  assumes "sys_inv i s" and "args \<noteq> []" and "\<forall>w \<in> set args. is_word w \<and> length w < 128"
    and "length (unwords (drop 2 args)) < 1024"
    and "\<not> calc_traps args"
  shows "succeeds (flow_ok i) (dispatch args s)"
proof -
  have nul: "\<forall>w \<in> set args. NUL \<notin> set w" using assms(3) by (auto simp: is_word_def)
  have n0: "NUL \<notin> set (args ! 0)" using nul assms(2) by simp
  have eq: "strcmp_spec (args ! 0) str = 0 \<longleftrightarrow> args ! 0 = str" if "NUL \<notin> set str" for str
    using strcmp_spec_eq_0 [OF n0 that] .
  have ret: "succeeds (flow_ok i) (map_option Return (print_info str s))" for str
    by (rule succeeds_map [OF print_ok(1) [OF assms(1)]]) simp
  have halt: "succeeds (flow_ok i) (cmd_shutdown s)" "succeeds (flow_ok i) (cmd_reboot s)"
    unfolding cmd_shutdown_def cmd_reboot_def Let_def
    by (rule succeeds_bind [OF print_ok(1) [OF assms(1)]], simp add: succeeds_Some)
      (rule succeeds_bind [OF print_ok(3) [OF assms(1)]], simp add: succeeds_Some)
  note printing = help_ok echo_ok pwd_ok cd_ok memory_info_ok uptime_ok banner_ok set_ok history_ok
    system_info_ok other_ok
  have al: "args ! 0 = ''alias'' \<Longrightarrow> succeeds (flow_ok i) (falls (cmd_alias args s))"
    by (rule falls_ok [OF alias_ok [OF assms(1,3)]])
  have ca: "args ! 0 = ''calc'' \<Longrightarrow> succeeds (flow_ok i) (falls (calculator args s))"
    using assms(5) by (intro falls_ok calc_ok [OF assms(1)]) (auto simp: calc_traps_def calc_op_traps)
  have wr: "succeeds (flow_ok i) (cmd_write args s)" by (rule write_ok [OF assms(1) nul assms(4)])
  have ls: "succeeds (flow_ok i) (cmd_ls s)"
    using ls_run [OF assms(1)] sys_inv_screen [OF assms(1) write_sys_screen] by (simp add: succeeds_def)
  have state: "succeeds (flow_ok i) (Some (Fall (cmd_clear s)))"
    "succeeds (flow_ok i) (Some (Fall (sys_nosound (delay 500 (sys_beep 1000 s)))))"
    "succeeds (flow_ok i) (Some (Fall (play_startup_sound s)))"
    using clear_ok sound_ok speaker_ok assms(1) by (simp_all add: succeeds_def)
  show ?thesis unfolding dispatch_def Let_def
    by (intro succeeds_if falls_ok printing [OF assms(1)] ret halt state ls wr cat_ok [OF assms(1)] touch_ok [OF assms(1)]
        stub_ok [OF assms(1)] al ca) (simp_all add: eq)
qed

lemma words_of_line:
  assumes "NUL \<notin> set str" and "length str < 128"
  shows "\<forall>w \<in> set (take n (tokens blanks str)). is_word w \<and> length w < 128"
    and "length (unwords (drop 2 (take n (tokens blanks str)))) < 1024"
proof -
  have sum: "sum_list (map (\<lambda>w. Suc (length w)) (tokens blanks str)) \<le> 128"
    using tokens_length [of blanks str] assms(2) by simp
  show "\<forall>w \<in> set (take n (tokens blanks str)). is_word w \<and> length w < 128"
  proof
    fix w assume "w \<in> set (take n (tokens blanks str))"
    then have w: "w \<in> set (tokens blanks str)" by (rule in_set_takeD)
    then have "Suc (length w) \<le> sum_list (map (\<lambda>w. Suc (length w)) (tokens blanks str))"
      by (intro member_le_sum_list) auto
    then have "length w < 128" using sum by simp
    moreover have "is_word w" using tokens_words [OF w] assms(1) by (auto simp: is_word_def blanks_def)
    ultimately show "is_word w \<and> length w < 128" by blast
  qed
  let ?f = "\<lambda>w :: string. Suc (length w)"
  have "length (unwords (drop 2 (take n (tokens blanks str)))) \<le> sum_list (map ?f (drop 2 (take n (tokens blanks str))))"
    by (rule length_unwords)
  also have "\<dots> \<le> sum_list (map ?f (take n (tokens blanks str)))" by (rule sum_list_take_drop)
  also have "\<dots> \<le> sum_list (map ?f (tokens blanks str))" by (rule sum_list_take_drop)
  finally show "length (unwords (drop 2 (take n (tokens blanks str)))) < 1024" using sum by simp
qed

lemma alias_list_add_history:
  "add_to_history cmd h = Some h' \<Longrightarrow> \<exists>hs p. h' = h\<lparr>history := hs, history_pos := p\<rparr> \<Longrightarrow> commands_ok h' = commands_ok h"
  by (auto simp: commands_ok_def alias_list_def)

text \<open>The words the interpreter acts on: those of the line, or of the command its first word stands for.\<close>

definition command_words :: "string \<Rightarrow> shell \<Rightarrow> string list" where
  "command_words str h =
     (case take 15 (tokens blanks str) of
        [] \<Rightarrow> []
      | w # ws \<Rightarrow> (case map_of (alias_list h) w of None \<Rightarrow> w # ws | Some c \<Rightarrow> take 15 (tokens blanks c)))"

lemma debug_ok: "sys_inv i s \<Longrightarrow> succeeds (sys_inv i) (debug_report args s)"
  unfolding debug_report_def by (intro step_intros) (simp_all add: ln_def)

fun outcome_ok :: "intr \<Rightarrow> outcome \<Rightarrow> bool" where
  "outcome_ok i (Running s) = sys_inv i s"
| "outcome_ok i (Halted s) = True"

text \<open>What the interpreter does after the history: the dispatch and what follows it.\<close>

definition run_words :: "string list \<Rightarrow> sys \<Rightarrow> outcome option" where
  "run_words args s =
     (if args = [] then Some (Running s)
      else do {
        flow \<leftarrow> dispatch args (set_exit 0 s);
        case flow of
          Return s \<Rightarrow> Some (Running s)
        | Halt s \<Rightarrow> Some (Halted s)
        | Fall s \<Rightarrow> map_option Running (debug_report args s) })"

lemma execute_command_words:
  assumes "shell_inv (sh s)" and "commands_ok (sh s)" and "NUL \<notin> set str" and "length str \<le> 126" and "str \<noteq> []"
  shows "\<exists>h hs p. add_to_history str (sh s) = Some h \<and> h = (sh s)\<lparr>history := hs, history_pos := p\<rparr> \<and> shell_inv h \<and>
    execute_command str s = run_words (command_words str (sh s)) (s\<lparr>sh := h\<rparr>)"
proof -
  obtain h where h: "add_to_history str (sh s) = Some h" "shell_inv h"
    "\<exists>hs p. h = (sh s)\<lparr>history := hs, history_pos := p\<rparr>"
    using add_history_recent [OF assms(1,3) _ assms(4)] assms(5) by auto
  then have al: "alias_list h = alias_list (sh s)" by (auto simp: alias_list_def)
  have len: "length str < MAX_INPUT" using assms(4) by (simp add: MAX_INPUT_def)
  note parse = parse_command_tokens [OF assms(3) len]
  have "execute_command str s = run_words (command_words str (sh s)) (s\<lparr>sh := h\<rparr>)"
  proof (cases "take 15 (tokens blanks str)")
    case Nil
    then show ?thesis using h(1) parse assms(5)
      by (simp add: execute_command_def run_words_def command_words_def)
  next
    case (Cons w ws)
    then have "w \<in> set (tokens blanks str)" by (metis in_set_takeD list.set_intros(1))
    then have w: "NUL \<notin> set w" using tokens_words assms(3) by blast
    note r = resolve_alias_map [OF h(2) w, unfolded al]
    show ?thesis
    proof (cases "map_of (alias_list (sh s)) w")
      case None
      then show ?thesis using h(1) parse assms(5) Cons r
        by (simp add: execute_command_def run_words_def command_words_def Let_def)
    next
      case (Some c)
      then have "(w, c) \<in> set (alias_list (sh s))" by (rule map_of_SomeD)
      then have c: "tokens blanks c \<noteq> []" "NUL \<notin> set c" "length c < MAX_INPUT"
        using assms(2) by (auto simp: commands_ok_def MAX_INPUT_def)
      then have ne: "take 15 (tokens blanks c) \<noteq> []" by (cases "tokens blanks c") simp_all
      show ?thesis using h(1) parse assms(5) Cons r Some ne parse_command_tokens [OF c(2,3)]
        by (simp add: execute_command_def run_words_def command_words_def Let_def)
    qed
  qed
  then show ?thesis using h by blast
qed

lemma command_words_ok:
  assumes "commands_ok h" and "NUL \<notin> set str" and "length str < 128"
  shows "\<forall>w \<in> set (command_words str h). is_word w \<and> length w < 128"
    and "length (unwords (drop 2 (command_words str h))) < 1024"
proof -
  have "(\<forall>w \<in> set (command_words str h). is_word w \<and> length w < 128) \<and>
    length (unwords (drop 2 (command_words str h))) < 1024"
  proof (cases "take 15 (tokens blanks str)")
    case Nil
    then show ?thesis by (simp add: command_words_def)
  next
    case (Cons w ws)
    show ?thesis
    proof (cases "map_of (alias_list h) w")
      case None
      then show ?thesis using words_of_line [OF assms(2,3), of 15] Cons by (simp add: command_words_def)
    next
      case (Some c)
      then have "(w, c) \<in> set (alias_list h)" by (rule map_of_SomeD)
      then have c: "NUL \<notin> set c" "length c < 128" using assms(1) by (auto simp: commands_ok_def)
      show ?thesis using words_of_line [OF c, of 15] Cons Some by (simp add: command_words_def)
    qed
  qed
  then show "\<forall>w \<in> set (command_words str h). is_word w \<and> length w < 128"
    "length (unwords (drop 2 (command_words str h))) < 1024" by blast+
qed

lemma execute_command_ok:
  assumes "sys_inv i s" and "NUL \<notin> set str" and "length str \<le> 126"
    and "\<not> calc_traps (command_words str (sh s))"
  shows "succeeds (outcome_ok i) (execute_command str s)"
proof (cases "str = []")
  case True
  then show ?thesis using assms(1) by (simp add: execute_command_def succeeds_def)
next
  case False
  have inv: "shell_inv (sh s)" "commands_ok (sh s)" using assms(1) by (simp_all add: sys_inv_def)
  let ?args = "command_words str (sh s)"
  obtain h hs p where h: "h = (sh s)\<lparr>history := hs, history_pos := p\<rparr>" "shell_inv h"
    "execute_command str s = run_words ?args (s\<lparr>sh := h\<rparr>)"
    using execute_command_words [OF inv assms(2,3) False] by blast
  have "commands_ok h" using inv(2) by (simp add: h(1) commands_ok_def alias_list_def)
  then have s1: "sys_inv i (s\<lparr>sh := h\<rparr>)" using sys_inv_shell [OF assms(1) h(2)] by blast
  let ?s = "set_exit 0 (s\<lparr>sh := h\<rparr>)"
  have len: "length str < 128" using assms(3) by simp
  note ws = command_words_ok [OF inv(2) assms(2) len]
  show ?thesis
  proof (cases "?args = []")
    case True
    then show ?thesis using h(3) s1 by (simp add: run_words_def succeeds_def)
  next
    case F: False
    have "succeeds (flow_ok i) (dispatch ?args ?s)"
      by (rule dispatch_ok [OF set_exit_ok [OF s1] F ws assms(4)])
    then obtain flow where f: "dispatch ?args ?s = Some flow" "flow_ok i flow" by (auto simp: succeeds_def)
    have "succeeds (outcome_ok i) (map_option Running (debug_report ?args t))" if "sys_inv i t" for t
      by (rule succeeds_map [OF debug_ok [OF that]]) simp
    then show ?thesis using h(3) f F by (cases flow) (simp_all add: run_words_def succeeds_Some)
  qed
qed

text \<open>In the exceptional case there is no result.\<close>

lemma execute_command_fatal:
  assumes "sys_inv i s" and "NUL \<notin> set str" and "length str \<le> 126"
    and traps: "calc_traps (command_words str (sh s))"
  shows "execute_command str s = None"
proof -
  have inv: "shell_inv (sh s)" "commands_ok (sh s)" using assms(1) by (simp_all add: sys_inv_def)
  let ?args = "command_words str (sh s)"
  have ne: "?args \<noteq> []" "str \<noteq> []"
    using traps by (auto simp: calc_traps_def command_words_def tokens_Nil)
  obtain h hs p where h: "h = (sh s)\<lparr>history := hs, history_pos := p\<rparr>" "shell_inv h"
    "execute_command str s = run_words ?args (s\<lparr>sh := h\<rparr>)"
    using execute_command_words [OF inv assms(2,3) ne(2)] by blast
  let ?s = "set_exit 0 (s\<lparr>sh := h\<rparr>)"
  have len: "length str < 128" using assms(3) by simp
  note ws = command_words_ok(1) [OF inv(2) assms(2) len]
  have eq: "strcmp_spec (?args ! 0) name = 0 \<longleftrightarrow> ?args ! 0 = name" if "NUL \<notin> set name" for name
    by (rule strcmp_spec_eq_0 [OF _ that]) (use ws ne(1) in \<open>auto simp: is_word_def\<close>)
  have "calc_op (hd (?args ! 2 @ [NUL])) (word_of_int (atoi_spec (?args ! 1))) (word_of_int (atoi_spec (?args ! 3))) = None"
    unfolding calc_op_traps using traps by (simp add: calc_traps_def)
  then have "?args ! 0 = ''calc''" "calculator ?args ?s = None"
    using traps by (simp_all add: calc_traps_def calculator_def Let_def)
  then have "dispatch ?args ?s = None" by (simp add: dispatch_def eq falls_def)
  then show ?thesis using h(3) ne by (simp add: run_words_def)
qed

end
