(* ===== verification/BootFacts.thy ===== *)
theory BootFacts
  imports SystemFacts LineFacts
begin

text \<open>
  From power-up to the prompt: the self test of the file system, the entry point up to the
  shell, the shell's greeting with its default aliases through the interface of a name table,
  and the loop of the shell, one line at a time.
\<close>

section \<open>The self test and the boot\<close>

lemma kprint_plain: "CHR ''%'' \<notin> set str \<Longrightarrow> kprint str args m = Some (say str m)"
  by (simp add: kprint_def printk_render render_plain say_def)

lemma say_say: "say b (say a m) = say (a @ b) m"
  by (simp add: say_def writestring_append)

lemma say_simps [simp]:
  "fs (say str m) = fs m" "irq (say str m) = irq m" "status (say str m) = status m"
  "screen (say str m) = terminal_writestring str (screen m)"
  "say str (m\<lparr>fs := f\<rparr>) = (say str m)\<lparr>fs := f\<rparr>"
  by (simp_all add: say_def)

lemma fs_boot_steps:
  assumes "fs_boot f = Some (r, g)"
  obtains a b where "vfs_initialize f = Some a" and "memfs_initialize a = Some b"
    and "vfs_mount ''/'' ''memfs'' b = Some (r, g)"
  using assms by (auto simp: fs_boot_def option_bind_Some_iff)

lemma fs_boot_booted:
  assumes "heap_ok f" and "unat (heap_pos (kh f)) + 2568 \<le> 0x10000"
  obtains g where "fs_boot f = Some (0, g)" and "booted g" and "heap_ok g"
    and "unat (heap_pos (kh g)) \<le> unat (heap_pos (kh f)) + 2556" and "dom (bytes g) = dom (bytes f)"
proof -
  have "frontier (kh f) \<noteq> NULL" using assms(1) by (simp add: heap_ok_def kheap_inv_def frontier_def)
  then show thesis using fs_boot_ok [OF assms] that by (auto simp: booted_def)
qed

definition selftest_text :: string where
  "selftest_text = ln ''=== Starting File System Test ==='' @ ln ''Mounted memory filesystem at /'' @
     ln ''Creating test file...'' @ ln ''Failed to create test file''"

lemma fs_test_run:
  assumes "heap_ok (fs m)" and "unat (heap_pos (kh (fs m))) + 2568 \<le> 0x10000"
  obtains g where "fs_test da buf m = Some ((say selftest_text m)\<lparr>fs := g\<rparr>)" and "booted g"
    and "dom (bytes g) = dom (bytes (fs m))" and "fs_boot (fs m) = Some (0, g)"
proof -
  obtain g where g: "fs_boot (fs m) = Some (0, g)" "booted g" "dom (bytes g) = dom (bytes (fs m))"
    by (rule fs_boot_booted [OF assms])
  obtain a b where ab: "vfs_initialize (fs m) = Some a" "memfs_initialize a = Some b"
    "vfs_mount ''/'' ''memfs'' b = Some (0, g)" by (rule fs_boot_steps [OF g(1)])
  have "fs_test da buf m = Some ((say selftest_text m)\<lparr>fs := g\<rparr>)"
    using ab booted_open [OF g(2), of "''/test.txt''" "O_WRONLY OR O_CREAT"]
    by (simp add: fs_test_def kprint_plain ln_def on_fs_def say_say selftest_text_def)
  then show thesis using g that by blast
qed

definition boot_text :: string where
  "boot_text = ln ''BasedOS Kernel v0.1'' @ selftest_text"

text \<open>The entry point boots the file system twice: once itself and once in the self test.\<close>

lemma kmain_boot_steps:
  fixes ka ta ia :: u32 and da buf :: addr
  assumes "heap_ok (fs m)" and "unat (heap_pos (kh (fs m))) + 5147 \<le> 0x10000"
  defines "m1 \<equiv> kernel_init ka ta ia (m\<lparr>screen := terminal_initialize (screen m)\<rparr>)"
  obtains g g' where "kmain_boot ka ta ia da buf m =
      Some ((say selftest_text (say (ln ''BasedOS Kernel v0.1'') m1))\<lparr>fs := g'\<rparr>)"
    and "fs_boot (fs m1) = Some (0, g)" and "fs_boot g = Some (0, g')" and "booted g'"
    and "dom (bytes g') = dom (bytes (fs m))" and "unat (heap_pos (kh g)) \<le> unat (heap_pos (kh (fs m))) + 2579"
proof -
  let ?m0 = "m\<lparr>screen := terminal_initialize (screen m)\<rparr>"
  have pre: "kheap_inv (kh (fs ?m0))" "unat (heap_pos (kh (fs ?m0))) + 20 \<le> 0x10000"
    using assms by (simp_all add: heap_ok_def)
  obtain h where k: "fs m1 = (fs m)\<lparr>kh := h\<rparr>" "kheap_inv h" "heap_base h = heap_base (kh (fs m))"
    "unat (heap_pos h) \<le> unat (heap_pos (kh (fs m))) + 23"
    unfolding m1_def by (rule kernel_init_facts [OF pre, of ka ta ia]) auto
  have h1: "heap_ok (fs m1)" "unat (heap_pos (kh (fs m1))) + 5124 \<le> 0x10000"
    using k assms(1,2) by (simp_all add: heap_ok_def)
  then have "unat (heap_pos (kh (fs m1))) + 2568 \<le> 0x10000" by simp
  then obtain g where g: "fs_boot (fs m1) = Some (0, g)" "heap_ok g"
    "unat (heap_pos (kh g)) \<le> unat (heap_pos (kh (fs m1))) + 2556" "dom (bytes g) = dom (bytes (fs m1))"
    using fs_boot_booted [OF h1(1)] by metis
  obtain a b where ab: "vfs_initialize (fs m1) = Some a" "memfs_initialize a = Some b"
    "vfs_mount ''/'' ''memfs'' b = Some (0, g)" by (rule fs_boot_steps [OF g(1)])
  define m2 where "m2 = (say (ln ''BasedOS Kernel v0.1'') m1)\<lparr>fs := g\<rparr>"
  have "heap_ok (fs m2)" "unat (heap_pos (kh (fs m2))) + 2568 \<le> 0x10000" using g h1 by (simp_all add: m2_def)
  then obtain g' where t: "fs_test da buf m2 = Some ((say selftest_text m2)\<lparr>fs := g'\<rparr>)" "booted g'"
    "dom (bytes g') = dom (bytes (fs m2))" "fs_boot (fs m2) = Some (0, g')" using fs_test_run by metis
  have "kmain_boot ka ta ia da buf m = fs_test da buf m2"
    using ab unfolding m2_def
    by (simp add: kmain_boot_def on_fs_def kprint_plain ln_def m1_def kernel_init_def)
  moreover have "(say selftest_text m2)\<lparr>fs := g'\<rparr> =
      (say selftest_text (say (ln ''BasedOS Kernel v0.1'') m1))\<lparr>fs := g'\<rparr>"
    by (simp add: m2_def)
  ultimately show thesis using t(1,2,3,4) k(1,4) g(1,3,4) by (intro that [of g' g]) (simp_all add: m2_def)
qed

lemma kmain_boot_run:
  assumes "heap_ok (fs m)" and "unat (heap_pos (kh (fs m))) + 5147 \<le> 0x10000"
  obtains m' p where "kmain_boot ka ta ia da buf m = Some m'" and "booted (fs m')"
    and "screen m' = terminal_writestring boot_text (terminal_initialize (screen m))"
    and "dom (bytes (fs m')) = dom (bytes (fs m))"
    and "irq m' = (register_interrupt_handler 0x20 ta (init_interrupts ka ia (irq m)))\<lparr>iports := p\<rparr>"
    and "status_total (status m') = 64 * 1024 * 1024"
proof -
  let ?m0 = "m\<lparr>screen := terminal_initialize (screen m)\<rparr>"
  have pre: "kheap_inv (kh (fs ?m0))" "unat (heap_pos (kh (fs ?m0))) + 20 \<le> 0x10000"
    using assms by (simp_all add: heap_ok_def)
  obtain p where k: "irq (kernel_init ka ta ia ?m0) = (register_interrupt_handler 0x20 ta (init_interrupts ka ia (irq m)))\<lparr>iports := p\<rparr>"
    "screen (kernel_init ka ta ia ?m0) = terminal_initialize (screen m)"
    "status_total (status (kernel_init ka ta ia ?m0)) = 64 * 1024 * 1024"
    by (rule kernel_init_facts [OF pre, of ka ta ia]) auto
  obtain g g' where
    "kmain_boot ka ta ia da buf m =
      Some ((say selftest_text (say (ln ''BasedOS Kernel v0.1'') (kernel_init ka ta ia ?m0)))\<lparr>fs := g'\<rparr>)"
    "fs_boot (fs (kernel_init ka ta ia ?m0)) = Some (0, g)" "fs_boot g = Some (0, g')" "booted g'"
    "dom (bytes g') = dom (bytes (fs m))" "unat (heap_pos (kh g)) \<le> unat (heap_pos (kh (fs m))) + 2579"
    by (rule kmain_boot_steps [OF assms])
  then show thesis using k
    by (intro that [of "(say selftest_text (say (ln ''BasedOS Kernel v0.1'') (kernel_init ka ta ia ?m0)))\<lparr>fs := g'\<rparr>" p])
      (simp_all add: boot_text_def writestring_append)
qed

section \<open>The interface of a name table\<close>

text \<open>What the greeting relies on: entering a name updates the map that lookups read, as long as there
  is room. The client enters several names in a row.\<close>

fun enter_all :: "('k \<Rightarrow> 'v \<Rightarrow> 's \<Rightarrow> 's option) \<Rightarrow> ('k \<times> 'v) list \<Rightarrow> 's \<Rightarrow> 's option" where
  "enter_all enter [] s = Some s"
| "enter_all enter ((k, v) # kvs) s = do { s \<leftarrow> enter k v s; enter_all enter kvs s }"

locale name_table =
  fixes enter :: "'k \<Rightarrow> 'v \<Rightarrow> 's \<Rightarrow> 's option"
    and look :: "'s \<Rightarrow> 'k \<Rightarrow> 'v option"
    and inv :: "'s \<Rightarrow> bool"
    and used :: "'s \<Rightarrow> int"
    and cap :: int
    and entry_ok :: "'k \<Rightarrow> 'v \<Rightarrow> bool"
  assumes enter_law: "inv s \<Longrightarrow> used s < cap \<Longrightarrow> entry_ok k v \<Longrightarrow>
    \<exists>s'. enter k v s = Some s' \<and> inv s' \<and> look s' = (look s)(k \<mapsto> v) \<and> used s' \<le> used s + 1"
begin

lemma enter_all_law:
  "inv s \<Longrightarrow> used s + int (length kvs) \<le> cap \<Longrightarrow> \<forall>(k, v) \<in> set kvs. entry_ok k v \<Longrightarrow>
   \<exists>s'. enter_all enter kvs s = Some s' \<and> inv s' \<and> look s' = look s ++ map_of (rev kvs) \<and>
     used s' \<le> used s + int (length kvs)"
proof (induction kvs arbitrary: s)
  case (Cons kv kvs)
  obtain k v where kv: "kv = (k, v)" by (cases kv)
  then obtain s1 where s1: "enter k v s = Some s1" "inv s1" "look s1 = (look s)(k \<mapsto> v)" "used s1 \<le> used s + 1"
    using enter_law [OF Cons.prems(1), of k v] Cons.prems(2,3) by auto
  then have "used s1 + int (length kvs) \<le> cap" using Cons.prems(2) by simp
  from Cons.IH [OF s1(2) this] Cons.prems(3) obtain s2 where
    "enter_all enter kvs s1 = Some s2" "inv s2" "look s2 = look s1 ++ map_of (rev kvs)"
    "used s2 \<le> used s1 + int (length kvs)" by auto
  then show ?case using s1 kv by (auto simp: map_add_def fun_eq_iff split: option.splits)
qed simp

end

definition alias_entry_ok :: "string \<Rightarrow> string \<Rightarrow> bool" where
  "alias_entry_ok nm c \<longleftrightarrow> NUL \<notin> set nm \<and> length nm < 32 \<and> NUL \<notin> set c \<and> length c < 128 \<and> tokens blanks c \<noteq> []"

interpretation aliases: name_table add_alias "\<lambda>s. map_of (alias_list (sh s))" "sys_inv i"
  "\<lambda>s. alias_count (sh s)" 20 alias_entry_ok
proof unfold_locales
  fix s nm c
  assume a: "sys_inv i s" "alias_count (sh s) < 20" "alias_entry_ok nm c"
  then have inv: "shell_inv (sh s)" by (simp add: sys_inv_def)
  have e: "NUL \<notin> set nm" "length nm < 32" "NUL \<notin> set c" "length c < 128" "tokens blanks c \<noteq> []"
    using a(3) by (simp_all add: alias_entry_ok_def)
  obtain s' where "add_alias nm c s = Some s'" "sys_inv i s'"
    using add_alias_ok [OF a(1) e(1,3,4,5)] e(2) by (auto simp: succeeds_def)
  then show "\<exists>s'. add_alias nm c s = Some s' \<and> sys_inv i s' \<and>
      map_of (alias_list (sh s')) = (map_of (alias_list (sh s)))(nm \<mapsto> c) \<and>
      alias_count (sh s') \<le> alias_count (sh s) + 1"
    using add_alias_map [OF inv a(2) e(1,2,3,4)] by auto
qed

section \<open>The greeting and the prompt\<close>

named_theorems screen_steps \<open>operations that succeed and change the screen only\<close>

lemma put_str_step [screen_steps]:
  "screen_only s0 s \<Longrightarrow> render fmt args \<noteq> None \<Longrightarrow> succeeds (screen_only s0) (put_str fmt args s)"
  using screen_only_trans [OF _ write_sys_screen] by (auto simp: succeeds_def put_str_render)

lemma print_step [screen_steps]:
  "screen_only s0 s \<Longrightarrow> succeeds (screen_only s0) (print_info str s)"
  "screen_only s0 s \<Longrightarrow> succeeds (screen_only s0) (print_success str s)"
  "screen_only s0 s \<Longrightarrow> succeeds (screen_only s0) (print_warning str s)"
  "screen_only s0 s \<Longrightarrow> succeeds (screen_only s0) (print_error str s)"
  using print_total screen_only_trans by (fastforce simp: succeeds_def)+

lemmas [screen_steps] = succeeds_Some succeeds_keep succeeds_if

definition default_aliases :: "(string \<times> string) list" where
  "default_aliases = [(''ll'', ''ls -l''), (''la'', ''ls -a''), (''cls'', ''clear''), (''mem'', ''memory''), (''sys'', ''sysinfo'')]"

definition greeting_text :: "sys \<Rightarrow> sys option" where
  "greeting_text s =
     do { s \<leftarrow> display_banner s;
          s \<leftarrow> print_success (ln ''BasedOS Shell v2.0'') s;
          s \<leftarrow> print_info (ln (''Type '' @ [CHR 0x27] @ ''help'' @ [CHR 0x27] @ '' for available commands'')) s;
          put_str (ln '''') [] s }"

lemma greeting_split: "shell_greeting s = greeting_text s \<bind> enter_all add_alias default_aliases"
proof -
  have "enter_all e [] = Some" "enter_all e ((k, v) # kvs) = (\<lambda>s. e k v s \<bind> enter_all e kvs)"
    for e :: "string \<Rightarrow> string \<Rightarrow> sys \<Rightarrow> sys option" and k v kvs by (simp_all add: fun_eq_iff)
  then show ?thesis by (simp add: shell_greeting_def greeting_text_def default_aliases_def)
qed

lemma greeting_text_run: "succeeds (screen_only s) (greeting_text s)"
  unfolding greeting_text_def display_banner_def
  by (intro screen_steps succeeds_bind) (simp_all add: ln_def)

lemma default_aliases_ok: "\<forall>(k, v) \<in> set default_aliases. alias_entry_ok k v"
  by (simp add: default_aliases_def alias_entry_ok_def tokens.simps skip_delims_def blanks_def)

lemma greeting_run:
  assumes "sys_inv i s" and "alias_count (sh s) \<le> 15"
  obtains s' where "shell_greeting s = Some s'" and "sys_inv i s'"
    and "map_of (alias_list (sh s')) = map_of (alias_list (sh s)) ++ map_of (rev default_aliases)"
proof -
  obtain s1 where s1: "greeting_text s = Some s1" "screen_only s s1"
    using greeting_text_run [of s] by (auto simp: succeeds_def)
  have sh1: "sh s1 = sh s" by (rule screen_only_simps(1) [OF s1(2)])
  have len: "alias_count (sh s1) + int (length default_aliases) \<le> 20"
    using assms(2) sh1 by (simp add: default_aliases_def)
  from aliases.enter_all_law [OF sys_inv_screen [OF assms(1) s1(2)] len default_aliases_ok] show thesis
    using s1(1) that by (auto simp: greeting_split sh1)
qed

lemma prompt_run:
  assumes "shell_inv (sh s)"
  shows "succeeds (screen_only s) (show_prompt s)"
proof -
  have dir: "succeeds (screen_only s) (arr_cstr (current_directory (sh s')) \<bind> f)"
    if "screen_only s s'" "\<And>d. succeeds (screen_only s) (f d)" for s' f
    by (rule directory_bind) (use assms that screen_only_simps(1) [OF that(1)] in simp_all)
  show ?thesis unfolding show_prompt_def
    by (intro screen_steps dir) simp_all
qed

section \<open>The loop, one line at a time\<close>

lemma cleared_line:
  assumes "length a = 128"
  shows "arr_set a 0 NUL = Some (a[0 := NUL]) \<and> line_inv \<lparr>input = a[0 := NUL], position = 0\<rparr> \<and>
    line_text \<lparr>input = a[0 := NUL], position = 0\<rparr> = []"
  using assms by (cases a) (simp_all add: arr_set_def line_inv_def line_text_def MAX_INPUT_def)

lemma sys_inv_current: "sys_inv i s \<Longrightarrow> - 1 \<le> k \<Longrightarrow> k < 10 \<Longrightarrow> sys_inv i (set_current_history k s)"
  unfolding set_current_history_def
  by (rule sys_inv_shell) (auto simp: sys_inv_def shell_inv_def commands_ok_def alias_list_def)

text \<open>The line that the keys pressed before Enter leave in the buffer.\<close>

definition typed :: "u8 list \<Rightarrow> string" where
  "typed scs = fold edited (List.map_filter key_of scs) []"

lemma typed_short:
  assumes "line_inv l" and "line_text l = typed scs"
  shows "NUL \<notin> set (typed scs) \<and> length (typed scs) \<le> 126"
  using assms line_position [OF assms(1)] line_text_length [OF assms(1)] by (auto simp: line_inv_def)

text \<open>Reading: prompt, editing, and the state in which the command runs.\<close>

lemma prompt_read:
  assumes "sys_inv i s" and "listening i" and "length a = 128"
  obtains s1 where "show_prompt s = Some s1" and
    "\<forall>sc \<in> set scs. sc \<noteq> 0x1C \<Longrightarrow> \<exists>s2 l i'.
       read_line (scs @ 0x1C # rest) s1 \<lparr>input = a[0 := NUL], position = 0\<rparr> = Some (s2, l, rest) \<and>
       sys_inv i' s2 \<and> listening i' \<and> (\<exists>k. sh s2 = (sh s)\<lparr>current_history := k\<rparr>) \<and> line_inv l \<and> line_text l = typed scs" and
    "\<forall>sc \<in> set scs. sc \<noteq> 0x1C \<Longrightarrow> read_line scs s1 \<lparr>input = a[0 := NUL], position = 0\<rparr> = None"
proof -
  have inv: "shell_inv (sh s)" by (rule sys_inv_shell_inv [OF assms(1)])
  obtain s1 where s1: "show_prompt s = Some s1" "screen_only s s1"
    using prompt_run [OF inv] by (auto simp: succeeds_def)
  have i1: "sys_inv i s1" by (rule sys_inv_screen [OF assms(1) s1(2)])
  then have l1: "listening (irq (mach s1))" using assms(2) by (auto simp: sys_inv_def)
  have sh1: "sh s1 = sh s" by (rule screen_only_simps(1) [OF s1(2)])
  have inv1: "shell_inv (sh s1)" using inv by (simp add: sh1)
  let ?l = "\<lparr>input = a[0 := NUL], position = 0\<rparr>"
  have c: "line_inv ?l" "line_text ?l = []" using cleared_line [OF assms(3)] by simp_all
  show thesis
  proof (rule that [OF s1(1)])
    assume "\<forall>sc \<in> set scs. sc \<noteq> 0x1C"
    then have e: "\<forall>sc \<in> set scs. key_of sc \<noteq> Some (CHR 0x0D)" by (simp add: enter_code)
    show "read_line scs s1 ?l = None" by (rule read_line_no_enter [OF inv1 c(1) l1 e])
    obtain s2 l k where r: "read_line (scs @ 0x1C # rest) s1 ?l = Some (s2, l, rest)" "shell_inv (sh s2)"
      "sh s2 = (sh s1)\<lparr>current_history := k\<rparr>" "line_inv l" "listening (irq (mach s2))"
      "fs (mach s2) = fs (mach s1)" "frame s2 = frame s1" "status (mach s2) = status (mach s1)"
      "line_text l = typed scs"
      using read_line_typed [OF inv1 c(1) l1 e, of rest] c(2) by (auto simp: typed_def)
    have "commands_ok (sh s2)" using i1 r(3) by (simp add: sys_inv_def commands_ok_def alias_list_def)
    moreover have "\<exists>p. irq (mach s2) = (irq (mach s2))\<lparr>iports := p\<rparr>"
      by (rule exI [of _ "iports (irq (mach s2))"]) simp
    ultimately have "sys_inv (irq (mach s2)) s2" using i1 r(2,6,7,8) unfolding sys_inv_def by auto
    then show "\<exists>s2 l i'. read_line (scs @ 0x1C # rest) s1 ?l = Some (s2, l, rest) \<and>
       sys_inv i' s2 \<and> listening i' \<and> (\<exists>k. sh s2 = (sh s)\<lparr>current_history := k\<rparr>) \<and> line_inv l \<and> line_text l = typed scs"
      using r sh1 by auto
  qed
qed

text \<open>The loop with interrupts on: either the line was the fatal command, or the machine
  halts, or the shell exits, or it is back at the prompt in a good state.\<close>

definition fatal :: "string \<Rightarrow> shell \<Rightarrow> bool" where
  "fatal str h \<longleftrightarrow> calc_traps (command_words str h)"

lemma fatal_current [simp]: "fatal str (h\<lparr>current_history := k\<rparr>) = fatal str h"
proof -
  have "alias_list (h\<lparr>current_history := k\<rparr>) = alias_list h" by (simp add: alias_list_def)
  then have "command_words str (h\<lparr>current_history := k\<rparr>) = command_words str h"
    by (simp only: command_words_def)
  then show ?thesis by (simp add: fatal_def)
qed

lemma shell_loop_line:
  assumes "sys_inv i s" and "listening i" and "length a = 128" and "\<forall>sc \<in> set scs. sc \<noteq> 0x1C"
  shows "(fatal (typed scs) (sh s) \<longrightarrow> shell_loop (scs @ 0x1C # rest) a s = None) \<and>
    (\<not> fatal (typed scs) (sh s) \<longrightarrow>
      (\<exists>s'. shell_loop (scs @ 0x1C # rest) a s = Some (Halted s', rest)) \<or>
      (\<exists>i' a' s'. listening i' \<and> sys_inv i' s' \<and> length a' = 128 \<and>
        shell_loop (scs @ 0x1C # rest) a s =
          (if typed scs = ''exit'' then Some (Running s', rest) else shell_loop rest a' s')))"
proof -
  obtain s1 s2 l i' k where r: "show_prompt s = Some s1"
    "read_line (scs @ 0x1C # rest) s1 \<lparr>input = a[0 := NUL], position = 0\<rparr> = Some (s2, l, rest)"
    "sys_inv i' s2" "listening i'" "sh s2 = (sh s)\<lparr>current_history := k\<rparr>" "line_inv l" "line_text l = typed scs"
    using prompt_read [OF assms(1-3), of scs rest] assms(4) by metis
  note short = typed_short [OF r(6,7)]
  have cmd: "arr_cstr (input l) = Some (typed scs)" using line_cstr [OF r(6)] r(7) by simp
  have fatal: "fatal (typed scs) (sh s2) = fatal (typed scs) (sh s)" by (simp add: r(5))
  have loop: "shell_loop (scs @ 0x1C # rest) a s = do { r \<leftarrow> execute_command (typed scs) s2;
      case r of Halted s \<Rightarrow> Some (Halted s, rest)
      | Running s \<Rightarrow> let s = set_current_history (- 1) s in
          if strcmp_spec (typed scs) ''exit'' = 0 then Some (Running s, rest) else shell_loop rest (input l) s }"
    using r(1,2) cleared_line [OF assms(3)] cmd by (subst shell_loop.simps) simp
  have eq: "strcmp_spec (typed scs) ''exit'' = 0 \<longleftrightarrow> typed scs = ''exit''"
    using strcmp_spec_eq_0 [of "typed scs" "''exit''"] short by simp
  show ?thesis
  proof (intro conjI impI)
    assume f: "fatal (typed scs) (sh s)"
    have "execute_command (typed scs) s2 = None"
      using execute_command_fatal [OF r(3)] short f fatal by (auto simp: fatal_def)
    then show "shell_loop (scs @ 0x1C # rest) a s = None" by (simp add: loop)
  next
    assume f: "\<not> fatal (typed scs) (sh s)"
    obtain res where res: "execute_command (typed scs) s2 = Some res" "outcome_ok i' res"
      using execute_command_ok [OF r(3)] short f fatal by (auto simp: fatal_def succeeds_def)
    show "(\<exists>s'. shell_loop (scs @ 0x1C # rest) a s = Some (Halted s', rest)) \<or>
      (\<exists>i' a' s'. listening i' \<and> sys_inv i' s' \<and> length a' = 128 \<and>
        shell_loop (scs @ 0x1C # rest) a s =
          (if typed scs = ''exit'' then Some (Running s', rest) else shell_loop rest a' s'))"
    proof (cases res)
      case (Halted t)
      then show ?thesis using res(1) by (simp add: loop)
    next
      case (Running t)
      then have "sys_inv i' (set_current_history (- 1) t)" using res(2) sys_inv_current by simp
      moreover have "length (input l) = 128" using line_position [OF r(6)] by simp
      ultimately show ?thesis using res(1) Running r(4) eq by (auto simp: loop Let_def)
    qed
  qed
qed

end
