(* ===== verification/SystemProps.thy ===== *)
theory SystemProps
  imports BootFacts KernelProps FsProps
begin

text \<open>
  Properties of the system as a whole: the boot sequence and its self test, the state in which
  the prompt is left waiting, the default aliases, when a command brings the machine down, the
  loop of the shell line by line, and what is left of the file system for the shell's commands.
\<close>

section \<open>Boot\<close>

text \<open>C17: Everything \<^verbatim>\<open>kmain\<close> does before the shell returns, given some 5 KiB of free heap. The self test of the
  file system stops at its first step: what it prints after the banner ends with the failure to
  create its file. The root stays the bare node, every descriptor is closed, and the interrupt
  flag and the keyboard buffer are as before.\<close>

theorem boot_selftest_fails:
  assumes "heap_ok (fs m)" and "unat (heap_pos (kh (fs m))) + 5147 \<le> 0x10000"
  shows "\<exists>m'. kmain_boot ka ta ia da buf m = Some m' \<and> booted (fs m') \<and>
    screen m' = terminal_writestring
      (ln ''BasedOS Kernel v0.1'' @ ln ''=== Starting File System Test ==='' @
       ln ''Mounted memory filesystem at /'' @ ln ''Creating test file...'' @ ln ''Failed to create test file'')
      (terminal_initialize (screen m)) \<and>
    int_flag (irq m') = int_flag (irq m) \<and> pending (irq m') = pending (irq m)"
proof -
  obtain m' p where m': "kmain_boot ka ta ia da buf m = Some m'" "booted (fs m')"
    "screen m' = terminal_writestring boot_text (terminal_initialize (screen m))"
    "irq m' = (register_interrupt_handler 0x20 ta (init_interrupts ka ia (irq m)))\<lparr>iports := p\<rparr>"
    by (rule kmain_boot_run [OF assms])
  then show ?thesis
    by (auto simp: boot_text_def selftest_text_def register_interrupt_handler_def init_interrupts_def lidt_def Let_def pending_def)
qed

definition power_on :: machine where
  "power_on = machine_init fresh_fs
     \<lparr>video = (\<lambda>_. 0), cursor_x = 0, cursor_y = 0, text_attribute = 7, ports = []\<rparr> 0"

lemma power_on_ok: "heap_ok (fs power_on)" "unat (heap_pos (kh (fs power_on))) + 5147 \<le> 0x10000"
  "deaf (irq power_on)" "valid (bytes (fs power_on)) 0x2000 1024"
  using fresh_heap_ok fresh_pos valid_ram2m [of "0x2000" 1024]
  by (simp_all add: power_on_def machine_init_def deaf_def kbd_inv_def pending_def intr_init_def fresh_fs_def fs_init_def)

lemma boot_selftest_fails_witness:
  "\<exists>m'. kmain_boot 1 2 3 0x3000 0x3100 power_on = Some m' \<and> booted (fs m') \<and> \<not> int_flag (irq m')"
  using boot_selftest_fails [OF power_on_ok(1,2), of 1 2 3 "0x3000" "0x3100"] power_on_ok(3)
  by (auto simp: deaf_def)

lemma commands_ok_init: "commands_ok shell_init"
  by (simp add: commands_ok_def alias_list_def shell_init_def)

lemma boot_system:
  assumes "heap_ok (fs m)" and "unat (heap_pos (kh (fs m))) + 5147 \<le> 0x10000"
    and "valid (bytes (fs m)) stack 1024"
  obtains m' p where "kmain_boot ka ta ia da buf m = Some m'"
    and "sys_inv ((register_interrupt_handler 0x20 ta (init_interrupts ka ia (irq m)))\<lparr>iports := p\<rparr>)
      \<lparr>mach = m', sh = shell_init, frame = stack\<rparr>"
proof -
  obtain m' p where m': "kmain_boot ka ta ia da buf m = Some m'" "booted (fs m')"
    "dom (bytes (fs m')) = dom (bytes (fs m))"
    "irq m' = (register_interrupt_handler 0x20 ta (init_interrupts ka ia (irq m)))\<lparr>iports := p\<rparr>"
    "status_total (status m') = 64 * 1024 * 1024"
    by (rule kmain_boot_run [OF assms(1,2)])
  show thesis using m' assms(3) shell_inv_init commands_ok_init
    by (intro that [OF m'(1), of p]) (auto simp: sys_inv_def valid_def)
qed

text \<open>C13: The kernel never enables interrupts, so the shell cannot be used: from power-up it shows the greeting
  and the prompt, and then waits for a key that cannot arrive, whatever is typed.\<close>

theorem prompt_waits_forever:
  assumes "heap_ok (fs m)" and "unat (heap_pos (kh (fs m))) + 5147 \<le> 0x10000"
    and "valid (bytes (fs m)) stack 1024" and "deaf (irq m)" and "length arr = 128"
  shows "\<exists>m' s1 s2. kmain_boot ka ta ia da buf m = Some m' \<and>
    shell_greeting \<lparr>mach = m', sh = shell_init, frame = stack\<rparr> = Some s1 \<and> show_prompt s1 = Some s2 \<and>
    (\<forall>scs. keyboard_getchar scs (irq (mach s2)) = None \<and> kmain ka ta ia da buf stack arr scs m = None)"
proof -
  let ?i = "register_interrupt_handler 0x20 ta (init_interrupts ka ia (irq m))"
  obtain m' p where b: "kmain_boot ka ta ia da buf m = Some m'"
    "sys_inv (?i\<lparr>iports := p\<rparr>) \<lparr>mach = m', sh = shell_init, frame = stack\<rparr>"
    by (rule boot_system [OF assms(1,2,3)])
  let ?s = "\<lparr>mach = m', sh = shell_init, frame = stack\<rparr>"
  obtain s1 where g: "shell_greeting ?s = Some s1" "sys_inv (?i\<lparr>iports := p\<rparr>) s1"
    by (rule greeting_run [OF b(2)]) (simp add: shell_init_def)
  obtain s2 where q: "show_prompt s1 = Some s2" "screen_only s1 s2"
    using prompt_run [OF sys_inv_shell_inv [OF g(2)]] by (auto simp: succeeds_def)
  have "deaf ?i" using assms(4)
    by (simp add: deaf_def kbd_inv_def pending_def register_interrupt_handler_def init_interrupts_def lidt_def Let_def)
  then have d: "deaf (irq (mach s2))"
    using g(2) screen_only_simps(2) [OF q(2)] by (auto simp: sys_inv_def)
  have "shell_loop scs arr s1 = None" for scs
    using q(1) cleared_line [OF assms(5)] read_line_deaf [OF d] by (subst shell_loop.simps) simp
  then have "kmain ka ta ia da buf stack arr scs m = None" for scs
    using b(1) g(1) by (simp add: kmain_def start_shell_def)
  then show ?thesis using b(1) g(1) q(1) deaf_getchar [OF d] by blast
qed

lemma prompt_waits_forever_witness:
  "\<forall>scs. kmain 1 2 3 0x3000 0x3100 0x2000 (replicate 128 NUL) scs power_on = None"
  using prompt_waits_forever [OF power_on_ok(1,2,4,3), of "replicate 128 NUL" 1 2 3 "0x3000" "0x3100"] by auto

text \<open>After the greeting the five default aliases are defined, and no other.\<close>

theorem greeting_defines_aliases:
  assumes "sys_inv i s" and "alias_count (sh s) = 0" and "NUL \<notin> set nm"
  shows "\<exists>s'. shell_greeting s = Some s' \<and> sys_inv i s' \<and>
    resolve_alias nm (sh s') = Some (map_of
      [(''ll'', ''ls -l''), (''la'', ''ls -a''), (''cls'', ''clear''), (''mem'', ''memory''), (''sys'', ''sysinfo'')] nm)"
proof -
  have "alias_count (sh s) \<le> 15" using assms(2) by simp
  from greeting_run [OF assms(1) this] obtain s' where s': "shell_greeting s = Some s'" "sys_inv i s'"
    "map_of (alias_list (sh s')) = map_of (alias_list (sh s)) ++ map_of (rev default_aliases)" by blast
  have "distinct (map fst default_aliases)" by (simp add: default_aliases_def)
  then have "map_of (rev default_aliases) = map_of default_aliases"
    by (intro map_of_inject_set [THEN iffD2]) (simp_all add: rev_map [symmetric])
  moreover have "alias_list (sh s) = []" using assms(2) by (simp add: alias_list_def)
  ultimately show ?thesis
    using s' resolve_alias_map [OF sys_inv_shell_inv [OF s'(2)] assms(3)] by (simp add: default_aliases_def)
qed

section \<open>The running system\<close>

text \<open>A system with the file system as the boot leaves it, but with interrupts on.\<close>

definition live_system :: sys where
  "live_system = \<lparr>mach = power_on
     \<lparr>fs := fresh_fs\<lparr>fs_root := 0x5000, fs_nodes := [0x5000 \<mapsto> bare_root]\<rparr>,
      irq := intr_init\<lparr>int_flag := True\<rparr>, status := status_init\<lparr>status_total := 64 * 1024 * 1024\<rparr>\<rparr>,
     sh = shell_init, frame = 0x2000\<rparr>"

lemma live_system_ok: "sys_inv (intr_init\<lparr>int_flag := True\<rparr>) live_system" "listening (intr_init\<lparr>int_flag := True\<rparr>)"
proof -
  have "\<exists>p. intr_init\<lparr>int_flag := True\<rparr> = intr_init\<lparr>int_flag := True, iports := p\<rparr>"
    by (rule exI [of _ "iports intr_init"]) simp
  then show "sys_inv (intr_init\<lparr>int_flag := True\<rparr>) live_system"
    using power_on_ok(4)
    by (simp add: sys_inv_def live_system_def shell_inv_init commands_ok_init booted_def
        fresh_fs_def fs_init_def power_on_def machine_init_def)
  show "listening (intr_init\<lparr>int_flag := True\<rparr>)"
    by (simp add: listening_def kbd_inv_def pending_def intr_init_def)
qed



text \<open>One turn of the loop, were interrupts on: the keys up to Enter give a line, and unless it is the
  fatal one the machine is halted by it, or the shell returns after \<^verbatim>\<open>exit\<close>, or it is back at the
  prompt in a good state with the rest of the keys.\<close>

theorem shell_loop_turn:
  assumes "sys_inv i s" and "listening i" and "length a = 128" and "0x1C \<notin> set scs"
  shows "if fatal (typed scs) (sh s) then shell_loop (scs @ 0x1C # rest) a s = None
    else (\<exists>s'. shell_loop (scs @ 0x1C # rest) a s = Some (Halted s', rest)) \<or>
      (\<exists>i' a' s'. listening i' \<and> sys_inv i' s' \<and> length a' = 128 \<and>
        shell_loop (scs @ 0x1C # rest) a s =
          (if typed scs = ''exit'' then Some (Running s', rest) else shell_loop rest a' s'))"
proof -
  have "\<forall>sc \<in> set scs. sc \<noteq> 0x1C" using assms(4) by auto
  from shell_loop_line [OF assms(1-3) this, of rest] show ?thesis by simp
qed

lemma typed_exit: "typed [0x12, 0x2D, 0x17, 0x14] = ''exit''"
  by (simp add: typed_def key_of_def scancode_to_ascii_def List.map_filter_def edited_def schar_def)

lemma shell_loop_turn_witness:
  "\<exists>r. shell_loop ([0x12, 0x2D, 0x17, 0x14] @ 0x1C # []) (replicate 128 NUL) live_system = Some (r, [])"
proof -
  have "tokens blanks (unwords [''exit'']) = [''exit'']" by (rule tokens_unwords) (simp add: is_word_def)
  then have "command_words ''exit'' (sh live_system) = [''exit'']"
    by (simp add: command_words_def live_system_def alias_list_def shell_init_def)
  then have "\<not> fatal (typed [0x12, 0x2D, 0x17, 0x14]) (sh live_system)"
    by (simp add: fatal_def calc_traps_def typed_exit)
  then show ?thesis
    using shell_loop_turn [OF live_system_ok, of "replicate 128 NUL" "[0x12, 0x2D, 0x17, 0x14]" "[]"]
    by (auto simp: typed_exit)
qed

text \<open>The steps from one prompt to the next, as a relation.\<close>

inductive next_prompt :: "u8 list \<times> byte list \<times> sys \<Rightarrow> u8 list \<times> byte list \<times> sys \<Rightarrow> bool" where
  command: "show_prompt s = Some s1 \<Longrightarrow> arr_set a 0 NUL = Some b \<Longrightarrow>
    read_line scs s1 \<lparr>input = b, position = 0\<rparr> = Some (s2, l, rest) \<Longrightarrow> arr_cstr (input l) = Some cmd \<Longrightarrow>
    execute_command cmd s2 = Some (Running s3) \<Longrightarrow> strcmp_spec cmd ''exit'' \<noteq> 0 \<Longrightarrow>
    next_prompt (scs, a, s) (rest, input l, set_current_history (- 1) s3)"

inductive_cases next_promptE: "next_prompt (scs, a, s) c"

text \<open>Sequences of turns.\<close>

inductive prompts :: "u8 list \<times> byte list \<times> sys \<Rightarrow> u8 list \<times> byte list \<times> sys \<Rightarrow> bool" for c where
  here: "prompts c c"
| turn: "prompts c d \<Longrightarrow> next_prompt d e \<Longrightarrow> prompts c e"

definition prompt_ok :: "u8 list \<times> byte list \<times> sys \<Rightarrow> bool" where
  "prompt_ok c \<longleftrightarrow> (case c of (scs, a, s) \<Rightarrow> length a = 128 \<and> (\<exists>i. sys_inv i s \<and> listening i))"

lemma next_prompt_loop: "next_prompt (scs, a, s) (scs', a', s') \<Longrightarrow> shell_loop scs a s = shell_loop scs' a' s'"
  by (erule next_promptE, subst shell_loop.simps) simp

lemma next_prompt_ok:
  assumes "next_prompt (scs, a, s) d" and "prompt_ok (scs, a, s)"
  shows "prompt_ok d"
proof -
  obtain i where i: "sys_inv i s" "listening i" "length a = 128" using assms(2) by (auto simp: prompt_ok_def)
  from assms(1) obtain s1 b s2 l rest cmd s3 where n: "d = (rest, input l, set_current_history (- 1) s3)"
    "show_prompt s = Some s1" "arr_set a 0 NUL = Some b"
    "read_line scs s1 \<lparr>input = b, position = 0\<rparr> = Some (s2, l, rest)" "arr_cstr (input l) = Some cmd"
    "execute_command cmd s2 = Some (Running s3)" by (rule next_promptE)
  have b: "b = a[0 := NUL]" using n(3) cleared_line [OF i(3)] by simp
  have "0x1C \<in> set scs"
  proof (rule ccontr)
    assume "0x1C \<notin> set scs"
    then have no: "\<forall>sc \<in> set scs. sc \<noteq> 0x1C" by auto
    obtain t where "show_prompt s = Some t" "read_line scs t \<lparr>input = a[0 := NUL], position = 0\<rparr> = None"
      by (rule prompt_read [OF i, where scs = scs and rest = "[]"]) (use no in blast)
    then show False using n(2,4) b by simp
  qed
  then obtain pre post where scs: "scs = pre @ 0x1C # post" "0x1C \<notin> set pre" by (meson split_list_first)
  then have pre: "\<forall>sc \<in> set pre. sc \<noteq> 0x1C" by auto
  obtain t where t: "show_prompt s = Some t" "\<exists>u l' i'.
      read_line (pre @ 0x1C # post) t \<lparr>input = a[0 := NUL], position = 0\<rparr> = Some (u, l', post) \<and>
      sys_inv i' u \<and> listening i' \<and> (\<exists>k. sh u = (sh s)\<lparr>current_history := k\<rparr>) \<and> line_inv l' \<and> line_text l' = typed pre"
    by (rule prompt_read [OF i, where scs = pre and rest = post]) (use pre in simp)
  then obtain i' where r: "sys_inv i' s2" "listening i'" "line_inv l" "line_text l = typed pre"
    using n(2,4) b scs(1) by auto
  have cmd: "cmd = typed pre" using line_cstr [OF r(3)] r(4) n(5) by simp
  note short = typed_short [OF r(3,4)]
  have "sys_inv i' s3"
    using execute_command_ok [OF r(1), of cmd] execute_command_fatal [OF r(1), of cmd] short n(6)
    by (auto simp: cmd succeeds_def)
  then have "sys_inv i' (set_current_history (- 1) s3)" by (rule sys_inv_current) simp_all
  moreover have "length (input l) = 128" using line_position [OF r(3)] by simp
  ultimately show ?thesis using n(1) r(2) by (auto simp: prompt_ok_def)
qed

text \<open>C11: Every prompt reached from a good one, by any number of commands, finds the tables, the file system and
  the buffers in order, and the loop there goes on exactly as it would from the first.\<close>

theorem session_invariant:
  assumes "prompts (scs, a, s) (scs', a', s')" and "prompt_ok (scs, a, s)"
  shows "prompt_ok (scs', a', s') \<and> shell_loop scs a s = shell_loop scs' a' s'"
proof -
  have "prompts c d \<Longrightarrow> prompt_ok c \<Longrightarrow> prompt_ok d \<and>
    (case (c, d) of ((scs, a, s), (scs', a', s')) \<Rightarrow> shell_loop scs a s = shell_loop scs' a' s')" for c d
  proof (induction rule: prompts.induct)
    case here
    then show ?case by (cases c) simp
  next
    case (turn d e)
    obtain scs a s scs' a' s' where de: "d = (scs, a, s)" "e = (scs', a', s')" by (cases d, cases e)
    have "prompt_ok e" "shell_loop scs a s = shell_loop scs' a' s'"
      using turn next_prompt_ok [of scs a s e] next_prompt_loop [of scs a s scs' a' s'] de by auto
    then show ?case using turn de by (cases c) simp
  qed
  from this [OF assms] show ?thesis by simp
qed

lemma empty_turn: "\<exists>a s'. next_prompt ([0x1C, 0x1C], replicate 128 NUL, live_system) ([0x1C], a, s')"
proof -
  have "length (replicate 128 NUL) = 128" by simp
  note p = prompt_read [OF live_system_ok this, of "[]" "[0x1C]"]
  obtain s1 s2 l where r: "show_prompt live_system = Some s1"
    "read_line [0x1C, 0x1C] s1 \<lparr>input = (replicate 128 NUL)[0 := NUL], position = 0\<rparr> = Some (s2, l, [0x1C])"
    "line_inv l" "line_text l = typed []" by (rule p) auto
  have "arr_cstr (input l) = Some []" using line_cstr [OF r(3)] r(4) by (simp add: typed_def List.map_filter_def)
  moreover have "execute_command [] s2 = Some (Running s2)" by (simp add: execute_command_def)
  moreover have "arr_set (replicate 128 NUL) 0 NUL = Some ((replicate 128 NUL)[0 := NUL])" by (simp add: arr_set_def)
  moreover have "strcmp_spec [] ''exit'' \<noteq> 0" by (simp add: strcmp_spec_eq_0)
  ultimately have "next_prompt ([0x1C, 0x1C], replicate 128 NUL, live_system) ([0x1C], input l, set_current_history (- 1) s2)"
    using r(1,2) next_prompt.command by blast
  then show ?thesis by blast
qed

lemma session_invariant_witness:
  "\<exists>a s. prompt_ok ([0x1C], a, s) \<and>
    shell_loop [0x1C, 0x1C] (replicate 128 NUL) live_system = shell_loop [0x1C] a s"
proof -
  obtain a s' where "prompts ([0x1C, 0x1C], replicate 128 NUL, live_system) ([0x1C], a, s')"
    using empty_turn prompts.intros by blast
  moreover have "prompt_ok ([0x1C, 0x1C], replicate 128 NUL, live_system)"
    using live_system_ok by (auto simp: prompt_ok_def)
  ultimately show ?thesis using session_invariant by blast
qed

text \<open>C34: What the shell can still do with files in the running system: nothing. No path but the root itself can
  be opened, so \<^verbatim>\<open>touch\<close>, \<^verbatim>\<open>cat\<close> and \<^verbatim>\<open>write\<close> report an error and change nothing but the screen;
  \<^verbatim>\<open>cd\<close> fails even for the root; \<^verbatim>\<open>ls\<close> prints its heading and no entry.\<close>

theorem shell_files_unreachable:
  assumes "sys_inv i s" and "path \<noteq> ''/''"
  shows "cmd_touch [''touch'', path] s = Some (Return (write_sys (''Error: Could not create file '' @ ln path) s)) \<and>
    cmd_cat [''cat'', path] s = Some (Return (write_sys (''Error: Could not open file '' @ ln path) s)) \<and>
    cmd_write (''write'' # path # w # ws) s = Some (Return (write_sys (''Error: Could not open file '' @ ln path) s)) \<and>
    cmd_ls s = Some (Fall (write_sys (ln ''Contents of /'') s)) \<and>
    (\<exists>s'. cmd_cd [''cd'', ''/''] s = Some s' \<and> last_exit_code (sh s') = 1 \<and> current_directory (sh s') = current_directory (sh s))"
proof -
  have o: "sys_fs (open_fd path flags) s = Some (- 1, s)" for flags
    using open_root [OF assms(1), of path flags] assms(2) by simp
  have "sys_fs (vfs_finddir (fs_root (fs (mach s))) ''/'') s = Some (NULL, s)"
    using booted_finddir [OF sys_inv_booted [OF assms(1)]] by (rule sys_fs_same)
  moreover obtain s1 where "print_error ''No such directory: '' s = Some s1" "screen_only s s1"
    using print_total(2) by blast
  ultimately have "\<exists>s'. cmd_cd [''cd'', ''/''] s = Some s' \<and> last_exit_code (sh s') = 1 \<and>
      current_directory (sh s') = current_directory (sh s)"
    using screen_only_simps(1) [of s s1]
    by (simp add: cmd_cd_def Let_def put_str_render ln_def set_exit_def)
  then show ?thesis using o ls_run [OF assms(1)]
    by (simp add: cmd_touch_def cmd_cat_def cmd_write_def put_str_render ln_def)
qed

lemma shell_files_unreachable_witness:
  "cmd_touch [''touch'', ''a''] live_system = Some (Return (write_sys (''Error: Could not create file '' @ ln ''a'') live_system)) \<and>
   cmd_ls live_system = Some (Fall (write_sys (ln ''Contents of /'') live_system))"
  using shell_files_unreachable [OF live_system_ok(1), of "''a''"] by simp

lemma greeting_defines_aliases_witness:
  "\<exists>s'. shell_greeting live_system = Some s' \<and> resolve_alias ''cls'' (sh s') = Some (Some ''clear'')"
  using greeting_defines_aliases [OF live_system_ok(1), of "''cls''"]
  by (auto simp: live_system_def shell_init_def)

end
