(* ===== verification/CommandProps.thy ===== *)
theory CommandProps
  imports SystemProps ShellProps
begin

text \<open>
  Commands as they are typed, from the line to their effect: \<^verbatim>\<open>echo\<close> and \<^verbatim>\<open>alias\<close> through
  \<^verbatim>\<open>execute_command\<close> as a whole, with history, parser, alias table and dispatch.
\<close>

lemma command_line:
  assumes "sys_inv i s" and "\<forall>w \<in> set (w0 # ws). is_word w" and "length (unwords (w0 # ws)) \<le> 126" and "length ws < 15"
  obtains h hs p where "add_to_history (unwords (w0 # ws)) (sh s) = Some h"
    and "h = (sh s)\<lparr>history := hs, history_pos := p\<rparr>" and "shell_inv h"
    and "execute_command (unwords (w0 # ws)) s = run_words
      (case map_of (alias_list (sh s)) w0 of None \<Rightarrow> w0 # ws | Some c \<Rightarrow> take 15 (tokens blanks c)) (s\<lparr>sh := h\<rparr>)"
proof -
  have inv: "shell_inv (sh s)" "commands_ok (sh s)" using assms(1) by (simp_all add: sys_inv_def)
  have t: "tokens blanks (unwords (w0 # ws)) = w0 # ws" by (rule tokens_unwords [OF assms(2)])
  then have "unwords (w0 # ws) \<noteq> []" by (auto simp: tokens_Nil)
  from execute_command_words [OF inv unwords_no_NUL [OF assms(2)] assms(3) this] obtain h hs p where
    h: "add_to_history (unwords (w0 # ws)) (sh s) = Some h" "h = (sh s)\<lparr>history := hs, history_pos := p\<rparr>" "shell_inv h"
      "execute_command (unwords (w0 # ws)) s = run_words (command_words (unwords (w0 # ws)) (sh s)) (s\<lparr>sh := h\<rparr>)"
    by blast
  have all: "take 15 (w0 # ws) = w0 # ws" using assms(4) by simp
  show thesis
    by (rule that [OF h(1-3)]) (simp only: h(4) command_words_def t all list.case)
qed

lemma is_command: "is_word w \<Longrightarrow> NUL \<notin> set name \<Longrightarrow> strcmp_spec w name = 0 \<longleftrightarrow> w = name"
  by (rule strcmp_spec_eq_0) (auto simp: is_word_def)

lemma write_sys_fields [simp]:
  "sh (write_sys str s) = sh s" "screen (mach (write_sys str s)) = terminal_writestring str (screen (mach s))"
  by (simp_all add: write_sys_def)

section \<open>echo\<close>

lemma echo_loop_text: "ws \<noteq> [] \<Longrightarrow> echo_loop ws s = Some (write_sys (unwords ws) s)"
proof (induction ws arbitrary: s)
  case (Cons w ws)
  show ?case
  proof (cases ws)
    case Nil
    then show ?thesis by (simp add: put_str_render)
  next
    case (Cons v vs)
    then have "echo_loop (w # ws) s = echo_loop ws (write_sys '' '' (write_sys w s))"
      by (simp add: put_str_render)
    also have "\<dots> = Some (write_sys (unwords (w # ws)) s)"
      using Cons.IH Cons by (simp add: write_sys_write)
    finally show ?thesis .
  qed
qed simp

text \<open>C24: Typing \<^verbatim>\<open>echo\<close> and some words prints the words, with one blank between two of them, and a new line; the
  line becomes the newest of the history and nothing else of the shell changes.\<close>

theorem echo_command:
  assumes "sys_inv i s" and "\<forall>w \<in> set ws. is_word w" and "ws \<noteq> []" and "length ws < 15"
    and "length (unwords (''echo'' # ws)) \<le> 126" and "resolve_alias ''echo'' (sh s) = Some None" and "\<not> debug_mode (sh s)"
  shows "\<exists>s' h. execute_command (unwords (''echo'' # ws)) s = Some (Running s') \<and>
    screen (mach s') = terminal_writestring (unwords ws @ [CHR 0x0A]) (screen (mach s)) \<and>
    add_to_history (unwords (''echo'' # ws)) (sh s) = Some h \<and> sh s' = h\<lparr>last_exit_code := 0\<rparr>"
proof -
  have "NUL \<notin> set ''echo''" by simp
  then have none: "map_of (alias_list (sh s)) ''echo'' = None"
    using resolve_alias_map [of "sh s" "''echo''"] assms(1,6) by (simp add: sys_inv_def)
  have w: "\<forall>w \<in> set (''echo'' # ws). is_word w" using assms(2) by (simp add: is_word_def)
  obtain h hs p where h: "add_to_history (unwords (''echo'' # ws)) (sh s) = Some h"
    "h = (sh s)\<lparr>history := hs, history_pos := p\<rparr>"
    "execute_command (unwords (''echo'' # ws)) s = run_words (''echo'' # ws) (s\<lparr>sh := h\<rparr>)"
    by (rule command_line [OF assms(1) w assms(5,4), unfolded none option.case])
  let ?s = "set_exit 0 (s\<lparr>sh := h\<rparr>)"
  have "echo_test (''echo'' # ws) ?s = Some (write_sys (unwords ws @ [CHR 0x0A]) ?s)"
    using assms(3) echo_loop_text [OF assms(3)]
    by (cases ws) (simp_all add: echo_test_def put_str_render ln_def write_sys_write)
  then have "dispatch (''echo'' # ws) ?s = Some (Fall (write_sys (unwords ws @ [CHR 0x0A]) ?s))"
    by (simp add: dispatch_def falls_def strcmp_spec_eq_0)
  then show ?thesis using h assms(7)
    by (simp add: run_words_def debug_report_def set_exit_def)
qed

lemma no_alias_live: "alias_list (sh live_system) = []" "\<not> debug_mode (sh live_system)" "alias_count (sh live_system) = 0"
  by (simp_all add: live_system_def alias_list_def shell_init_def)

lemma echo_command_witness:
  "\<exists>s'. execute_command ''echo hi there'' live_system = Some (Running s') \<and>
    screen (mach s') = terminal_writestring (''hi there'' @ [CHR 0x0A]) (screen (mach live_system))"
proof -
  have "resolve_alias ''echo'' (sh live_system) = Some None"
    using resolve_alias_map [of "sh live_system" "''echo''"] live_system_ok(1) no_alias_live(1) by (simp add: sys_inv_def)
  then show ?thesis
    using echo_command [OF live_system_ok(1), of "[''hi'', ''there'']"] no_alias_live(2) by (auto simp: is_word_def)
qed

section \<open>alias\<close>

text \<open>A line that starts with an alias runs the alias's command.\<close>

lemma alias_used:
  assumes "sys_inv i s" and "map_of (alias_list (sh s)) nm = Some cmd" and "is_word nm" and "is_word cmd"
    and xs: "(\<forall>x \<in> set xs. is_word x) \<and> length xs < 15 \<and> length (unwords (nm # xs)) \<le> 126"
  shows "\<exists>h. add_to_history (unwords (nm # xs)) (sh s) = Some h \<and>
    execute_command (unwords (nm # xs)) s = run_words [cmd] (s\<lparr>sh := h\<rparr>)"
proof -
  have "tokens blanks (unwords [cmd]) = [cmd]" by (rule tokens_unwords) (simp add: assms(4))
  then have one: "take 15 (tokens blanks cmd) = [cmd]" by simp
  have "\<forall>x \<in> set (nm # xs). is_word x" using xs assms(3) by simp
  note line = command_line [OF assms(1) this, unfolded assms(2) option.case one]
  obtain h where
    "add_to_history (unwords (nm # xs)) (sh s) = Some h"
    "execute_command (unwords (nm # xs)) s = run_words [cmd] (s\<lparr>sh := h\<rparr>)"
    by (rule line) (use xs in simp_all)
  then show ?thesis by blast
qed

text \<open>C25: Typing \<^verbatim>\<open>alias\<close> with a name and a command, the table not being full, makes every later line that starts
  with the name run the command; further words of such a line are dropped, and the command is not looked
  up as an alias again.\<close>

theorem alias_command:
  assumes "sys_inv i s" and "is_word nm" and "is_word cmd" and "length nm < 32"
    and "length (unwords [''alias'', nm, cmd]) \<le> 126" and "resolve_alias ''alias'' (sh s) = Some None"
    and "alias_count (sh s) < 20"
  shows "\<exists>s'. execute_command (unwords [''alias'', nm, cmd]) s = Some (Running s') \<and> sys_inv i s' \<and>
    (\<forall>xs. (\<forall>x \<in> set xs. is_word x) \<and> length xs < 15 \<and> length (unwords (nm # xs)) \<le> 126 \<longrightarrow>
      (\<exists>h. add_to_history (unwords (nm # xs)) (sh s') = Some h \<and>
        execute_command (unwords (nm # xs)) s' = run_words [cmd] (s'\<lparr>sh := h\<rparr>)))"
proof -
  have "NUL \<notin> set ''alias''" by simp
  then have none: "map_of (alias_list (sh s)) ''alias'' = None"
    using resolve_alias_map [of "sh s" "''alias''"] assms(1,6) by (simp add: sys_inv_def)
  let ?ws = "[''alias'', nm, cmd]"
  have w: "\<forall>w \<in> set ?ws. is_word w" using assms(2,3) by (simp add: is_word_def)
  have few: "length [nm, cmd] < 15" by simp
  obtain h hs p where h: "h = (sh s)\<lparr>history := hs, history_pos := p\<rparr>" "shell_inv h"
    "execute_command (unwords ?ws) s = run_words ?ws (s\<lparr>sh := h\<rparr>)"
    by (rule command_line [OF assms(1) w assms(5) few, unfolded none option.case])
  have n: "NUL \<notin> set nm" "NUL \<notin> set cmd" "length cmd < 128" using assms(2,3,5) by (auto simp: is_word_def)
  let ?s = "set_exit 0 (s\<lparr>sh := h\<rparr>)"
  have "shell_inv (sh ?s)" "alias_count (sh ?s) < 20"
    using h(1,2) assms(7) by (simp_all add: set_exit_def shell_inv_def)
  from add_alias_map [OF this n(1) assms(4) n(2,3)] obtain s1 where
    s1: "add_alias nm cmd ?s = Some s1" "map_of (alias_list (sh s1)) = (map_of (alias_list (sh ?s)))(nm \<mapsto> cmd)" by blast
  have "\<exists>s2. debug_report ?ws s1 = Some s2" by (simp add: debug_report_def put_str_render ln_def)
  then obtain s2 where s2: "debug_report ?ws s1 = Some s2" by blast
  then have only: "screen_only s1 s2" using put_str_screen by (auto simp: debug_report_def split: if_splits)
  have run: "execute_command (unwords ?ws) s = Some (Running s2)"
    using h(3) s1(1) s2
    by (simp add: run_words_def dispatch_def falls_def strcmp_spec_eq_0 cmd_alias_def)
  have "command_words (unwords ?ws) (sh s) = ?ws"
    using tokens_unwords [OF w] none by (simp add: command_words_def)
  then have ok: "sys_inv i s2"
    using execute_command_ok [OF assms(1) unwords_no_NUL [OF w] assms(5)] run
    by (simp add: succeeds_def calc_traps_def)
  have cmd: "map_of (alias_list (sh s2)) nm = Some cmd"
    using s1(2) screen_only_simps(1) [OF only] by simp
  show ?thesis using run ok alias_used [OF ok cmd assms(2,3)] by blast
qed

lemma alias_command_witness:
  "\<exists>s' h. execute_command ''alias q help'' live_system = Some (Running s') \<and>
    execute_command ''q a b'' s' = run_words [''help''] (s'\<lparr>sh := h\<rparr>)"
proof -
  have "resolve_alias ''alias'' (sh live_system) = Some None"
    using resolve_alias_map [of "sh live_system" "''alias''"] live_system_ok(1) no_alias_live(1) by (simp add: sys_inv_def)
  moreover have "is_word ''q''" "is_word ''help''" by (simp_all add: is_word_def)
  moreover have "alias_count (sh live_system) < 20" using no_alias_live(3) by simp
  ultimately obtain s' where s': "execute_command (unwords [''alias'', ''q'', ''help'']) live_system = Some (Running s')"
    "\<forall>xs. (\<forall>x \<in> set xs. is_word x) \<and> length xs < 15 \<and> length (unwords (''q'' # xs)) \<le> 126 \<longrightarrow>
      (\<exists>h. add_to_history (unwords (''q'' # xs)) (sh s') = Some h \<and>
        execute_command (unwords (''q'' # xs)) s' = run_words [''help''] (s'\<lparr>sh := h\<rparr>))"
    using alias_command [OF live_system_ok(1), of "''q''" "''help''"] by auto
  from s'(2) [THEN spec, of "[''a'', ''b'']"] s'(1) show ?thesis by (auto simp: is_word_def)
qed

end
