(* ===== verification/KeyRace.thy ===== *)
theory KeyRace
  imports Interrupts
begin

text \<open>
  \<^verbatim>\<open>keyboard_getchar\<close> of \<^verbatim>\<open>kernel/interrupts.c\<close> with the keyboard interrupt arriving anywhere in it. The
  code runs with interrupts open and shares \<^verbatim>\<open>key_buffer\<close> and \<^verbatim>\<open>key_buffer_pos\<close> with the handler. The steps
  are those of the unoptimised code, as far as they touch the shared variables: \<^verbatim>\<open>key_buffer_pos--\<close> is
  a load and a store. A copy inside the loop is one step, for no handler writes to the two places it
  touches. At each program point an assertion is stated that both the code and the handler keep.
\<close>

section \<open>Steps\<close>

datatype place = Poll | Sleep | Asleep | Fetch | Test | Shift | Load | Store | Returned

record getchar_frame =
  place :: place
  loop_i :: int
  loaded :: int
  result :: byte

definition getchar_entry :: getchar_frame where
  "getchar_entry = \<lparr>place = Poll, loop_i = 0, loaded = 0, result = NUL\<rparr>"

definition shift_one :: "int \<Rightarrow> intr \<Rightarrow> intr" where
  "shift_one i s = s\<lparr>key_buffer := (key_buffer s)[nat i := key_buffer s ! nat (i + 1)]\<rparr>"

text \<open>One step of the code. Asleep, after \<^verbatim>\<open>hlt\<close>, it has none.\<close>

definition getchar_step :: "getchar_frame \<Rightarrow> intr \<Rightarrow> (getchar_frame \<times> intr) option" where
  "getchar_step f s =
     (case place f of
        Poll \<Rightarrow> Some (f\<lparr>place := if key_buffer_pos s = 0 then Sleep else Fetch\<rparr>, s)
      | Sleep \<Rightarrow> Some (f\<lparr>place := Asleep\<rparr>, s)
      | Asleep \<Rightarrow> None
      | Fetch \<Rightarrow> Some (f\<lparr>place := Test, result := key_buffer s ! 0, loop_i := 0\<rparr>, s)
      | Test \<Rightarrow> Some (f\<lparr>place := if loop_i f < key_buffer_pos s - 1 then Shift else Load\<rparr>, s)
      | Shift \<Rightarrow> Some (f\<lparr>place := Test, loop_i := loop_i f + 1\<rparr>, shift_one (loop_i f) s)
      | Load \<Rightarrow> Some (f\<lparr>place := Store, loaded := key_buffer_pos s\<rparr>, s)
      | Store \<Rightarrow> Some (f\<lparr>place := Returned\<rparr>, s\<lparr>key_buffer_pos := loaded f - 1\<rparr>)
      | Returned \<Rightarrow> None)"

text \<open>An interrupt runs the handler, and ends a \<^verbatim>\<open>hlt\<close>.\<close>

definition wake :: "getchar_frame \<Rightarrow> getchar_frame" where
  "wake f = (if place f = Asleep then f\<lparr>place := Poll\<rparr> else f)"

text \<open>The runs of one call from a state, with the scancodes that came before the loop was left, between
  that and the load, and between the load and the store.\<close>

inductive interleaved ::
  "intr \<Rightarrow> u8 list \<Rightarrow> u8 list \<Rightarrow> u8 list \<Rightarrow> getchar_frame \<Rightarrow> intr \<Rightarrow> bool" for s0 where
  enter: "interleaved s0 [] [] [] getchar_entry s0"
| code: "interleaved s0 as bs cs f s \<Longrightarrow> getchar_step f s = Some (f', s') \<Longrightarrow> interleaved s0 as bs cs f' s'"
| early: "interleaved s0 as bs cs f s \<Longrightarrow> int_flag s \<Longrightarrow> place f \<notin> {Load, Store, Returned} \<Longrightarrow>
    interleaved s0 (as @ [sc]) bs cs (wake f) (keyboard_handler_internal sc s)"
| between: "interleaved s0 as bs cs f s \<Longrightarrow> int_flag s \<Longrightarrow> place f = Load \<Longrightarrow>
    interleaved s0 as (bs @ [sc]) cs f (keyboard_handler_internal sc s)"
| late: "interleaved s0 as bs cs f s \<Longrightarrow> int_flag s \<Longrightarrow> place f = Store \<Longrightarrow>
    interleaved s0 as bs (cs @ [sc]) f (keyboard_handler_internal sc s)"

section \<open>The assertion of each place\<close>

definition keys :: "u8 list \<Rightarrow> intr \<Rightarrow> intr" where
  "keys scs s = fold keyboard_handler_internal scs s"

lemma keys_simps [simp]: "keys [] s = s" "keys (scs @ [sc]) s = keyboard_handler_internal sc (keys scs s)"
  by (simp_all add: keys_def)

definition shifted :: "nat \<Rightarrow> intr \<Rightarrow> intr" where
  "shifted n s = fold (\<lambda>i. shift_one (int i)) [0..<n] s"

lemma shifted_simps [simp]: "shifted 0 s = s" "shifted (Suc n) s = shift_one (int n) (shifted n s)"
  by (simp_all add: shifted_def)

lemma shift_one_frame [simp]:
  "key_buffer_pos (shift_one i s) = key_buffer_pos s" "int_flag (shift_one i s) = int_flag s"
  "length (key_buffer (shift_one i s)) = length (key_buffer s)"
  by (simp_all add: shift_one_def)

lemma shifted_frame [simp]:
  "key_buffer_pos (shifted n s) = key_buffer_pos s" "int_flag (shifted n s) = int_flag s"
  "length (key_buffer (shifted n s)) = length (key_buffer s)"
  by (induction n) simp_all

lemma shifted_buffer: "shifted n s = s\<lparr>key_buffer := fold (\<lambda>i b. b[i := b ! (i + 1)]) [0..<n] (key_buffer s)\<rparr>"
  by (induction n) (simp_all add: shift_one_def nat_add_distrib)

text \<open>The handler writes at the end of the queue, the loop below it.\<close>

lemma handler_shift_one:
  assumes "0 \<le> i" and "i + 1 < key_buffer_pos s"
  shows "keyboard_handler_internal sc (shift_one i s) = shift_one i (keyboard_handler_internal sc s)"
proof -
  have "nat i \<noteq> nat (key_buffer_pos s)" "nat (i + 1) \<noteq> nat (key_buffer_pos s)" using assms by simp_all
  then show ?thesis
    by (simp add: keyboard_handler_internal_def shift_one_def Let_def list_update_swap)
qed

lemma handler_pos_mono: "key_buffer_pos s \<le> key_buffer_pos (keyboard_handler_internal sc s)"
  by (simp add: keyboard_handler_internal_def Let_def)

lemma handler_shifted:
  "int n < key_buffer_pos s \<Longrightarrow>
   keyboard_handler_internal sc (shifted n s) = shifted n (keyboard_handler_internal sc s)"
  by (induction n) (simp_all add: handler_shift_one)

lemma handler_front: "0 < key_buffer_pos s \<Longrightarrow> key_buffer (keyboard_handler_internal sc s) ! 0 = key_buffer s ! 0"
  by (simp add: keyboard_handler_internal_def Let_def)

definition place_inv :: "intr \<Rightarrow> u8 list \<Rightarrow> u8 list \<Rightarrow> u8 list \<Rightarrow> getchar_frame \<Rightarrow> intr \<Rightarrow> bool" where
  "place_inv s0 as bs cs f s \<longleftrightarrow>
     (let t = keys as s0;
          looping = (0 < key_buffer_pos t \<and> result f = key_buffer t ! 0);
          left_loop = shifted (nat (key_buffer_pos t - 1)) t;
          u = keys bs left_loop in
      case place f of
        Poll \<Rightarrow> bs = [] \<and> cs = [] \<and> s = t
      | Sleep \<Rightarrow> bs = [] \<and> cs = [] \<and> s = t
      | Asleep \<Rightarrow> bs = [] \<and> cs = [] \<and> s = t
      | Fetch \<Rightarrow> bs = [] \<and> cs = [] \<and> s = t \<and> 0 < key_buffer_pos t
      | Test \<Rightarrow> bs = [] \<and> cs = [] \<and> looping \<and> 0 \<le> loop_i f \<and> loop_i f < key_buffer_pos t \<and>
          s = shifted (nat (loop_i f)) t
      | Shift \<Rightarrow> bs = [] \<and> cs = [] \<and> looping \<and> 0 \<le> loop_i f \<and> loop_i f + 1 < key_buffer_pos t \<and>
          s = shifted (nat (loop_i f)) t
      | Load \<Rightarrow> cs = [] \<and> looping \<and> s = u
      | Store \<Rightarrow> looping \<and> loaded f = key_buffer_pos u \<and> s = keys cs u
      | Returned \<Rightarrow> looping \<and> s = (keys cs u)\<lparr>key_buffer_pos := key_buffer_pos u - 1\<rparr>)"

lemma kbd_inv_keys: "kbd_inv s \<Longrightarrow> kbd_inv (keys scs s)"
  unfolding keys_def by (rule kb.inv_enq_many)

lemma step_place_inv:
  assumes "getchar_step f s = Some (f', s')" and "place_inv s0 as bs cs f s" and "kbd_inv s0"
  shows "place_inv s0 as bs cs f' s'"
proof -
  have "0 \<le> key_buffer_pos (keys as s0)" using kbd_inv_keys [OF assms(3)] by (simp add: kbd_inv_def)
  moreover have "nat (loop_i f) = nat (key_buffer_pos (keys as s0) - 1)"
    if "loop_i f < key_buffer_pos (keys as s0)" "\<not> loop_i f < key_buffer_pos (keys as s0) - 1"
    using that by simp
  ultimately show ?thesis using assms(1,2)
    by (cases "place f")
      (simp_all add: getchar_step_def place_inv_def Let_def split: if_splits, auto simp: nat_add_distrib)
qed

lemma irq_place_inv:
  assumes "place_inv s0 as bs cs f s" and "kbd_inv s0"
  shows "place f \<notin> {Load, Store, Returned} \<Longrightarrow>
      place_inv s0 (as @ [sc]) bs cs (wake f) (keyboard_handler_internal sc s)"
    and "place f = Load \<Longrightarrow> place_inv s0 as (bs @ [sc]) cs f (keyboard_handler_internal sc s)"
    and "place f = Store \<Longrightarrow> place_inv s0 as bs (cs @ [sc]) f (keyboard_handler_internal sc s)"
proof -
  note m = handler_pos_mono [of "keys as s0" sc]
  show "place f \<notin> {Load, Store, Returned} \<Longrightarrow>
      place_inv s0 (as @ [sc]) bs cs (wake f) (keyboard_handler_internal sc s)"
    using assms(1) m
    by (cases "place f") (auto simp: place_inv_def wake_def Let_def handler_shifted handler_front)
  show "place f = Load \<Longrightarrow> place_inv s0 as (bs @ [sc]) cs f (keyboard_handler_internal sc s)"
    using assms(1) by (auto simp: place_inv_def Let_def)
  show "place f = Store \<Longrightarrow> place_inv s0 as bs (cs @ [sc]) f (keyboard_handler_internal sc s)"
    using assms(1) by (auto simp: place_inv_def Let_def)
qed

lemma interleaved_place_inv: "interleaved s0 as bs cs f s \<Longrightarrow> kbd_inv s0 \<Longrightarrow> place_inv s0 as bs cs f s"
proof (induction rule: interleaved.induct)
  case enter
  then show ?case by (simp add: place_inv_def getchar_entry_def)
qed (simp_all add: step_place_inv irq_place_inv)


section \<open>What a call returns\<close>

lemma kbd_inv_nat: "kbd_inv s \<Longrightarrow> nat (key_buffer_pos s) \<le> 255"
  by (simp add: kbd_inv_def nat_le_iff)

lemma pending_length: "kbd_inv s \<Longrightarrow> length (pending s) = nat (key_buffer_pos s)"
  using kbd_inv_nat [of s] by (simp add: pending_def kbd_inv_def)

lemma pending_shifted:
  assumes "kbd_inv t" and "0 < key_buffer_pos t"
  shows "kbd_inv (shifted (nat (key_buffer_pos t - 1)) t)"
    and "pending (shifted (nat (key_buffer_pos t - 1)) t) = tl (pending t) @ [last (pending t)]"
    and "(shifted (nat (key_buffer_pos t - 1)) t)\<lparr>key_buffer_pos := key_buffer_pos t - 1\<rparr> = snd (take_key t)"
proof -
  let ?b = "key_buffer t" and ?n = "nat (key_buffer_pos t - 1)"
  show "kbd_inv (shifted ?n t)" using assms(1) by (simp add: kbd_inv_def)
  have b: "key_buffer (shifted ?n t) = shift_keys (key_buffer_pos t) ?b"
    unfolding shifted_buffer by (simp add: shift_keys_def)
  then show "(shifted ?n t)\<lparr>key_buffer_pos := key_buffer_pos t - 1\<rparr> = snd (take_key t)"
    by (simp add: shifted_buffer take_key_def)
  have n: "nat (key_buffer_pos t) = Suc ?n" "Suc ?n \<le> length ?b"
    using assms kbd_inv_nat [OF assms(1)] by (simp_all add: kbd_inv_def)
  have "key_buffer (shifted ?n t) = take ?n (tl ?b) @ ?b ! ?n # drop (Suc ?n) ?b"
    using b shift_keys_eq [of "key_buffer_pos t" ?b] n assms by (simp add: kbd_inv_def Cons_nth_drop_Suc)
  moreover have "length (take ?n (tl ?b)) = ?n" using n by simp
  moreover have "take ?n (tl ?b) = tl (pending t)" using n by (simp add: pending_def tl_take)
  moreover have "last (pending t) = ?b ! ?n" using n by (simp add: pending_def take_Suc_conv_app_nth)
  ultimately show "pending (shifted ?n t) = tl (pending t) @ [last (pending t)]"
    using n by (simp add: pending_def)
qed

lemma pending_after:
  assumes "kbd_inv u" and "0 < key_buffer_pos u"
  shows "pending ((keys cs u)\<lparr>key_buffer_pos := key_buffer_pos u - 1\<rparr>) = butlast (pending u)"
proof -
  let ?w = "keys cs u" and ?p = "nat (key_buffer_pos u)"
  have len: "length (pending u) = ?p" "?p \<le> 255" using assms(1) by (simp_all add: pending_length kbd_inv_nat)
  have "pending ?w = take 255 (pending u @ List.map_filter key_of cs)"
    unfolding keys_def by (rule kb.items_enq_many) (use assms(1) len in simp_all)
  then have "take ?p (pending ?w) = pending u" using len by simp
  moreover have "take ?p (pending ?w) = take ?p (take (nat (key_buffer_pos ?w)) (key_buffer ?w))"
    by (simp add: pending_def)
  moreover have "?p \<le> nat (key_buffer_pos ?w)"
  proof (induction cs rule: rev_induct)
    case (snoc c cs)
    then show ?case using handler_pos_mono [of "keys cs u" c] by simp
  qed simp
  ultimately have "take ?p (key_buffer ?w) = pending u" by (simp add: min_def)
  moreover have "nat (key_buffer_pos u - 1) = ?p - 1" by simp
  moreover have "take (?p - 1) (key_buffer ?w) = take (?p - 1) (take ?p (key_buffer ?w))" by simp
  ultimately show ?thesis using len by (simp add: pending_def butlast_conv_take)
qed

lemma returned_pending:
  assumes "interleaved s0 as bs cs f s" and "place f = Returned" and "kbd_inv s0"
  shows "let q = pending (keys as s0) in q \<noteq> [] \<and> result f = hd q \<and>
    pending s = butlast (take 255 (tl q @ last q # List.map_filter key_of bs)) \<and>
    (bs = [] \<and> cs = [] \<longrightarrow> s = snd (take_key (keys as s0)))"
proof -
  let ?t = "keys as s0"
  let ?l = "shifted (nat (key_buffer_pos ?t - 1)) ?t"
  have r: "0 < key_buffer_pos ?t" "result f = key_buffer ?t ! 0"
    "s = (keys cs (keys bs ?l))\<lparr>key_buffer_pos := key_buffer_pos (keys bs ?l) - 1\<rparr>"
    using interleaved_place_inv [OF assms(1,3)] assms(2) by (simp_all add: place_inv_def Let_def)
  note t = kbd_inv_keys [OF assms(3), of as]
  note l = pending_shifted [OF t r(1)]
  have len: "length (pending ?l) \<le> 255" using pending_length [OF l(1)] kbd_inv_nat [OF l(1)] by simp
  from kb.items_enq_many [OF l(1) len, of bs, folded keys_def]
  have u: "pending (keys bs ?l) = take 255 (tl (pending ?t) @ last (pending ?t) # List.map_filter key_of bs)"
    by (simp only: l(2) append_assoc append.simps)
  have "length (pending ?l) > 0" by (simp add: l(2))
  then have "pending (keys bs ?l) \<noteq> []" using kb.items_enq_many [OF l(1) len, of bs, folded keys_def] by auto
  then have "0 < length (pending (keys bs ?l))" by (rule length_greater_0_conv [THEN iffD2])
  then have "0 < key_buffer_pos (keys bs ?l)"
    by (simp only: pending_length [OF kbd_inv_keys [OF l(1)]] zero_less_nat_eq)
  then have "pending s = butlast (pending (keys bs ?l))"
    using pending_after [OF kbd_inv_keys [OF l(1)]] r(3) by simp
  moreover have "pending ?t \<noteq> []" using pending_length [OF t] r(1) by auto
  moreover have "key_buffer ?t ! 0 = hd (pending ?t)"
    using r(1) t by (cases "key_buffer ?t") (auto simp: pending_def kbd_inv_def hd_take)
  ultimately show ?thesis using r l(3) u by (simp add: Let_def)
qed

section \<open>Progress\<close>

definition rank :: "getchar_frame \<Rightarrow> intr \<Rightarrow> nat" where
  "rank f s = (case place f of
     Poll \<Rightarrow> 2 * nat (key_buffer_pos s) + 10
   | Sleep \<Rightarrow> 0 | Asleep \<Rightarrow> 0
   | Fetch \<Rightarrow> 2 * nat (key_buffer_pos s) + 9
   | Test \<Rightarrow> 2 * nat (key_buffer_pos s - loop_i f) + 4
   | Shift \<Rightarrow> 2 * nat (key_buffer_pos s - loop_i f) + 3
   | Load \<Rightarrow> 2 | Store \<Rightarrow> 1 | Returned \<Rightarrow> 0)"

lemma step_rank:
  assumes "place_inv s0 as bs cs f s" and "place f \<notin> {Sleep, Asleep, Returned}"
    and "0 < key_buffer_pos (keys as s0)"
  obtains f' s' where "getchar_step f s = Some (f', s')" and "rank f' s' < rank f s"
    and "place f' \<notin> {Sleep, Asleep}" and "place f = Load \<longrightarrow> place f' = Store"
    and "place f = Store \<longrightarrow> place f' = Returned"
  using assms by (cases "place f") (auto simp: getchar_step_def rank_def place_inv_def Let_def)

text \<open>With a key in the buffer the code, left alone, comes to the end of its loop, and from there returns.\<close>

lemma reaches:
  assumes "interleaved s0 as bs cs f s" and "kbd_inv s0" and "pending (keys as s0) \<noteq> []"
    and "place f \<notin> {Sleep, Asleep}"
  shows "\<exists>f' s'. interleaved s0 as bs cs f' s' \<and> place f' = Returned"
    and "place f \<notin> {Store, Returned} \<Longrightarrow> \<exists>f' s'. interleaved s0 as bs cs f' s' \<and> place f' = Load"
proof -
  have pos: "0 < key_buffer_pos (keys as s0)" using assms(3) by (auto simp: pending_def)
  have "(\<exists>f' s'. interleaved s0 as bs cs f' s' \<and> place f' = Returned) \<and>
      (place f \<notin> {Store, Returned} \<longrightarrow> (\<exists>f' s'. interleaved s0 as bs cs f' s' \<and> place f' = Load))"
    using assms(1,4)
  proof (induction "rank f s" arbitrary: f s rule: less_induct)
    case less
    show ?case
    proof (cases "place f = Returned")
      case True
      then show ?thesis using less.prems by blast
    next
      case False
      then obtain f' s' where n: "getchar_step f s = Some (f', s')" "rank f' s' < rank f s"
        "place f' \<notin> {Sleep, Asleep}" "place f = Load \<longrightarrow> place f' = Store" "place f = Store \<longrightarrow> place f' = Returned"
        using step_rank [OF interleaved_place_inv [OF less.prems(1) assms(2)] _ pos] less.prems(2) by blast
      note i = interleaved.code [OF less.prems(1) n(1)]
      note ih = less.hyps [OF n(2) i n(3)]
      show ?thesis
      proof (cases "place f = Load")
        case True
        then show ?thesis using ih less.prems(1) by blast
      next
        case notload: False
        have "place f = Store" if "place f' = Returned \<or> place f' = Store"
          using n(1) that notload False by (cases "place f") (auto simp: getchar_step_def split: if_splits)
        then show ?thesis using ih by auto
      qed
    qed
  qed
  then show "\<exists>f' s'. interleaved s0 as bs cs f' s' \<and> place f' = Returned"
    and "place f \<notin> {Store, Returned} \<Longrightarrow> \<exists>f' s'. interleaved s0 as bs cs f' s' \<and> place f' = Load" by blast+
qed


section \<open>The atomic model is one of the runs\<close>

lemma poll_returns:
  assumes "interleaved s0 as [] [] f s" and "place f = Poll" and "key_buffer_pos s \<noteq> 0" and "kbd_inv s0"
  shows "\<exists>f'. interleaved s0 as [] [] f' (snd (take_key s)) \<and> place f' = Returned \<and> result f' = fst (take_key s)"
proof -
  have s: "s = keys as s0" "kbd_inv s"
    using interleaved_place_inv [OF assms(1,4)] assms(2) kbd_inv_keys [OF assms(4), of as]
    by (simp_all add: place_inv_def Let_def)
  then have "pending (keys as s0) \<noteq> []" using assms(3) pending_empty by metis
  then obtain f' s'' where r: "interleaved s0 as [] [] f' s''" "place f' = Returned"
    using reaches(1) [OF assms(1,4)] assms(2) by auto
  then show ?thesis
    using returned_pending [OF r assms(4)] take_key_pending(1) [OF s(2)] s(1) by (auto simp: Let_def)
qed

text \<open>\<open>keyboard_getchar\<close>, the model that the shell is built on, is the run in which interrupts come only while
  the code sleeps.\<close>

lemma keyboard_getchar_run:
  assumes "keyboard_getchar scs s = Some (c, s', rest)" and "interleaved s0 as [] [] f s" and "place f = Poll"
    and "kbd_inv s0"
  shows "\<exists>bs f'. scs = bs @ rest \<and> interleaved s0 (as @ bs) [] [] f' s' \<and> place f' = Returned \<and> result f' = c"
  using assms(1-3)
proof (induction scs arbitrary: as f s)
  case Nil
  then show ?case using poll_returns [OF Nil.prems(2,3)] assms(4) by (auto split: if_splits prod.splits)
next
  case (Cons sc scs)
  show ?case
  proof (cases "key_buffer_pos s = 0")
    case False
    then show ?thesis using Cons.prems poll_returns [OF Cons.prems(2,3)] assms(4) by (auto split: prod.splits)
  next
    case True
    then have k: "int_flag s" "keyboard_getchar scs (keyboard_handler_internal sc s) = Some (c, s', rest)"
      using Cons.prems(1) by (simp_all split: if_splits)
    have "interleaved s0 as [] [] (f\<lparr>place := Sleep\<rparr>) s"
      by (rule interleaved.code [OF Cons.prems(2)]) (simp add: getchar_step_def Cons.prems(3) True)
    then have "interleaved s0 as [] [] (f\<lparr>place := Asleep\<rparr>) s"
      by (rule interleaved.code) (simp add: getchar_step_def)
    then have "interleaved s0 (as @ [sc]) [] [] (wake (f\<lparr>place := Asleep\<rparr>)) (keyboard_handler_internal sc s)"
      using k(1) by (intro interleaved.early) simp_all
    from Cons.IH [OF k(2) this] obtain bs f' where
      "scs = bs @ rest" "interleaved s0 ((as @ [sc]) @ bs) [] [] f' s'" "place f' = Returned" "result f' = c"
      by (auto simp: wake_def)
    then show ?thesis by (intro exI [of _ "sc # bs"] exI [of _ f']) simp
  qed
qed

section \<open>Properties\<close>

text \<open>C21: Wherever the interrupts fall in a call, it returns the oldest of the keys there when it left its loop.
  If none falls between that and the store to \<^verbatim>\<open>key_buffer_pos\<close>, the call is as good as atomic: the
  result and the whole state are those of taking a key after all the interrupts.\<close>

theorem getchar_linearizable:
  assumes "interleaved s0 as bs cs f s" and "place f = Returned" and "kbd_inv s0"
  shows "pending (fold keyboard_handler_internal as s0) \<noteq> [] \<and>
    result f = hd (pending (fold keyboard_handler_internal as s0)) \<and>
    (bs = [] \<and> cs = [] \<longrightarrow> take_key (fold keyboard_handler_internal as s0) = (result f, s))"
proof -
  note r = returned_pending [OF assms, unfolded Let_def keys_def]
  moreover have "fst (take_key (fold keyboard_handler_internal as s0)) = hd (pending (fold keyboard_handler_internal as s0))"
    using take_key_pending(1) kbd_inv_keys [OF assms(3), of as] r by (simp add: keys_def)
  ultimately show ?thesis by (cases "take_key (fold keyboard_handler_internal as s0)") auto
qed

definition one_key :: intr where
  "one_key = intr_init\<lparr>int_flag := True, key_buffer := CHR ''a'' # replicate 255 NUL, key_buffer_pos := 1\<rparr>"

lemma one_key_ok: "kbd_inv one_key" "pending one_key = ''a''" "int_flag one_key"
  by (simp_all add: one_key_def kbd_inv_def pending_def)

lemma entered: "place getchar_entry = Poll"
  by (simp add: getchar_entry_def)

lemma getchar_linearizable_witness:
  "\<exists>f s. interleaved one_key [] [] [] f s \<and> place f = Returned \<and> take_key one_key = (CHR ''a'', s)"
proof -
  obtain f s where f: "interleaved one_key [] [] [] f s" "place f = Returned"
    using reaches(1) [OF interleaved.enter one_key_ok(1)] one_key_ok(2) entered by auto
  then show ?thesis using getchar_linearizable [OF f one_key_ok(1)] one_key_ok(2) by auto
qed

text \<open>C32: The window at the end of the call: keys pressed after the loop has ended overwrite nothing, but the
  position is then set as if the last of them had not come. A single key pressed before the load is
  lost, and the key before it will be delivered twice; keys pressed between load and store are lost
  altogether. Such a run exists whenever interrupts are on and a key is waiting.\<close>

theorem getchar_loses_key:
  assumes "kbd_inv s0" and "int_flag s0" and "pending s0 \<noteq> []" and "length (pending s0) < 255"
    and "key_of sc = Some k"
  shows "(\<exists>f s. interleaved s0 [] [sc] [] f s \<and> place f = Returned) \<and>
    (\<forall>f s. interleaved s0 [] [sc] [] f s \<and> place f = Returned \<longrightarrow>
      result f = hd (pending s0) \<and> pending s = tl (pending s0) @ [last (pending s0)]) \<and>
    (\<forall>cs f s. interleaved s0 [] [] cs f s \<and> place f = Returned \<longrightarrow> pending s = tl (pending s0))"
proof (intro conjI allI impI)
  obtain f s where f: "interleaved s0 [] [] [] f s" "place f = Load"
    using reaches(2) [OF interleaved.enter assms(1)] assms(3) entered by auto
  have "int_flag s = int_flag s0"
    using interleaved_place_inv [OF f(1) assms(1)] f(2) by (simp add: place_inv_def Let_def)
  with f have "interleaved s0 [] ([] @ [sc]) [] f (keyboard_handler_internal sc s)"
    using assms(2) by (intro interleaved.between) simp_all
  from reaches(1) [OF this assms(1)] show "\<exists>f s. interleaved s0 [] [sc] [] f s \<and> place f = Returned"
    using assms(3) f(2) by simp
next
  fix f s
  assume "interleaved s0 [] [sc] [] f s \<and> place f = Returned"
  then have i: "interleaved s0 [] [sc] [] f s" "place f = Returned" by simp_all
  have k: "List.map_filter key_of [sc] = [k]" using assms(5) by (simp add: List.map_filter_def)
  have "length (tl (pending s0) @ [last (pending s0), k]) \<le> 255" using assms(3,4) by simp
  then have "take 255 (tl (pending s0) @ [last (pending s0), k]) = tl (pending s0) @ [last (pending s0), k]"
    by (rule take_all)
  then have "butlast (take 255 (tl (pending s0) @ [last (pending s0), k])) = tl (pending s0) @ [last (pending s0)]"
    by (simp add: butlast_append)
  then show "result f = hd (pending s0)" "pending s = tl (pending s0) @ [last (pending s0)]"
    using returned_pending [OF i assms(1)] k by (simp_all only: Let_def keys_simps)
next
  fix cs f s
  assume "interleaved s0 [] [] cs f s \<and> place f = Returned"
  then have i: "interleaved s0 [] [] cs f s" "place f = Returned" by simp_all
  have "length (tl (pending s0) @ [last (pending s0)]) \<le> 255" using assms(3,4) by simp
  then have "take 255 (tl (pending s0) @ [last (pending s0)]) = tl (pending s0) @ [last (pending s0)]" by (rule take_all)
  then have "butlast (take 255 (tl (pending s0) @ [last (pending s0)])) = tl (pending s0)"
    by (simp add: butlast_append)
  moreover have "List.map_filter key_of [] = []" by (simp add: List.map_filter_def)
  ultimately show "pending s = tl (pending s0)"
    using returned_pending [OF i assms(1)] by (simp only: Let_def keys_simps)
qed

lemma getchar_loses_key_witness:
  "\<exists>f s. interleaved one_key [] [0x30] [] f s \<and> place f = Returned \<and> result f = CHR ''a'' \<and> pending s = ''a''"
  using getchar_loses_key [OF one_key_ok(1,3), of "0x30" "CHR ''b''"] one_key_ok(2)
  by (auto simp: key_of_def scancode_to_ascii_def)

text \<open>C33: The window at its beginning: a key pressed between the test for an empty buffer and \<^verbatim>\<open>hlt\<close> is stored,
  but the processor then sleeps with the key in the buffer, until some further interrupt comes.\<close>

theorem getchar_sleeps_on_key:
  assumes "kbd_inv s0" and "int_flag s0" and "pending s0 = []" and "key_of sc = Some k"
  shows "\<exists>f s. interleaved s0 [sc] [] [] f s \<and> pending s = [k] \<and> getchar_step f s = None \<and>
    (\<forall>sc'. interleaved s0 [sc, sc'] [] [] (f\<lparr>place := Poll\<rparr>) (keyboard_handler_internal sc' s))"
proof -
  let ?f = "getchar_entry\<lparr>place := Sleep\<rparr>" and ?s = "keyboard_handler_internal sc s0"
  have "key_buffer_pos s0 = 0" using assms(1,3) pending_empty by blast
  then have "getchar_step getchar_entry s0 = Some (?f, s0)" by (simp add: getchar_step_def getchar_entry_def)
  then have "interleaved s0 [] [] [] ?f s0" by (rule interleaved.code [OF interleaved.enter])
  then have "interleaved s0 ([] @ [sc]) [] [] (wake ?f) ?s"
    using assms(2) by (intro interleaved.early) simp_all
  then have "interleaved s0 [sc] [] [] ?f ?s" by (simp add: wake_def)
  moreover have "getchar_step ?f ?s = Some (?f\<lparr>place := Asleep\<rparr>, ?s)" by (simp add: getchar_step_def)
  ultimately have a: "interleaved s0 [sc] [] [] (?f\<lparr>place := Asleep\<rparr>) ?s" by (rule interleaved.code)
  have "int_flag ?s" using key_handler_pending(3) [OF assms(1)] assms(2) by simp
  then have w: "interleaved s0 ([sc] @ [sc']) [] [] (wake (?f\<lparr>place := Asleep\<rparr>)) (keyboard_handler_internal sc' ?s)" for sc'
    using a by (intro interleaved.early) simp_all
  have "pending ?s = [k]" using key_handler_pending(2) [OF assms(1)] assms(3,4) by simp
  moreover have "getchar_step (?f\<lparr>place := Asleep\<rparr>) ?s = None" by (simp add: getchar_step_def)
  moreover have "wake (?f\<lparr>place := Asleep\<rparr>) = ?f\<lparr>place := Asleep\<rparr>\<lparr>place := Poll\<rparr>" by (simp add: wake_def)
  ultimately show ?thesis using a w by (intro exI [of _ "?f\<lparr>place := Asleep\<rparr>"] exI [of _ ?s]) simp
qed

lemma getchar_sleeps_on_key_witness:
  "\<exists>f s. interleaved (intr_init\<lparr>int_flag := True\<rparr>) [0x30] [] [] f s \<and> pending s = ''b'' \<and> getchar_step f s = None"
proof -
  have "kbd_inv (intr_init\<lparr>int_flag := True\<rparr>)" "pending (intr_init\<lparr>int_flag := True\<rparr>) = []"
    by (simp_all add: kbd_inv_def pending_def intr_init_def)
  moreover have "key_of 0x30 = Some (CHR ''b'')" by (simp add: key_of_def scancode_to_ascii_def)
  ultimately show ?thesis using getchar_sleeps_on_key [of "intr_init\<lparr>int_flag := True\<rparr>" "0x30" "CHR ''b''"] by auto
qed

end
