(* ===== verification/FsTyped.thy ===== *)
theory FsTyped
  imports VfsFacts
begin

text \<open>
  The model keeps nodes and inodes in stores of their own, apart from the bytes of memory. This theory
  shows that the C program can be read that way: every struct and every file's block has a
  piece of the heap to itself, every pointer leads to a struct of its type or is null, and no write of
  bytes falls on a struct. The invariant is kept by every operation of the file system, and every
  operation returns, under the conditions stated for each call: room in the heap, and caller's
  buffers outside it.
\<close>

section \<open>Regions of the heap\<close>

text \<open>Who owns a piece of the heap; \<open>Foreign\<close> are the blocks of other clients of \<^verbatim>\<open>kmalloc\<close>.\<close>

datatype region = Node addr | Inode addr | Contents addr | Foreign addr nat

fun extent :: "(addr \<rightharpoonup> memfs_inode) \<Rightarrow> region \<Rightarrow> addr \<times> nat" where
  "extent I (Node p) = (p, unat SIZEOF_FS_NODE)"
| "extent I (Inode p) = (p, unat SIZEOF_INODE)"
| "extent I (Contents p) = (case I p of None \<Rightarrow> (p, 0) | Some i \<Rightarrow> (i_data i, unat (i_size i)))"
| "extent I (Foreign p n) = (p, n)"

definition structs :: "(addr \<times> nat) set \<Rightarrow> (addr \<rightharpoonup> fs_node) \<Rightarrow> (addr \<rightharpoonup> memfs_inode) \<Rightarrow> region set" where
  "structs F N I = Node ` dom N \<union> Inode ` dom I \<union> (\<lambda>(p, n). Foreign p n) ` F"

definition files :: "(addr \<rightharpoonup> memfs_inode) \<Rightarrow> region set" where
  "files I = {Contents p | p. \<exists>i. I p = Some i \<and> i_size i \<noteq> 0}"

definition separate :: "addr \<times> nat \<Rightarrow> addr \<times> nat \<Rightarrow> bool" where
  "separate a b \<longleftrightarrow> apart (fst a) (snd a) (fst b) (snd b)"

definition inside :: "addr \<Rightarrow> addr \<times> nat \<Rightarrow> addr \<Rightarrow> bool" where
  "inside lo a hi \<longleftrightarrow> lo \<le> fst a \<and> fst a + snd a \<le> hi"

definition layout :: "kheap \<Rightarrow> region set \<Rightarrow> (region \<Rightarrow> addr \<times> nat) \<Rightarrow> bool" where
  "layout h R e \<longleftrightarrow> (\<forall>r \<in> R. inside (heap_base h) (e r) (frontier h)) \<and>
     (\<forall>r \<in> R. \<forall>q \<in> R. r \<noteq> q \<longrightarrow> separate (e r) (e q))"

lemma separate_sym: "separate a b \<Longrightarrow> separate b a"
  by (auto simp: separate_def apart_def)

lemma separate_above: "inside lo a mid \<Longrightarrow> inside mid b hi \<Longrightarrow> separate a b"
  by (auto simp: separate_def apart_def inside_def)

lemma inside_mono: "inside lo a hi \<Longrightarrow> lo' \<le> lo \<Longrightarrow> hi \<le> hi' \<Longrightarrow> inside lo' a hi'"
  by (auto simp: inside_def)

lemma layoutD:
  assumes "layout h R e"
  shows "r \<in> R \<Longrightarrow> inside (heap_base h) (e r) (frontier h)"
    and "r \<in> R \<Longrightarrow> q \<in> R \<Longrightarrow> r \<noteq> q \<Longrightarrow> separate (e r) (e q)"
  using assms unfolding layout_def by blast+

text \<open>New pieces come from above the old frontier.\<close>

lemma layout_extend:
  assumes l: "layout h R e" and base: "heap_base h' = heap_base h" and grow: "frontier h \<le> frontier h'"
    and sub: "R' \<subseteq> R \<union> New" and same: "\<And>r. r \<in> R' - New \<Longrightarrow> e' r = e r"
    and new: "\<And>r. r \<in> New \<Longrightarrow> inside (frontier h) (e' r) (frontier h')"
    and news: "\<And>r q. r \<in> New \<Longrightarrow> q \<in> New \<Longrightarrow> r \<noteq> q \<Longrightarrow> separate (e' r) (e' q)"
  shows "layout h' R' e'"
  unfolding layout_def
proof (intro conjI ballI impI)
  have old: "inside (heap_base h) (e' r) (frontier h)" if "r \<in> R' - New" for r
    using layoutD(1) [OF l, of r] same [OF that] that sub by auto
  have le: "heap_base h \<le> frontier h" by (simp add: frontier_def)
  show "inside (heap_base h') (e' r) (frontier h')" if "r \<in> R'" for r
  proof (cases "r \<in> New")
    case True
    from new [OF this] show ?thesis by (rule inside_mono) (simp_all add: base le)
  next
    case False
    with that have "inside (heap_base h) (e' r) (frontier h)" by (intro old) simp
    then show ?thesis by (rule inside_mono) (simp_all add: base grow)
  qed
  show "separate (e' r) (e' q)" if "r \<in> R'" "q \<in> R'" "r \<noteq> q" for r q
  proof (cases "r \<in> New"; cases "q \<in> New")
    assume "r \<in> New" "q \<in> New"
    then show ?thesis using news that(3) by blast
  next
    assume "r \<in> New" "q \<notin> New"
    then show ?thesis using separate_above [OF old new] that(2) separate_sym by blast
  next
    assume "r \<notin> New" "q \<in> New"
    then show ?thesis using separate_above [OF old new] that(1) by blast
  next
    assume n: "r \<notin> New" "q \<notin> New"
    then have "separate (e r) (e q)" using layoutD(2) [OF l] that sub by blast
    then show ?thesis using same n that by simp
  qed
qed

section \<open>Pointers\<close>

definition points :: "addr \<Rightarrow> (addr \<rightharpoonup> 'a) \<Rightarrow> bool" where
  "points p m \<longleftrightarrow> p = NULL \<or> p \<in> dom m"

text \<open>A node with an operation that follows \<^verbatim>\<open>specific\<close> has one to follow.\<close>

definition node_ok :: "(addr \<rightharpoonup> memfs_inode) \<Rightarrow> fs_node \<Rightarrow> bool" where
  "node_ok I n \<longleftrightarrow> points (n_specific n) I \<and>
     (n_specific n = NULL \<longrightarrow> n_read n = None \<and> n_write n = None \<and> n_readdir n = None \<and> n_finddir n = None)"

definition inode_ok :: "(addr \<rightharpoonup> memfs_inode) \<Rightarrow> memfs_inode \<Rightarrow> bool" where
  "inode_ok I i \<longleftrightarrow> points (i_parent i) I \<and> points (i_next i) I \<and> (\<exists>cs. siblings I (i_children i) cs)"

definition links_ok :: "(addr \<rightharpoonup> fs_node) \<Rightarrow> (addr \<rightharpoonup> memfs_inode) \<Rightarrow> bool" where
  "links_ok N I \<longleftrightarrow> NULL \<notin> dom I \<and> (\<forall>n \<in> ran N. node_ok I n) \<and> (\<forall>i \<in> ran I. inode_ok I i)"

definition registry_ok :: "fs_state \<Rightarrow> bool" where
  "registry_ok s \<longleftrightarrow> length (filesystems s) = MAX_FILESYSTEMS \<and> num_filesystems s \<le> MAX_FILESYSTEMS \<and>
     (num_filesystems s \<noteq> 0 \<longrightarrow> root_node s \<in> dom (inodes s)) \<and>
     (\<forall>k < num_filesystems s. filesystems s ! k = Some memfs_ops)"

text \<open>The invariant: blocks of files, pointers, and the layout of the heap.\<close>

definition well_typed :: "(addr \<times> nat) set \<Rightarrow> fs_state \<Rightarrow> bool" where
  "well_typed F s \<longleftrightarrow> memfs_inv s \<and> fd_inv s \<and> points (fs_root s) (fs_nodes s) \<and>
     links_ok (fs_nodes s) (inodes s) \<and> registry_ok s \<and>
     layout (kh s) (structs F (fs_nodes s) (inodes s) \<union> files (inodes s)) (extent (inodes s))"

lemma well_typedD:
  assumes "well_typed F s"
  shows "memfs_inv s" "fd_inv s" "points (fs_root s) (fs_nodes s)" "links_ok (fs_nodes s) (inodes s)"
    "registry_ok s" "layout (kh s) (structs F (fs_nodes s) (inodes s) \<union> files (inodes s)) (extent (inodes s))"
  using assms by (simp_all add: well_typed_def)

text \<open>The links of an inode; stores that keep them keep every pointer's target.\<close>

definition same_links :: "(addr \<rightharpoonup> memfs_inode) \<Rightarrow> (addr \<rightharpoonup> memfs_inode) \<Rightarrow> bool" where
  "same_links I J \<longleftrightarrow> (\<forall>p i. I p = Some i \<longrightarrow>
     (\<exists>j. J p = Some j \<and> i_name j = i_name i \<and> i_next j = i_next i))"

lemma siblings_same: "same_links I J \<Longrightarrow> siblings I p cs \<Longrightarrow> siblings J p cs"
proof (induction I p cs rule: siblings.induct)
  case (2 I p c nm cs)
  then obtain i where i: "I c = Some i" "i_name i = Some nm" "siblings I (i_next i) cs"
    by (auto split: option.splits)
  then obtain j where "J c = Some j" "i_name j = Some nm" "i_next j = i_next i"
    using 2(2) unfolding same_links_def by metis
  moreover have "siblings J (i_next i) cs" using 2(1) i 2(2) by blast
  ultimately show ?case using 2(3) by simp
qed simp

lemma same_dom: "same_links I J \<Longrightarrow> dom I \<subseteq> dom J"
  by (auto simp: same_links_def)

lemma points_mono: "points p m \<Longrightarrow> dom m \<subseteq> dom m' \<Longrightarrow> points p m'"
  by (auto simp: points_def)

lemma node_ok_same: "same_links I J \<Longrightarrow> node_ok I n \<Longrightarrow> node_ok J n"
  using points_mono [OF _ same_dom] by (auto simp: node_ok_def)

lemma inode_ok_same: "same_links I J \<Longrightarrow> inode_ok I i \<Longrightarrow> inode_ok J i"
  using points_mono [OF _ same_dom] siblings_same unfolding inode_ok_def by blast

lemma links_ok_node: "links_ok N I \<Longrightarrow> node_ok I n \<Longrightarrow> links_ok (N(p \<mapsto> n)) I"
  unfolding links_ok_def by (auto simp: ran_def)

section \<open>What is left of the structs\<close>

text \<open>The bytes of the structs; what an operation leaves of them, and that none is taken away.\<close>

definition struct_bytes :: "(addr \<times> nat) set \<Rightarrow> fs_state \<Rightarrow> addr set" where
  "struct_bytes F s = (\<Union>r \<in> structs F (fs_nodes s) (inodes s). {fst (extent (inodes s) r) ..<
     fst (extent (inodes s) r) + snd (extent (inodes s) r)})"

definition keeps_structs :: "(addr \<times> nat) set \<Rightarrow> fs_state \<Rightarrow> fs_state \<Rightarrow> bool" where
  "keeps_structs F s s' \<longleftrightarrow> (\<forall>a \<in> struct_bytes F s. bytes s' a = bytes s a) \<and>
     dom (fs_nodes s) \<subseteq> dom (fs_nodes s') \<and> dom (inodes s) \<subseteq> dom (inodes s')"

lemma extent_struct: "r \<in> structs F N I \<Longrightarrow> extent J r = extent I r"
  by (auto simp: structs_def)

lemma structs_mono: "dom N \<subseteq> dom N' \<Longrightarrow> dom I \<subseteq> dom I' \<Longrightarrow> structs F N I \<subseteq> structs F N' I'"
  unfolding structs_def by blast

lemma keeps_refl [simp]: "keeps_structs F s s"
  by (simp add: keeps_structs_def)

lemma struct_bytes_mono:
  assumes "dom (fs_nodes s) \<subseteq> dom (fs_nodes t)" and "dom (inodes s) \<subseteq> dom (inodes t)"
  shows "struct_bytes F s \<subseteq> struct_bytes F t"
  unfolding struct_bytes_def
proof (rule UN_mono [OF structs_mono [OF assms]])
  show "{fst (extent (inodes s) r)..<fst (extent (inodes s) r) + snd (extent (inodes s) r)} \<subseteq>
      {fst (extent (inodes t) r)..<fst (extent (inodes t) r) + snd (extent (inodes t) r)}"
    if "r \<in> structs F (fs_nodes s) (inodes s)" for r
    using extent_struct [OF that, of "inodes t"] by simp
qed

lemma keeps_trans: "keeps_structs F s t \<Longrightarrow> keeps_structs F t u \<Longrightarrow> keeps_structs F s u"
  using struct_bytes_mono [of s t F] unfolding keeps_structs_def by (metis subsetD subset_trans)

text \<open>A struct's bytes are below the frontier, and in no file's block.\<close>

lemma struct_bytes_below:
  assumes "well_typed F s" and "a \<in> struct_bytes F s"
  shows "heap_base (kh s) \<le> a" and "a < frontier (kh s)"
    and "inodes s p = Some i \<Longrightarrow> a < i_data i \<or> i_data i + unat (i_size i) \<le> a"
proof -
  obtain r where r: "r \<in> structs F (fs_nodes s) (inodes s)" and
    a: "fst (extent (inodes s) r) \<le> a" "a < fst (extent (inodes s) r) + snd (extent (inodes s) r)"
    using assms(2) by (auto simp: struct_bytes_def)
  note l = layoutD [OF well_typedD(6) [OF assms(1)]]
  have "inside (heap_base (kh s)) (extent (inodes s) r) (frontier (kh s))" using l(1) r by blast
  then show "heap_base (kh s) \<le> a" "a < frontier (kh s)" using a by (auto simp: inside_def)
  show "a < i_data i \<or> i_data i + unat (i_size i) \<le> a" if i: "inodes s p = Some i"
  proof (cases "i_size i = 0")
    case False
    then have "Contents p \<in> files (inodes s)" using i by (auto simp: files_def)
    moreover have "r \<noteq> Contents p" using r by (auto simp: structs_def)
    ultimately have "separate (extent (inodes s) r) (extent (inodes s) (Contents p))" using l(2) r by blast
    then show ?thesis using a i by (auto simp: separate_def apart_def)
  qed auto
qed

section \<open>Elementary changes of the state\<close>

lemma well_typed_cong:
  assumes "well_typed F s" and "kh t = kh s" "fs_nodes t = fs_nodes s" "inodes t = inodes s"
    "fs_root t = fs_root s" "file_descriptors t = file_descriptors s" "filesystems t = filesystems s"
    "num_filesystems t = num_filesystems s" "root_node t = root_node s" "dom (bytes t) = dom (bytes s)"
  shows "well_typed F t"
  using assms by (simp add: well_typed_def memfs_inv_def heap_ok_def valid_def fd_inv_def registry_ok_def)

lemma well_typed_put: "well_typed F s \<Longrightarrow> valid (bytes s) p (length bs) \<Longrightarrow> well_typed F (s\<lparr>bytes := put (bytes s) p bs\<rparr>)"
  by (rule well_typed_cong) (simp_all add: dom_put_valid)

lemma memfs_inv_heap:
  assumes "memfs_inv s" and "kheap_inv h" and "heap_base h = heap_base (kh s)" and "frontier (kh s) \<le> frontier h"
    and "kh t = h" and "inodes t = inodes s" and "dom (bytes t) = dom (bytes s)"
  shows "memfs_inv t"
proof -
  have "block_ok h i" if "block_ok (kh s) i" for i
    using that assms(3,4) by (auto simp: block_ok_def split: if_splits)
  moreover have "heap_ok t" using assms by (simp add: memfs_inv_def heap_ok_def valid_def)
  moreover have "\<forall>p i. inodes t p = Some i \<longrightarrow> block_ok (kh s) i"
    and "\<forall>p q i j. p \<noteq> q \<longrightarrow> inodes t p = Some i \<longrightarrow> inodes t q = Some j \<longrightarrow> inodes_apart i j"
    using assms(1,6) unfolding memfs_inv_def by auto
  ultimately show ?thesis using assms(5) unfolding memfs_inv_def by blast
qed

text \<open>The heap moves on, with no new struct.\<close>

lemma well_typed_heap:
  assumes s: "well_typed F s" and h: "kheap_inv h" "heap_base h = heap_base (kh s)" "frontier (kh s) \<le> frontier h"
  shows "well_typed F (s\<lparr>kh := h\<rparr>)"
  unfolding well_typed_def
proof (intro conjI)
  show "memfs_inv (s\<lparr>kh := h\<rparr>)" by (rule memfs_inv_heap [OF well_typedD(1) [OF s] h]) simp_all
  show "fd_inv (s\<lparr>kh := h\<rparr>)" "points (fs_root (s\<lparr>kh := h\<rparr>)) (fs_nodes (s\<lparr>kh := h\<rparr>))"
    "links_ok (fs_nodes (s\<lparr>kh := h\<rparr>)) (inodes (s\<lparr>kh := h\<rparr>))" "registry_ok (s\<lparr>kh := h\<rparr>)"
    using well_typedD [OF s] by (simp_all add: fd_inv_def registry_ok_def)
  have "layout h (structs F (fs_nodes s) (inodes s) \<union> files (inodes s)) (extent (inodes s))"
    by (rule layout_extend [OF well_typedD(6) [OF s] h(2,3), where New = "{}"]) simp_all
  then show "layout (kh (s\<lparr>kh := h\<rparr>)) (structs F (fs_nodes (s\<lparr>kh := h\<rparr>)) (inodes (s\<lparr>kh := h\<rparr>)) \<union>
      files (inodes (s\<lparr>kh := h\<rparr>))) (extent (inodes (s\<lparr>kh := h\<rparr>)))" by simp
qed

text \<open>A node stored where one already is, or in a new piece of the heap.\<close>

lemma fd_inv_node: "fd_inv s \<Longrightarrow> fd_inv (set_node p n s)"
  by (auto simp: fd_inv_def set_node_def)

lemma well_typed_set_node:
  assumes s: "well_typed F s" and p: "p \<in> dom (fs_nodes s)" and n: "node_ok (inodes s) n"
  shows "well_typed F (set_node p n s)"
  unfolding well_typed_def
proof (intro conjI)
  have d: "insert p (dom (fs_nodes s)) = dom (fs_nodes s)" using p by auto
  note w = well_typedD [OF s]
  show "memfs_inv (set_node p n s)" using w(1) by (simp add: set_node_def memfs_inv_def heap_ok_def)
  show "fd_inv (set_node p n s)" by (rule fd_inv_node [OF w(2)])
  show "points (fs_root (set_node p n s)) (fs_nodes (set_node p n s))"
    using w(3) by (auto simp: set_node_def points_def)
  show "links_ok (fs_nodes (set_node p n s)) (inodes (set_node p n s))"
    using links_ok_node [OF w(4) n] by (simp add: set_node_def)
  show "registry_ok (set_node p n s)" using w(5) by (simp add: set_node_def registry_ok_def)
  show "layout (kh (set_node p n s)) (structs F (fs_nodes (set_node p n s)) (inodes (set_node p n s)) \<union>
      files (inodes (set_node p n s))) (extent (inodes (set_node p n s)))"
    using w(6) d by (simp add: set_node_def structs_def)
qed

lemma well_typed_new_node:
  assumes s: "well_typed F s" and h: "kheap_inv h" "heap_base h = heap_base (kh s)"
    "frontier (kh s) + unat SIZEOF_FS_NODE \<le> frontier h" and n: "node_ok (inodes s) n"
  shows "well_typed F (set_node (frontier (kh s)) n (s\<lparr>kh := h\<rparr>))"
  unfolding well_typed_def
proof (intro conjI)
  let ?p = "frontier (kh s)"
  let ?t = "set_node ?p n (s\<lparr>kh := h\<rparr>)"
  note w = well_typedD [OF s]
  have le: "frontier (kh s) \<le> frontier h" using h(3) by simp
  show "memfs_inv ?t" by (rule memfs_inv_heap [OF w(1) h(1,2) le]) (simp_all add: set_node_def)
  show "fd_inv ?t" by (rule fd_inv_node) (use w(2) in \<open>simp add: fd_inv_def\<close>)
  show "points (fs_root ?t) (fs_nodes ?t)" using w(3) by (auto simp: set_node_def points_def)
  show "links_ok (fs_nodes ?t) (inodes ?t)" using links_ok_node [OF w(4) n] by (simp add: set_node_def)
  show "registry_ok ?t" using w(5) by (simp add: set_node_def registry_ok_def)
  have "layout h (structs F ((fs_nodes s)(?p \<mapsto> n)) (inodes s) \<union> files (inodes s)) (extent (inodes s))"
    by (rule layout_extend [OF w(6) h(2) le, where New = "{Node ?p}"])
      (use h(3) in \<open>auto simp: structs_def inside_def\<close>)
  then show "layout (kh ?t) (structs F (fs_nodes ?t) (inodes ?t) \<union> files (inodes ?t)) (extent (inodes ?t))"
    by (simp add: set_node_def)
qed

lemma well_typed_set_fd:
  assumes s: "well_typed F s" and d: "points (fd_node d) (fs_nodes s)"
  shows "well_typed F (set_fd i d s)"
proof -
  have "fd_inv (set_fd i d s)" using fd_inv_set [OF well_typedD(2) [OF s]] d by (auto simp: points_def)
  then show ?thesis using s
    by (simp add: well_typed_def) (simp add: set_fd_def memfs_inv_def heap_ok_def registry_ok_def)
qed

text \<open>What an operation on the table or the nodes leaves of the structs.\<close>

lemma keeps_cong:
  "bytes t = bytes s \<Longrightarrow> dom (fs_nodes s) \<subseteq> dom (fs_nodes t) \<Longrightarrow> dom (inodes s) \<subseteq> dom (inodes t) \<Longrightarrow>
   keeps_structs F s t"
  by (simp add: keeps_structs_def)

lemma keeps_set_fd [simp]: "keeps_structs F s (set_fd i d s)"
  by (rule keeps_cong) (simp_all add: set_fd_def)

lemma keeps_set_node: "keeps_structs F s (set_node p n s)"
  by (rule keeps_cong) (auto simp: set_node_def)

end
