(* ===== verification/FsCalls.thy ===== *)
theory FsCalls
  imports FsTyped
begin

text \<open>
  The file system's calls over the typed layout of the heap (\<^verbatim>\<open>FsTyped\<close>): each one returns, keeps
  the layout and leaves every struct's bytes alone, under a condition on the room in the heap and
  on the caller's buffer; so does any sequence of calls.
\<close>

section \<open>What a call does to the state\<close>

text \<open>The state stays well typed, structs keep their bytes, and at most \<open>n\<close> bytes of heap are used.\<close>

definition advances :: "(addr \<times> nat) set \<Rightarrow> nat \<Rightarrow> fs_state \<Rightarrow> fs_state \<Rightarrow> bool" where
  "advances F n s s' \<longleftrightarrow> well_typed F s' \<and> keeps_structs F s s' \<and>
     heap_base (kh s') = heap_base (kh s) \<and> heap_space s \<le> heap_space s' + n \<and>
     dom (bytes s') = dom (bytes s)"

lemma advances_refl: "well_typed F s \<Longrightarrow> advances F n s s"
  by (simp add: advances_def)

lemma advances_trans: "advances F n s t \<Longrightarrow> advances F k t u \<Longrightarrow> advances F (n + k) s u"
  using keeps_trans unfolding advances_def by fastforce

lemma advances_mono: "advances F n s t \<Longrightarrow> n \<le> k \<Longrightarrow> advances F k s t"
  by (simp add: advances_def)

lemma advances_typed: "advances F n s t \<Longrightarrow> well_typed F t"
  by (simp add: advances_def)

lemma advances_set_fd: "well_typed F s \<Longrightarrow> points (fd_node d) (fs_nodes s) \<Longrightarrow> advances F n s (set_fd i d s)"
  using well_typed_set_fd [of F s d i]
  by (simp add: advances_def heap_space_def) (simp add: set_fd_def)

lemma typed_heap_ok: "well_typed F s \<Longrightarrow> kheap_inv (kh s)" "well_typed F s \<Longrightarrow> valid (bytes s) (heap_base (kh s)) 0x10000"
  by (simp_all add: well_typed_def memfs_inv_def heap_ok_def)

text \<open>A new node: the bytes below the old frontier are kept.\<close>

lemma advances_new_node:
  assumes s: "well_typed F s" and n: "node_ok (inodes s) n" and room: "315 \<le> heap_space s"
  shows "\<exists>h. fs_kmalloc SIZEOF_FS_NODE s = (frontier (kh s), s\<lparr>kh := h\<rparr>) \<and> frontier (kh s) \<noteq> NULL \<and>
    advances F 315 s (set_node (frontier (kh s)) n (s\<lparr>kh := h\<rparr>))"
proof -
  have "unat (heap_pos (kh s)) + unat SIZEOF_FS_NODE \<le> 0x10000"
    using room by (simp add: heap_space_def SIZEOF_FS_NODE_def)
  from fs_kmalloc_fits [OF typed_heap_ok(1) [OF s] this] obtain h where
    k: "fs_kmalloc SIZEOF_FS_NODE s = (frontier (kh s), s\<lparr>kh := h\<rparr>)" "frontier (kh s) \<noteq> NULL" and
    h: "kheap_inv h" "heap_base h = heap_base (kh s)" "frontier (kh s) + unat SIZEOF_FS_NODE \<le> frontier h"
      "unat (heap_pos h) \<le> unat (heap_pos (kh s)) + 315"
    by (auto simp: SIZEOF_FS_NODE_def)
  let ?t = "set_node (frontier (kh s)) n (s\<lparr>kh := h\<rparr>)"
  have "keeps_structs F s ?t" by (rule keeps_cong) (auto simp: set_node_def)
  moreover have "heap_base (kh ?t) = heap_base (kh s)" "heap_space s \<le> heap_space ?t + 315"
    "dom (bytes ?t) = dom (bytes s)"
    using h(2,4) room by (simp_all add: set_node_def heap_space_def)
  ultimately have "advances F 315 s ?t"
    using well_typed_new_node [OF s h(1-3) n] by (simp add: advances_def)
  with k show ?thesis by blast
qed

section \<open>Looking up and opening\<close>

lemma lookup_name_member: "lookup_name cs nm \<noteq> NULL \<Longrightarrow> \<exists>k < length cs. fst (cs ! k) = lookup_name cs nm"
proof (induction cs)
  case (Cons c cs)
  obtain q m where c: "c = (q, m)" by (cases c)
  show ?case
  proof (cases "m = nm")
    case True
    then show ?thesis by (intro exI [of _ 0]) (simp add: c lookup_name_def)
  next
    case False
    then have "lookup_name (c # cs) nm = lookup_name cs nm" by (simp add: c lookup_name_def)
    with Cons obtain k where "k < length cs" "fst (cs ! k) = lookup_name (c # cs) nm" by auto
    then show ?thesis by (intro exI [of _ "Suc k"]) simp
  qed
qed (simp add: lookup_name_def)

lemma typed_inode: "well_typed F s \<Longrightarrow> inodes s p = Some i \<Longrightarrow> inode_ok (inodes s) i"
  by (auto simp: well_typed_def links_ok_def ran_def)

lemma typed_node: "well_typed F s \<Longrightarrow> fs_nodes s p = Some n \<Longrightarrow> node_ok (inodes s) n"
  by (auto simp: well_typed_def links_ok_def ran_def)

lemma node_target: "node_ok I n \<Longrightarrow> n_read n = Some d \<or> n_write n = Some d \<or> n_readdir n = Some d \<or> n_finddir n = Some d \<Longrightarrow>
  \<exists>i. I (n_specific n) = Some i"
  by (auto simp: node_ok_def points_def)

lemma memfs_finddir_typed:
  assumes s: "well_typed F s" and i: "inodes s (n_specific n) = Some i" and nm: "NUL \<notin> set nm"
    and room: "315 \<le> heap_space s"
  shows "\<exists>q s'. memfs_finddir n nm s = Some (q, s') \<and> points q (fs_nodes s') \<and> advances F 315 s s'"
proof (cases "i_is_dir i = 0")
  case True
  then show ?thesis using i advances_refl [OF s] by (simp add: memfs_finddir_def points_def)
next
  case False
  obtain cs where cs: "siblings (inodes s) (i_children i) cs"
    using typed_inode [OF s i] by (auto simp: inode_ok_def)
  note fc = find_child_siblings [OF cs nm]
  show ?thesis
  proof (cases "lookup_name cs nm = NULL")
    case True
    then show ?thesis using i fc False advances_refl [OF s] by (simp add: memfs_finddir_def points_def)
  next
    case found: False
    define c where "c = lookup_name cs nm"
    obtain j cn where j: "inodes s c = Some j" "i_name j = Some cn" "length cn < 256"
      using lookup_name_member [OF found] siblings_nth [OF cs] unfolding c_def by metis
    define m where "m = zero_node\<lparr>n_name := cn, n_flags := (if i_is_dir j \<noteq> 0 then FS_DIRECTORY else FS_FILE),
      n_inode := of_nat c, n_length := i_size j, n_read := Some Memfs, n_write := Some Memfs,
      n_open := Some Memfs, n_close := Some Memfs, n_readdir := (if i_is_dir j \<noteq> 0 then Some Memfs else None),
      n_finddir := (if i_is_dir j \<noteq> 0 then Some Memfs else None), n_specific := c\<rparr>"
    have "node_ok (inodes s) m" using j(1) found by (auto simp: m_def node_ok_def points_def c_def)
    from advances_new_node [OF s this room] obtain h where
      k: "fs_kmalloc SIZEOF_FS_NODE s = (frontier (kh s), s\<lparr>kh := h\<rparr>)" "frontier (kh s) \<noteq> NULL" and
      a: "advances F 315 s (set_node (frontier (kh s)) m (s\<lparr>kh := h\<rparr>))" by blast
    have "memfs_finddir n nm s = Some (frontier (kh s), set_node (frontier (kh s)) m (s\<lparr>kh := h\<rparr>))"
      using i False fc found j k
      by (simp add: memfs_finddir_def new_node_def set_node_def name256_def Let_def m_def c_def)
    moreover have "points (frontier (kh s)) (fs_nodes (set_node (frontier (kh s)) m (s\<lparr>kh := h\<rparr>)))"
      by (simp add: points_def set_node_def)
    ultimately show ?thesis using a by blast
  qed
qed

lemma vfs_finddir_typed:
  assumes s: "well_typed F s" and p: "p \<in> dom (fs_nodes s)" and nm: "NUL \<notin> set nm" and room: "315 \<le> heap_space s"
  shows "\<exists>q s'. vfs_finddir p nm s = Some (q, s') \<and> points q (fs_nodes s') \<and> advances F 315 s s'"
proof -
  obtain n where n: "fs_nodes s p = Some n" using p by auto
  note stay = advances_refl [OF s, of 315]
  show ?thesis
  proof (cases "n_flags n AND 0x7 = FS_DIRECTORY \<and> n_finddir n \<noteq> None")
    case True
    then obtain d where d: "n_finddir n = Some d" by auto
    then obtain i where "inodes s (n_specific n) = Some i" using node_target [OF typed_node [OF s n]] by blast
    from memfs_finddir_typed [OF s this nm room] show ?thesis using n d True by (simp add: vfs_finddir_def)
  next
    case False
    then have "vfs_finddir p nm s = Some (NULL, s)" using n by (auto simp: vfs_finddir_def)
    with stay show ?thesis by (simp add: points_def)
  qed
qed

lemma walk_typed:
  "well_typed F s \<Longrightarrow> p \<in> dom (fs_nodes s) \<Longrightarrow> \<forall>c \<in> set cs. NUL \<notin> set c \<Longrightarrow>
   315 * length cs \<le> heap_space s \<Longrightarrow>
   \<exists>q s'. walk p cs s = Some (q, s') \<and> points q (fs_nodes s') \<and> advances F (315 * length cs) s s'"
proof (induction cs arbitrary: p s)
  case Nil
  then show ?case by (simp add: points_def advances_refl)
next
  case (Cons c cs)
  show ?case
  proof (cases "length c \<ge> 256")
    case True
    then show ?thesis using advances_refl [OF Cons.prems(1)] by (simp add: points_def)
  next
    case False
    have "NUL \<notin> set c" "315 \<le> heap_space s" using Cons.prems(3,4) by simp_all
    from vfs_finddir_typed [OF Cons.prems(1,2) this] obtain q s1 where
      f: "vfs_finddir p c s = Some (q, s1)" and q: "points q (fs_nodes s1)" and a: "advances F 315 s s1" by blast
    show ?thesis
    proof (cases "q = NULL")
      case True
      have "advances F (315 * length (c # cs)) s s1" by (rule advances_mono [OF a]) simp
      then show ?thesis using f False True by (simp add: points_def)
    next
      case nz: False
      have "315 * length cs \<le> heap_space s1" using a Cons.prems(4) by (simp add: advances_def)
      then obtain r s2 where w: "walk q cs s1 = Some (r, s2)" "points r (fs_nodes s2)"
        "advances F (315 * length cs) s1 s2"
        using Cons.IH [OF advances_typed [OF a], of q] q nz Cons.prems(3) by (auto simp: points_def)
      have "advances F (315 * length (c # cs)) s s2" using advances_trans [OF a w(3)] by simp
      then show ?thesis using f False nz w by simp
    qed
  qed
qed

lemma components_facts: "length (components path) \<le> length path \<and> (NUL \<notin> set path \<longrightarrow> (\<forall>c \<in> set (components path). NUL \<notin> set c))"
proof (induction path rule: components.induct)
  case (1 path)
  show ?case
  proof (cases "path = []")
    case False
    have comp: "set (component path) \<subseteq> set path" by (auto simp: component_def dest: set_takeWhileD)
    have "set (tl xs) \<subseteq> set xs" for xs :: string by (cases xs) auto
    moreover have "next_path path = tl (dropWhile (\<lambda>c. c \<noteq> CHR ''/'') path)"
      unfolding next_path_def
      by (cases "dropWhile (\<lambda>c. c \<noteq> CHR ''/'') path") (simp_all only: list.case list.sel)
    ultimately have nxt: "set (next_path path) \<subseteq> set path" using set_dropWhileD by fastforce
    show ?thesis using 1 [OF False] False comp nxt next_path_shorter [OF False]
      by (subst (1 2) components.simps) auto
  qed (simp add: components.simps)
qed

lemma vfs_open_typed:
  assumes s: "well_typed F s" and root: "fs_root s \<in> dom (fs_nodes s)" and nm: "NUL \<notin> set path"
    and room: "315 * length path \<le> heap_space s"
  shows "\<exists>q s'. vfs_open path flags s = Some (q, s') \<and> points q (fs_nodes s') \<and> advances F (315 * length path) s s'"
proof (cases "\<exists>rest. path = CHR ''/'' # rest \<and> rest \<noteq> []")
  case True
  then obtain rest where p: "path = CHR ''/'' # rest" "rest \<noteq> []" by blast
  have c: "\<forall>c \<in> set (components rest). NUL \<notin> set c" "315 * length (components rest) \<le> heap_space s"
    using components_facts [of rest] nm room p by auto
  from walk_typed [OF s root c] obtain q s' where
    w: "walk (fs_root s) (components rest) s = Some (q, s')" "points q (fs_nodes s')" and
    a: "advances F (315 * length (components rest)) s s'" by blast
  have "315 * length (components rest) \<le> 315 * length path" using components_facts [of rest] p by simp
  then show ?thesis using w advances_mono [OF a] p by (simp add: vfs_open_def open_loop_walk)
next
  case False
  then have "\<exists>q. vfs_open path flags s = Some (q, s) \<and> points q (fs_nodes s)"
    using root by (auto simp: vfs_open_def points_def split: list.splits)
  then show ?thesis using advances_refl [OF s] by blast
qed

section \<open>Descriptors\<close>

lemma advances_then_fd:
  assumes "advances F n s t" and "points (fd_node d) (fs_nodes t)"
  shows "advances F n s (set_fd i d t)"
  using advances_trans [OF assms(1) advances_set_fd [OF advances_typed [OF assms(1)] assms(2), of 0 i]] by simp

lemma open_fd_typed:
  assumes s: "well_typed F s" and root: "fs_root s \<in> dom (fs_nodes s)" and nm: "NUL \<notin> set path"
    and room: "315 * length path \<le> heap_space s"
  shows "\<exists>r s'. open_fd path flags s = Some (r, s') \<and> advances F (315 * length path) s s'"
proof (cases "free_slot (file_descriptors s) 0")
  case None
  then show ?thesis using advances_refl [OF s] by (simp add: open_fd_def)
next
  case (Some fd)
  from vfs_open_typed [OF s root nm room, of flags] obtain q t where
    o: "vfs_open path flags s = Some (q, t)" "points q (fs_nodes t)" and a: "advances F (315 * length path) s t" by blast
  show ?thesis
  proof (cases "q = NULL")
    case True
    then show ?thesis using Some o a by (simp add: open_fd_def)
  next
    case False
    let ?t = "set_fd fd \<lparr>fd_node = q, fd_pos = 0, fd_flags = flags\<rparr> t"
    obtain n where n: "fs_nodes ?t q = Some n" using o(2) False by (auto simp: points_def set_fd_def)
    have "open_fd path flags s = Some (int fd, ?t)"
      using Some o(1) False n by (simp add: open_fd_def Let_def split: option.splits)
    moreover have "advances F (315 * length path) s ?t" by (rule advances_then_fd [OF a]) (use o(2) in simp)
    ultimately show ?thesis by blast
  qed
qed

lemma good_fd_points: "well_typed F s \<Longrightarrow> \<not> bad_fd fd s \<Longrightarrow>
  fd_node (file_descriptors s ! nat fd) \<in> dom (fs_nodes s)"
  using good_fd_node(2) [OF well_typedD(2)] by blast

lemma close_fd_typed:
  assumes s: "well_typed F s"
  shows "\<exists>r s'. close_fd fd s = Some (r, s') \<and> advances F 0 s s'"
proof (cases "bad_fd fd s")
  case True
  then show ?thesis using advances_refl [OF s] by (simp add: close_fd_def)
next
  case False
  have "advances F 0 s (set_fd (nat fd) zero_fd s)"
    by (rule advances_set_fd [OF s]) (simp add: zero_fd_def points_def)
  with close_fd_frame(1) [OF well_typedD(2) [OF s] False] show ?thesis by blast
qed

lemma lseek_typed:
  assumes s: "well_typed F s"
  shows "\<exists>r s'. lseek fd off whence s = Some (r, s') \<and> advances F 0 s s'"
proof (cases "bad_fd fd s")
  case True
  then show ?thesis using advances_refl [OF s] by (simp add: lseek_def)
next
  case False
  let ?d = "file_descriptors s ! nat fd"
  obtain n where n: "fs_nodes s (fd_node ?d) = Some n" using good_fd_points [OF s False] by auto
  have "advances F 0 s (set_fd (nat fd) (?d\<lparr>fd_pos := pos\<rparr>) s)" for pos
    by (rule advances_set_fd [OF s]) (simp add: points_def n domI)
  then show ?thesis using False n advances_refl [OF s] by (simp add: lseek_def Let_def)
qed

section \<open>Reading and writing\<close>

lemma keeps_put:
  assumes "\<And>a. a \<in> struct_bytes F s \<Longrightarrow> a < p \<or> p + length bs \<le> a" and "bytes t = put (bytes s) p bs"
    and "fs_nodes t = fs_nodes s" and "dom (inodes t) = dom (inodes s)"
  shows "keeps_structs F s t"
  using assms by (simp add: keeps_structs_def put_outside)

lemma struct_bytes_heap: "well_typed F s \<Longrightarrow> a \<in> struct_bytes F s \<Longrightarrow> heap_base (kh s) \<le> a \<and> a < heap_base (kh s) + 0x10000"
  using struct_bytes_below(1,2) [of F s a] frontier_le [OF typed_heap_ok(1)] by fastforce

lemma memfs_read_typed:
  assumes s: "well_typed F s" and i: "inodes s (n_specific n) = Some i"
    and sum: "unat off + unat sz < 2 ^ 32" and buf: "user_buffer s buf (unat sz)"
  shows "\<exists>k s'. memfs_read n off sz buf s = Some (k, s') \<and> advances F 0 s s' \<and> fs_nodes s' = fs_nodes s"
proof -
  let ?bs = "take (unat sz) (drop (unat off) (file_data s (n_specific n)))"
  let ?t = "s\<lparr>bytes := put (bytes s) buf ?bs\<rparr>"
  have len: "length ?bs \<le> unat sz" by simp
  have v: "valid (bytes s) buf (length ?bs)"
    using buf len unfolding user_buffer_def by (blast intro: valid_mono)
  have "keeps_structs F s ?t"
  proof (rule keeps_put)
    show "a < buf \<or> buf + length ?bs \<le> a" if "a \<in> struct_bytes F s" for a
      using struct_bytes_heap [OF s that] buf len by (auto simp: user_buffer_def apart_def)
  qed simp_all
  then have "advances F 0 s ?t"
    using well_typed_put [OF s v] dom_put_valid [OF v] by (simp add: advances_def heap_space_def)
  then show ?thesis using memfs_read_law [OF well_typedD(1) [OF s] i sum buf] by simp
qed

lemma same_links_upd: "I p = Some i \<Longrightarrow> i_name j = i_name i \<Longrightarrow> i_next j = i_next i \<Longrightarrow> same_links I (I(p \<mapsto> j))"
  by (auto simp: same_links_def)

lemma links_ok_upd:
  assumes "links_ok N I" and "I p = Some i" and "i_name j = i_name i" "i_next j = i_next i"
    "i_parent j = i_parent i" "i_children j = i_children i"
  shows "links_ok N (I(p \<mapsto> j))"
proof -
  have sl: "same_links I (I(p \<mapsto> j))" using assms(2-4) by (intro same_links_upd)
  have p: "p \<in> dom I" "i \<in> ran I" using assms(2) by (auto simp: ran_def)
  have "inode_ok I j" using assms p by (auto simp: links_ok_def inode_ok_def)
  then have "inode_ok (I(p \<mapsto> j)) x" if "x \<in> ran (I(p \<mapsto> j))" for x
    using that assms(1) inode_ok_same [OF sl] by (auto simp: links_ok_def ran_def split: if_splits)
  moreover have "insert p (dom I) = dom I" using p(1) by auto
  ultimately show ?thesis using assms(1) node_ok_same [OF sl] by (simp add: links_ok_def)
qed

text \<open>A file's contents moved to a new block.\<close>

lemma well_typed_grow:
  assumes s: "well_typed F s" and i: "inodes s p = Some i" and pos: "0 < unat want"
    and h': "kheap_inv h'" "heap_base h' = heap_base (kh s)" "frontier (kh s) + unat want \<le> frontier h'"
    and m': "dom (put (bytes s) d bs) = dom (bytes s)"
    and t: "t = s\<lparr>kh := h', bytes := put (bytes s) d bs,
      inodes := (inodes s)(p \<mapsto> i\<lparr>i_data := frontier (kh s), i_size := want\<rparr>)\<rparr>"
  shows "well_typed F t"
  unfolding well_typed_def
proof (intro conjI)
  note w = well_typedD [OF s]
  let ?j = "i\<lparr>i_data := frontier (kh s), i_size := want\<rparr>"
  have dm: "insert p (dom (inodes s)) = dom (inodes s)" using i by auto
  show "memfs_inv t" unfolding t by (rule memfs_inv_grow [OF w(1) i pos h'])
  show "fd_inv t" "points (fs_root t) (fs_nodes t)" using w(2,3) by (simp_all add: t fd_inv_def)
  show "registry_ok t" using w(5) dm by (simp add: t registry_ok_def)
  show "links_ok (fs_nodes t) (inodes t)" using links_ok_upd [OF w(4) i, of ?j] by (simp add: t)
  have st: "structs F (fs_nodes t) (inodes t) = structs F (fs_nodes s) (inodes s)"
    using dm by (simp add: t structs_def)
  have fl: "files (inodes t) \<subseteq> files (inodes s) \<union> {Contents p}"
    by (auto simp: t files_def split: if_splits)
  show "layout (kh t) (structs F (fs_nodes t) (inodes t) \<union> files (inodes t)) (extent (inodes t))"
  proof (rule layout_extend [OF w(6), where New = "{Contents p}"])
    show "structs F (fs_nodes t) (inodes t) \<union> files (inodes t)
        \<subseteq> structs F (fs_nodes s) (inodes s) \<union> files (inodes s) \<union> {Contents p}" using st fl by blast
    show "extent (inodes t) r = extent (inodes s) r"
      if "r \<in> structs F (fs_nodes t) (inodes t) \<union> files (inodes t) - {Contents p}" for r
      using that by (cases r) (auto simp: t)
  qed (use h' in \<open>auto simp: t inside_def\<close>)
qed

lemma file_store_typed:
  assumes s: "well_typed F s" and i: "inodes s p = Some i" and fit: "off + n \<le> unat (i_size i)"
    and buf: "user_buffer s buf n"
  shows "\<exists>m. memcpy (bytes s) (i_data i + off) buf n = Some m \<and> advances F 0 s (s\<lparr>bytes := m\<rparr>)"
proof -
  define data where "data = map (\<lambda>k. the (bytes s (buf + k))) [0..<n]"
  have len: "length data = n" by (simp add: data_def)
  have "bytes s (buf + k) = Some (the (bytes s (buf + k)))" if "k < n" for k
    using valid_dom [of "bytes s" buf n "buf + k"] buf that by (auto simp: user_buffer_def)
  then have at: "bytes_at (bytes s) buf data" by (simp add: bytes_at_nth data_def)
  note st = memfs_store [OF well_typedD(1) [OF s] i, of off data buf, unfolded len, OF fit buf at]
  let ?t = "s\<lparr>bytes := put (bytes s) (i_data i + off) data\<rparr>"
  have dm: "dom (put (bytes s) (i_data i + off) data) = dom (bytes s)" using st(4) by (simp add: fs_frame_def)
  have "keeps_structs F s ?t"
  proof (rule keeps_put)
    show "a < i_data i + off \<or> i_data i + off + length data \<le> a" if "a \<in> struct_bytes F s" for a
      using struct_bytes_below(3) [OF s that i] fit len by auto
  qed simp_all
  moreover have "well_typed F ?t" by (rule well_typed_cong [OF s]) (simp_all add: dm)
  ultimately have "advances F 0 s ?t" using dm by (simp add: advances_def heap_space_def)
  with st(1) show ?thesis by blast
qed

lemma memfs_grow_typed:
  assumes s: "well_typed F s" and i: "inodes s p = Some i" and more: "unat (i_size i) < unat want"
    and room: "unat want \<le> heap_space s"
  shows "\<exists>s'. memfs_grow p want s = Some s' \<and> advances F (unat want + 3) s s' \<and> fs_nodes s' = fs_nodes s \<and>
    (\<exists>j. inodes s' p = Some j \<and> i_size j = want)"
proof -
  let ?h = "kh s" and ?f = "inode_data (bytes s) i"
  from memfs_grow_law [OF well_typedD(1) [OF s] i more room] obtain h' where
    gr: "memfs_grow p want s = Some (s\<lparr>kh := h', bytes := put (bytes s) (frontier ?h) ?f,
        inodes := (inodes s)(p \<mapsto> i\<lparr>i_data := frontier ?h, i_size := want\<rparr>)\<rparr>)" and
    h': "kheap_inv h'" "heap_base h' = heap_base ?h" "frontier ?h + unat want \<le> frontier h'" and
    pos: "unat (heap_pos h') \<le> unat (heap_pos ?h) + unat want + 3" by blast
  define t where "t = s\<lparr>kh := h', bytes := put (bytes s) (frontier ?h) ?f,
        inodes := (inodes s)(p \<mapsto> i\<lparr>i_data := frontier ?h, i_size := want\<rparr>)\<rparr>"
  have "valid (bytes s) (frontier ?h) (unat (i_size i))"
    by (rule valid_sub [OF typed_heap_ok(2) [OF s]])
      (use frontier_le [OF h'(1)] h'(2,3) more in \<open>simp_all add: frontier_def [of ?h]\<close>)
  then have dm: "dom (put (bytes s) (frontier ?h) ?f) = dom (bytes s)" by (simp add: dom_put_valid)
  have "well_typed F t" by (rule well_typed_grow [OF s i _ h' dm t_def]) (use more in simp)
  moreover have "keeps_structs F s t"
  proof (rule keeps_put)
    show "a < frontier ?h \<or> frontier ?h + length ?f \<le> a" if "a \<in> struct_bytes F s" for a
      using struct_bytes_below(2) [OF s that] by simp
    show "dom (inodes t) = dom (inodes s)" using i by (auto simp: t_def)
  qed (simp_all add: t_def)
  ultimately have "advances F (unat want + 3) s t"
    using h'(2) pos dm by (simp add: advances_def t_def heap_space_def)
  then show ?thesis using gr unfolding t_def [symmetric] by (intro exI [of _ t]) (simp add: t_def)
qed

lemma advances_buffer: "advances F n s t \<Longrightarrow> user_buffer s buf k \<Longrightarrow> user_buffer t buf k"
  by (simp add: advances_def user_buffer_def valid_def)

lemma memfs_write_typed:
  assumes s: "well_typed F s" and i: "inodes s (n_specific n) = Some i"
    and room: "unat off + unat sz \<le> unat (i_size i) \<or> unat off + unat sz \<le> heap_space s"
    and buf: "user_buffer s buf (unat sz)"
  shows "\<exists>k s'. memfs_write n off sz buf s = Some (k, s') \<and> advances F (unat off + unat sz + 3) s s' \<and>
    fs_nodes s' = fs_nodes s"
proof (cases "i_is_dir i = 0")
  case False
  then show ?thesis using i advances_refl [OF s] by (simp add: memfs_write_def)
next
  case plain: True
  have bound: "unat off + unat sz < 2 ^ 32"
    using room unsigned_less [of "i_size i", where ?'a = nat] by (auto simp: heap_space_def)
  then have want: "unat (off + sz) = unat off + unat sz" by (simp add: unat_add_less)
  have grows: "off + sz > i_size i \<longleftrightarrow> unat (i_size i) < unat off + unat sz"
    by (simp add: word_less_nat_alt want)
  show ?thesis
  proof (cases "unat (i_size i) < unat off + unat sz")
    case False
    then have "unat off + unat sz \<le> unat (i_size i)" by simp
    from file_store_typed [OF s i this buf] obtain m where
      m: "memcpy (bytes s) (i_data i + unat off) buf (unat sz) = Some m" and a: "advances F 0 s (s\<lparr>bytes := m\<rparr>)"
      by blast
    have "advances F (unat off + unat sz + 3) s (s\<lparr>bytes := m\<rparr>)" by (rule advances_mono [OF a]) simp
    then show ?thesis using m i plain False by (simp add: memfs_write_def grows)
  next
    case True
    have "unat (i_size i) < unat (off + sz)" "unat (off + sz) \<le> heap_space s" using True room want by auto
    from memfs_grow_typed [OF s i this] obtain t j where
      g: "memfs_grow (n_specific n) (off + sz) s = Some t" "fs_nodes t = fs_nodes s"
        "inodes t (n_specific n) = Some j" "i_size j = off + sz" and
      a: "advances F (unat off + unat sz + 3) s t" unfolding want by blast
    have "unat off + unat sz \<le> unat (i_size j)" using g(4) want by simp
    from file_store_typed [OF advances_typed [OF a] g(3) this advances_buffer [OF a buf]] obtain m where
      m: "memcpy (bytes t) (i_data j + unat off) buf (unat sz) = Some m" and
      b: "advances F 0 t (t\<lparr>bytes := m\<rparr>)" by blast
    have "advances F (unat off + unat sz + 3) s (t\<lparr>bytes := m\<rparr>)" using advances_trans [OF a b] by simp
    then show ?thesis using m i g plain True by (simp add: memfs_write_def grows)
  qed
qed

section \<open>Calls through a node and through a descriptor\<close>

text \<open>The inode a node's operations work on, and the room a write of \<open>sz\<close> bytes at \<open>off\<close> needs.\<close>

definition node_file :: "fs_state \<Rightarrow> addr \<Rightarrow> addr" where
  "node_file s p = (case fs_nodes s p of None \<Rightarrow> NULL | Some n \<Rightarrow> n_specific n)"

definition fits :: "fs_state \<Rightarrow> addr \<Rightarrow> u32 \<Rightarrow> u32 \<Rightarrow> bool" where
  "fits s p off sz \<longleftrightarrow> unat off + unat sz \<le> length (file_data s (node_file s p)) \<or>
     unat off + unat sz \<le> heap_space s"

lemma vfs_read_typed:
  assumes s: "well_typed F s" and p: "p \<in> dom (fs_nodes s)"
    and sum: "unat off + unat sz < 2 ^ 32" and buf: "user_buffer s buf (unat sz)"
  shows "\<exists>k s'. vfs_read p off sz buf s = Some (k, s') \<and> advances F 0 s s' \<and> fs_nodes s' = fs_nodes s"
proof -
  obtain n where n: "fs_nodes s p = Some n" using p by auto
  show ?thesis
  proof (cases "n_read n")
    case None
    then show ?thesis using n advances_refl [OF s] by (simp add: vfs_read_def)
  next
    case (Some d)
    then obtain i where "inodes s (n_specific n) = Some i" using node_target [OF typed_node [OF s n]] by blast
    from memfs_read_typed [OF s this sum buf] show ?thesis using n Some by (simp add: vfs_read_def)
  qed
qed

lemma vfs_write_typed:
  assumes s: "well_typed F s" and p: "p \<in> dom (fs_nodes s)"
    and room: "fits s p off sz" and buf: "user_buffer s buf (unat sz)"
  shows "\<exists>k s'. vfs_write p off sz buf s = Some (k, s') \<and> advances F (unat off + unat sz + 3) s s' \<and>
    fs_nodes s' = fs_nodes s"
proof -
  obtain n where n: "fs_nodes s p = Some n" using p by auto
  show ?thesis
  proof (cases "n_write n")
    case None
    then show ?thesis using n advances_refl [OF s] by (simp add: vfs_write_def)
  next
    case (Some d)
    then obtain i where i: "inodes s (n_specific n) = Some i" using node_target [OF typed_node [OF s n]] by blast
    then have "unat off + unat sz \<le> unat (i_size i) \<or> unat off + unat sz \<le> heap_space s"
      using room n by (simp add: fits_def node_file_def file_data_def)
    from memfs_write_typed [OF s i this buf] show ?thesis using n Some by (simp add: vfs_write_def)
  qed
qed

lemma read_fd_typed:
  assumes s: "well_typed F s" and sum: "unat (fd_pos (file_descriptors s ! nat fd)) + unat sz < 2 ^ 32"
    and buf: "user_buffer s buf (unat sz)"
  shows "\<exists>r s'. read_fd fd buf sz s = Some (r, s') \<and> advances F 0 s s'"
proof (cases "s = s \<and> (bad_fd fd s \<or> fd_flags (file_descriptors s ! nat fd) AND O_RDONLY = 0 \<and>
    fd_flags (file_descriptors s ! nat fd) AND O_RDWR = 0)")
  case True
  then show ?thesis using advances_refl [OF s] by (auto simp: read_fd_def Let_def)
next
  case False
  let ?d = "file_descriptors s ! nat fd"
  have p: "fd_node ?d \<in> dom (fs_nodes s)" using good_fd_points [OF s] False by blast
  from vfs_read_typed [OF s p sum buf] obtain k t where
    r: "vfs_read (fd_node ?d) (fd_pos ?d) sz buf s = Some (k, t)" "fs_nodes t = fs_nodes s" and
    a: "advances F 0 s t" by blast
  have "advances F 0 s (set_fd (nat fd) (?d\<lparr>fd_pos := fd_pos ?d + k\<rparr>) t)"
    by (rule advances_then_fd [OF a]) (use p r(2) in \<open>simp add: points_def\<close>)
  then show ?thesis using r(1) False by (auto simp: read_fd_def Let_def)
qed

lemma write_fd_typed:
  assumes s: "well_typed F s"
    and room: "fits s (fd_node (file_descriptors s ! nat fd)) (fd_pos (file_descriptors s ! nat fd)) sz"
    and buf: "user_buffer s buf (unat sz)"
  shows "\<exists>r s'. write_fd fd buf sz s = Some (r, s') \<and>
    advances F (unat (fd_pos (file_descriptors s ! nat fd)) + unat sz + 3) s s'"
proof (cases "bad_fd fd s \<or> fd_flags (file_descriptors s ! nat fd) AND O_WRONLY = 0 \<and>
    fd_flags (file_descriptors s ! nat fd) AND O_RDWR = 0")
  case True
  then show ?thesis using advances_refl [OF s] by (auto simp: write_fd_def Let_def)
next
  case False
  let ?d = "file_descriptors s ! nat fd"
  have p: "fd_node ?d \<in> dom (fs_nodes s)" using good_fd_points [OF s] False by blast
  from vfs_write_typed [OF s p room buf] obtain k t where
    r: "vfs_write (fd_node ?d) (fd_pos ?d) sz buf s = Some (k, t)" "fs_nodes t = fs_nodes s" and
    a: "advances F (unat (fd_pos ?d) + unat sz + 3) s t" by blast
  have "advances F (unat (fd_pos ?d) + unat sz + 3) s (set_fd (nat fd) (?d\<lparr>fd_pos := fd_pos ?d + k\<rparr>) t)"
    by (rule advances_then_fd [OF a]) (use p r(2) in \<open>simp add: points_def\<close>)
  then show ?thesis using r(1) False by (auto simp: write_fd_def Let_def)
qed

lemma memfs_readdir_typed:
  assumes s: "well_typed F s" and i: "inodes s (n_specific n) = Some i"
  shows "\<exists>e s'. memfs_readdir n index s = Some (e, s') \<and> advances F 0 s s'"
proof (cases "i_is_dir i = 0")
  case True
  then show ?thesis using i advances_refl [OF s] by (simp add: memfs_readdir_def)
next
  case False
  obtain cs where cs: "siblings (inodes s) (i_children i) cs"
    using typed_inode [OF s i] by (auto simp: inode_ok_def)
  note nc = nth_child_siblings [OF cs, of "unat index"]
  show ?thesis
  proof (cases "unat index < length cs")
    case True
    have a: "advances F 0 s (s\<lparr>dir_entry := e\<rparr>)" for e
    proof -
      have "well_typed F (s\<lparr>dir_entry := e\<rparr>)" by (rule well_typed_cong [OF s]) simp_all
      moreover have "keeps_structs F s (s\<lparr>dir_entry := e\<rparr>)" by (rule keeps_cong) simp_all
      ultimately show ?thesis by (simp add: advances_def heap_space_def)
    qed
    from siblings_nth [OF cs True] a show ?thesis
      using i nc True False by (fastforce simp: memfs_readdir_def name256_def Let_def)
  next
    case nt: False
    then show ?thesis using i nc False advances_refl [OF s] by (simp add: memfs_readdir_def)
  qed
qed

lemma vfs_readdir_typed:
  assumes s: "well_typed F s" and p: "p \<in> dom (fs_nodes s)"
  shows "\<exists>e s'. vfs_readdir p index s = Some (e, s') \<and> advances F 0 s s'"
proof -
  obtain n where n: "fs_nodes s p = Some n" using p by auto
  show ?thesis
  proof (cases "n_readdir n")
    case None
    then show ?thesis using n advances_refl [OF s] by (simp add: vfs_readdir_def)
  next
    case (Some d)
    then obtain i where "inodes s (n_specific n) = Some i" using node_target [OF typed_node [OF s n]] by blast
    from memfs_readdir_typed [OF s this] show ?thesis using n Some by (simp add: vfs_readdir_def)
  qed
qed

section \<open>Initialising and mounting\<close>

lemma find_registered:
  "\<forall>e \<in> set fss. e = Some memfs_ops \<Longrightarrow> find_filesystem fss ty = Some None \<or> find_filesystem fss ty = Some (Some memfs_ops)"
  by (induction fss) auto

lemma registered:
  assumes "registry_ok s"
  shows "\<forall>e \<in> set (take (num_filesystems s) (filesystems s)). e = Some memfs_ops"
  using assms by (auto simp: registry_ok_def in_set_conv_nth)

text \<open>Mounting never faults: a failed allocation is reported.\<close>

lemma memfs_mount_typed:
  assumes s: "well_typed F s" and root: "root_node s \<in> dom (inodes s)"
  shows "\<exists>p s'. memfs_mount s = (p, s') \<and> points p (fs_nodes s') \<and> advances F 315 s s' \<and>
    (\<forall>n. fs_nodes s' p = Some n \<longrightarrow> p \<noteq> NULL \<longrightarrow> node_ok (inodes s') n)"
proof (cases "fs_kmalloc SIZEOF_FS_NODE s = (NULL, s)")
  case True
  then show ?thesis using advances_refl [OF s] by (simp add: memfs_mount_def points_def)
next
  case False
  have small: "unat SIZEOF_FS_NODE \<le> 0xFFFE0000" by (simp add: SIZEOF_FS_NODE_def)
  have "unat (heap_pos (kh s)) + 312 \<le> 0x10000"
    using False kmalloc_small [OF typed_heap_ok(1) [OF s] small]
    by (auto simp: fs_kmalloc_def SIZEOF_FS_NODE_def split: if_splits)
  then have "unat (heap_pos (kh s)) + unat SIZEOF_FS_NODE \<le> 0x10000" by (simp add: SIZEOF_FS_NODE_def)
  from fs_kmalloc_fits [OF typed_heap_ok(1) [OF s] this] obtain h where
    k: "fs_kmalloc SIZEOF_FS_NODE s = (frontier (kh s), s\<lparr>kh := h\<rparr>)" "frontier (kh s) \<noteq> NULL" and
    h: "kheap_inv h" "heap_base h = heap_base (kh s)" "frontier (kh s) + unat SIZEOF_FS_NODE \<le> frontier h"
      "unat (heap_pos h) \<le> unat (heap_pos (kh s)) + 315"
    by (auto simp: SIZEOF_FS_NODE_def)
  define n where "n = zero_node\<lparr>n_name := ''root'', n_mask := 0x1FF, n_flags := FS_DIRECTORY,
    n_read := Some Memfs, n_write := Some Memfs, n_open := Some Memfs, n_close := Some Memfs,
    n_readdir := Some Memfs, n_finddir := Some Memfs, n_specific := root_node s\<rparr>"
  let ?t = "set_node (frontier (kh s)) n (s\<lparr>kh := h\<rparr>)"
  have "links_ok (fs_nodes s) (inodes s)" by (rule well_typedD(4) [OF s])
  then have n: "node_ok (inodes s) n" using root by (auto simp: n_def node_ok_def points_def links_ok_def)
  have "keeps_structs F s ?t" by (rule keeps_cong) (auto simp: set_node_def)
  then have "advances F 315 s ?t"
    using well_typed_new_node [OF s h(1-3) n] h(2,4) by (simp add: advances_def) (simp add: set_node_def heap_space_def)
  moreover have "memfs_mount s = (frontier (kh s), ?t)"
    using k by (simp add: memfs_mount_def n_def set_node_def)
  moreover have "points (frontier (kh s)) (fs_nodes ?t)" "inodes ?t = inodes s" "fs_nodes ?t (frontier (kh s)) = Some n"
    by (simp_all add: points_def set_node_def)
  ultimately show ?thesis using n by auto
qed

lemma vfs_mount_typed:
  assumes s: "well_typed F s"
  shows "\<exists>r s'. vfs_mount mp ty s = Some (r, s') \<and> advances F 315 s s'"
proof -
  let ?fss = "take (num_filesystems s) (filesystems s)"
  consider "find_filesystem ?fss ty = Some None"
    | "find_filesystem ?fss ty = Some (Some memfs_ops)" "num_filesystems s \<noteq> 0"
    using find_registered [OF registered [OF well_typedD(5) [OF s]], of ty] by (cases "num_filesystems s = 0") auto
  then show ?thesis
  proof cases
    case 1
    then show ?thesis using advances_refl [OF s] by (simp add: vfs_mount_def)
  next
    case 2
    then have "root_node s \<in> dom (inodes s)" using well_typedD(5) [OF s] by (simp add: registry_ok_def)
    from memfs_mount_typed [OF s this] obtain p t where
      m: "memfs_mount s = (p, t)" "points p (fs_nodes t)" and a: "advances F 315 s t" and
      ok: "\<And>n. fs_nodes t p = Some n \<Longrightarrow> p \<noteq> NULL \<Longrightarrow> node_ok (inodes t) n" by blast
    show ?thesis
    proof (cases "p = NULL \<or> strcmp_spec mp ''/'' \<noteq> 0")
      case True
      then show ?thesis using 2(1) m(1) a by (auto simp: vfs_mount_def call_mount_def memfs_ops_def)
    next
      case False
      then obtain n where n: "fs_nodes t p = Some n" using m(2) by (auto simp: points_def)
      let ?n = "n\<lparr>n_flags := n_flags n OR FS_DIRECTORY\<rparr>"
      let ?u = "set_node p ?n (set_node p n t)"
      have u: "?u = set_node p ?n t" by (simp add: set_node_def)
      have "node_ok (inodes t) ?n" using ok [OF n] False by (simp add: node_ok_def)
      then have "well_typed F ?u" unfolding u using n by (intro well_typed_set_node [OF advances_typed [OF a]]) auto
      then have "advances F 0 t ?u" using keeps_set_node [of F t p ?n]
        by (simp add: advances_def u) (simp add: set_node_def heap_space_def)
      from advances_trans [OF a this] have "advances F 315 s ?u" by simp
      moreover have "vfs_mount mp ty s = Some (0, ?u)"
        using 2(1) m(1) False n by (simp add: vfs_mount_def call_mount_def memfs_ops_def Let_def)
      ultimately show ?thesis by blast
    qed
  qed
qed

lemma fs_kmalloc_eq: "fs_kmalloc sz s = (p, s\<lparr>kh := h\<rparr>) \<Longrightarrow> kmalloc (kh s) sz = (h, p)"
  by (auto simp: fs_kmalloc_def split: prod.splits dest: arg_cong [where f = kh])

lemma vfs_initialize_typed:
  assumes s: "well_typed F s" and room: "315 \<le> heap_space s"
  shows "\<exists>s'. vfs_initialize s = Some s' \<and> advances F 315 s s'"
proof -
  define t where "t = s\<lparr>file_descriptors := replicate MAX_FILE_DESCRIPTORS zero_fd, next_fd := 0,
    filesystems := replicate MAX_FILESYSTEMS None, num_filesystems := 0\<rparr>"
  note w = well_typedD [OF s]
  have "fd_inv t" by (simp add: t_def fd_inv_def zero_fd_def)
  moreover have "registry_ok t" by (simp add: t_def registry_ok_def)
  moreover have "memfs_inv t" using w(1) by (simp add: t_def memfs_inv_def heap_ok_def)
  ultimately have t: "well_typed F t" using s by (simp add: well_typed_def) (simp add: t_def)
  have nb: "node_ok (inodes t) bare_root" by (simp add: node_ok_def points_def bare_root_def zero_node_def)
  have rt: "315 \<le> heap_space t" using room by (simp add: t_def heap_space_def)
  from advances_new_node [OF t nb rt] obtain h where
    k: "fs_kmalloc SIZEOF_FS_NODE t = (frontier (kh t), t\<lparr>kh := h\<rparr>)" "frontier (kh t) \<noteq> NULL" and
    a: "advances F 315 t (set_node (frontier (kh t)) bare_root (t\<lparr>kh := h\<rparr>))" by blast
  define u where "u = (set_node (frontier (kh t)) bare_root (t\<lparr>kh := h\<rparr>))\<lparr>fs_root := frontier (kh t)\<rparr>"
  have au: "well_typed F (set_node (frontier (kh t)) bare_root (t\<lparr>kh := h\<rparr>))" by (rule advances_typed [OF a])
  have "points (fs_root u) (fs_nodes u)" by (simp add: u_def points_def set_node_def)
  then have "well_typed F u" using au
    by (simp add: well_typed_def u_def memfs_inv_def heap_ok_def fd_inv_def registry_ok_def)
  then have "advances F 315 s u" using a
    by (simp add: advances_def keeps_structs_def struct_bytes_def u_def heap_space_def) (simp add: t_def set_node_def)
  moreover have "kmalloc (kh s) SIZEOF_FS_NODE = (h, frontier (kh s))"
    using fs_kmalloc_eq [OF k(1)] by (simp add: t_def)
  then have "fs_kmalloc SIZEOF_FS_NODE (s\<lparr>file_descriptors := replicate MAX_FILE_DESCRIPTORS zero_fd, next_fd := 0\<rparr>) =
      (frontier (kh s), s\<lparr>file_descriptors := replicate MAX_FILE_DESCRIPTORS zero_fd, next_fd := 0, kh := h\<rparr>)"
    by (simp add: fs_kmalloc_def)
  then have "vfs_initialize s = Some u"
    using k(2) by (simp add: vfs_initialize_def new_node_def u_def t_def set_node_def bare_root_def Let_def)
  ultimately show ?thesis by blast
qed

text \<open>The inode table: its structs, and none over an old one.\<close>

lemma inode_table_apply:
  "inode_table p m a = (if \<exists>k < MAX_FILES. a = p + k * unat SIZEOF_INODE then Some zero_inode else m a)"
proof -
  have "fold (\<lambda>k m. m(p + k * unat SIZEOF_INODE \<mapsto> zero_inode)) [0..<n] m a =
    (if \<exists>k < n. a = p + k * unat SIZEOF_INODE then Some zero_inode else m a)" for n
    by (induction n) (auto simp: less_Suc_eq)
  then show ?thesis by (simp add: inode_table_def)
qed

text \<open>A fresh table of empty inodes in the layout of the heap.\<close>

lemma table_layout:
  fixes p :: addr
  defines "new \<equiv> \<lambda>a. \<exists>k < MAX_FILES. a = p + k * 28"
  assumes L: "layout h0 (structs F N I \<union> files I) (extent I)" and p: "p = frontier h0"
    and h: "heap_base h = heap_base h0" "frontier h0 + 1792 \<le> frontier h"
    and prev: "\<And>a j. I' a = Some j \<Longrightarrow> \<not> new a \<Longrightarrow> I a = Some j"
    and empty: "\<And>a j. I' a = Some j \<Longrightarrow> new a \<Longrightarrow> i_size j = 0"
  shows "layout h (structs F N I' \<union> files I') (extent I')"
proof (rule layout_extend [OF L h(1), where New = "{Inode a | a. new a}"])
  show "frontier h0 \<le> frontier h" using h(2) by simp
  have "files I' \<subseteq> files I" using prev empty unfolding files_def by fastforce
  moreover have "structs F N I' \<subseteq> structs F N I \<union> {Inode a | a. new a}"
    using prev unfolding structs_def by fastforce
  ultimately show "structs F N I' \<union> files I' \<subseteq> structs F N I \<union> files I \<union> {Inode a | a. new a}" by blast
  show "extent I' r = extent I r" if r: "r \<in> structs F N I' \<union> files I' - {Inode a | a. new a}" for r
  proof (cases r)
    case (Contents a)
    then obtain j where j: "I' a = Some j" "i_size j \<noteq> 0" using r by (auto simp: files_def structs_def)
    then have "\<not> new a" using empty by blast
    then show ?thesis using prev [OF j(1)] j(1) Contents by simp
  qed simp_all
  show "inside (frontier h0) (extent I' r) (frontier h)" if "r \<in> {Inode a | a. new a}" for r
  proof -
    from that obtain k where k: "r = Inode (p + k * 28)" "k < 64" by (auto simp: MAX_FILES_def new_def)
    then have "k * 28 + 28 \<le> 1792" by simp
    then show ?thesis using k(1) h(2) p by (simp add: inside_def SIZEOF_INODE_def)
  qed
  show "separate (extent I' r) (extent I' q)"
    if "r \<in> {Inode a | a. new a}" "q \<in> {Inode a | a. new a}" "r \<noteq> q" for r q
  proof -
    from that obtain k l where kl: "r = Inode (p + k * 28)" "q = Inode (p + l * 28)" by (auto simp: new_def)
    then have "k \<noteq> l" using that(3) by auto
    then show ?thesis using kl by (auto simp: separate_def apart_def SIZEOF_INODE_def)
  qed
qed

lemma well_typed_table:
  assumes s: "well_typed F s" and h: "kheap_inv h" "heap_base h = heap_base (kh s)" "frontier (kh s) + 1792 \<le> frontier h"
    and dm: "dom (bytes t) = dom (bytes s)"
    and I: "inodes t = (inode_table (frontier (kh s)) (inodes s))(frontier (kh s) \<mapsto> i)"
    and i: "i_size i = 0" "i_data i = NULL" "i_parent i = NULL" "i_next i = NULL" "i_children i = NULL"
    and t: "kh t = h" "fs_nodes t = fs_nodes s" "fs_root t = fs_root s" "file_descriptors t = file_descriptors s"
      "registry_ok t"
  shows "well_typed F t"
proof -
  let ?p = "frontier (kh s)"
  let ?new = "\<lambda>a. \<exists>k < MAX_FILES. a = ?p + k * 28"
  note w = well_typedD [OF s]
  have le: "?p \<le> frontier h" using h(3) by simp
  have upd: "inodes t a = (if a = ?p then Some i else if ?new a then Some zero_inode else inodes s a)" for a
    by (simp add: I inode_table_apply SIZEOF_INODE_def)
  have p_new: "?new ?p" by (intro exI [of _ 0]) (simp add: MAX_FILES_def)
  have old: "inodes s a = Some j \<Longrightarrow> a < ?p" for a j
  proof -
    assume "inodes s a = Some j"
    then have "Inode a \<in> structs F (fs_nodes s) (inodes s)" by (auto simp: structs_def)
    then have "inside (heap_base (kh s)) (extent (inodes s) (Inode a)) ?p" using layoutD(1) [OF w(6)] by blast
    then show "a < ?p" by (simp add: inside_def SIZEOF_INODE_def)
  qed
  have empty: "inodes t a = Some j \<Longrightarrow> ?new a \<Longrightarrow> i_size j = 0 \<and> i_data j = NULL \<and> i_parent j = NULL \<and> i_next j = NULL \<and> i_children j = NULL"
    for a j using i by (auto simp: upd zero_inode_def split: if_splits)
  have prev: "inodes s a = Some j" if "inodes t a = Some j" "\<not> ?new a" for a j
  proof -
    have "a \<noteq> ?p" using that(2) p_new by blast
    then show ?thesis using upd [of a] that by (simp only: if_False)
  qed
  have sl: "same_links (inodes s) (inodes t)"
    unfolding same_links_def using old by (fastforce simp: upd)
  show ?thesis
    unfolding well_typed_def
  proof (intro conjI)
    have "NULL < ?p" using typed_heap_ok(1) [OF s] by (simp add: frontier_def kheap_inv_def)
    then have "NULL \<notin> dom (inodes t)" using w(4) by (auto simp: upd links_ok_def split: if_splits)
    moreover have "inode_ok (inodes t) j" if "inodes t a = Some j" for a j
    proof (cases "?new a")
      case True
      then have "i_parent j = NULL \<and> i_next j = NULL \<and> i_children j = NULL" using empty [OF that] by blast
      moreover have "siblings (inodes t) NULL []" by simp
      ultimately show ?thesis by (auto simp: inode_ok_def points_def intro: exI [of _ "[]"])
    next
      case False
      then show ?thesis using inode_ok_same [OF sl typed_inode [OF s prev [OF that]]] by blast
    qed
    moreover have "node_ok (inodes t) n" if "fs_nodes s a = Some n" for a n
      by (rule node_ok_same [OF sl typed_node [OF s that]])
    ultimately show "links_ok (fs_nodes t) (inodes t)" using t(2) by (auto simp: links_ok_def ran_def)
    have blk: "block_ok h j" if "inodes t a = Some j" for a j
    proof (cases "?new a")
      case False
      then have "block_ok (kh s) j" using w(1) prev [OF that] by (auto simp: memfs_inv_def)
      then show ?thesis using h(2) le by (auto simp: block_ok_def split: if_splits)
    qed (use empty [OF that] in \<open>simp add: block_ok_def\<close>)
    have ap: "inodes_apart j j'" if "a \<noteq> b" "inodes t a = Some j" "inodes t b = Some j'" for a b j j'
    proof (cases "?new a \<or> ?new b")
      case True
      then show ?thesis using empty [OF that(2)] empty [OF that(3)] by (auto simp: inodes_apart_def apart_def)
    next
      case False
      then show ?thesis using memfs_inv_apart [OF w(1) that(1)] prev that(2,3) by blast
    qed
    have "heap_ok t" using typed_heap_ok(2) [OF s] h(1,2) dm t(1) by (simp add: heap_ok_def valid_def)
    then show "memfs_inv t" using blk ap t(1) unfolding memfs_inv_def by blast
    show "fd_inv t" "points (fs_root t) (fs_nodes t)" "registry_ok t"
      using w(2,3) t by (simp_all add: fd_inv_def)
    have "layout h (structs F (fs_nodes t) (inodes t) \<union> files (inodes t)) (extent (inodes t))"
      unfolding t(2) by (rule table_layout [OF w(6) refl h(2,3)]) (use prev empty in blast)+
    then show "layout (kh t) (structs F (fs_nodes t) (inodes t) \<union> files (inodes t)) (extent (inodes t))"
      by (simp add: t(1))
  qed
qed

lemma memfs_initialize_typed:
  assumes s: "well_typed F s" and room: "1940 \<le> heap_space s"
  shows "\<exists>s'. memfs_initialize s = Some s' \<and> advances F 1926 s s'"
proof -
  let ?p = "frontier (kh s)" and ?i = "zero_inode\<lparr>i_name := Some ''/'', i_is_dir := 1\<rparr>"
  have ok: "heap_ok s" "unat (heap_pos (kh s)) + 1940 \<le> 0x10000"
    using typed_heap_ok [OF s] room by (simp_all add: heap_ok_def heap_space_def)
  from memfs_initialize_run [OF this] obtain h q bs where
    run: "memfs_initialize s = Some (register_filesystem memfs_ops
      (s\<lparr>memfs_nodes := ?p, kh := h, bytes := put (bytes s) q bs, block_bitmap := q,
         blocks := NULL, root_node := ?p, inodes := (inode_table ?p (inodes s))(?p \<mapsto> ?i)\<rparr>))"
    and h: "kheap_inv h" "heap_base h = heap_base (kh s)" "?p + 1792 \<le> q" "q + length bs \<le> frontier h"
      "unat (heap_pos h) \<le> unat (heap_pos (kh s)) + 1926" "dom (put (bytes s) q bs) = dom (bytes s)"
    by blast
  define u where "u = s\<lparr>memfs_nodes := ?p, kh := h, bytes := put (bytes s) q bs, block_bitmap := q,
         blocks := NULL, root_node := ?p, inodes := (inode_table ?p (inodes s))(?p \<mapsto> ?i)\<rparr>"
  define t where "t = register_filesystem memfs_ops u"
  have root: "root_node u \<in> dom (inodes u)" by (simp add: u_def)
  have "registry_ok s" by (rule well_typedD(5) [OF s])
  then have reg: "registry_ok t" using root
    by (auto simp: t_def register_filesystem_def registry_ok_def u_def less_Suc_eq nth_list_update)
  have fr: "kh t = kh u" "fs_nodes t = fs_nodes u" "inodes t = inodes u" "bytes t = bytes u"
    "fs_root t = fs_root u" "file_descriptors t = file_descriptors u"
    by (simp_all add: t_def register_filesystem_def)
  have "frontier (kh s) + 1792 \<le> frontier h" using h(3,4) by simp
  from well_typed_table [OF s h(1,2) this, of t ?i] have wt: "well_typed F t"
    using h(6) fr reg by (simp add: u_def zero_inode_def)
  have "keeps_structs F s t"
    unfolding keeps_structs_def
  proof (intro conjI ballI)
    show "bytes t a = bytes s a" if "a \<in> struct_bytes F s" for a
      using struct_bytes_below(2) [OF s that] h(3) by (simp add: fr u_def put_outside)
    show "dom (fs_nodes s) \<subseteq> dom (fs_nodes t)" by (simp add: fr u_def)
    show "dom (inodes s) \<subseteq> dom (inodes t)" by (auto simp: fr u_def inode_table_apply)
  qed
  then have "advances F 1926 s t" using wt h(2,5,6) by (simp add: advances_def fr u_def heap_space_def)
  then show ?thesis using run unfolding u_def [symmetric] t_def by blast
qed

text \<open>A block for another client of the heap.\<close>

lemma well_typed_foreign:
  assumes s: "well_typed F s" and k: "fs_kmalloc sz s = (p, t)" and small: "unat sz \<le> 0xFFFE0000"
  shows "well_typed (if p = NULL then F else insert (p, unat sz) F) t" and "keeps_structs F s t"
    and "dom (bytes t) = dom (bytes s)"
proof -
  obtain h where t: "t = s\<lparr>kh := h\<rparr>" and km: "kmalloc (kh s) sz = (h, p)"
    using k by (auto simp: fs_kmalloc_def split: prod.splits)
  show "keeps_structs F s t" "dom (bytes t) = dom (bytes s)" by (simp_all add: keeps_structs_def t)
  note hv = typed_heap_ok(1) [OF s]
  show "well_typed (if p = NULL then F else insert (p, unat sz) F) t"
  proof (cases "p = NULL")
    case True
    then have "t = s" using kmalloc_fail [OF hv, of sz h] km t by simp
    then show ?thesis using True s by simp
  next
    case False
    note kb = kmalloc_block [OF hv small km False]
    have le: "frontier (kh s) \<le> frontier h" using kb(1,2) by simp
    have w: "well_typed F t" unfolding t by (rule well_typed_heap [OF s kb(4,5) le])
    have "layout h (structs (insert (p, unat sz) F) (fs_nodes s) (inodes s) \<union> files (inodes s)) (extent (inodes s))"
      by (rule layout_extend [OF well_typedD(6) [OF s] kb(5) le, where New = "{Foreign p (unat sz)}"])
        (use kb(1,2) in \<open>auto simp: structs_def inside_def\<close>)
    then show ?thesis using w False by (simp add: well_typed_def t)
  qed
qed

end
