(* ===== verification/FsRuns.thy ===== *)
theory FsRuns
  imports FsCalls
begin

text \<open>
  Sequences of file system calls over the typed heap: the condition on each call, the relation of
  runs, and soundness: a permitted call returns, and runs keep the layout and the structs.
\<close>

section \<open>Sequences of calls\<close>

datatype fs_call =
    Vfs_initialize | Memfs_initialize | Vfs_mount string string
  | Open_fd string u32 | Close_fd int | Read_fd int addr u32 | Write_fd int addr u32 | Lseek int u32 u32
  | Vfs_open string u32 | Vfs_close addr | Vfs_finddir addr string | Vfs_readdir addr u32
  | Vfs_read addr u32 u32 addr | Vfs_write addr u32 u32 addr | Kmalloc u32

fun fs_do :: "fs_call \<Rightarrow> fs_state \<Rightarrow> fs_state option" where
  "fs_do Vfs_initialize s = vfs_initialize s"
| "fs_do Memfs_initialize s = memfs_initialize s"
| "fs_do (Vfs_mount mp ty) s = map_option snd (vfs_mount mp ty s)"
| "fs_do (Open_fd path flags) s = map_option snd (open_fd path flags s)"
| "fs_do (Close_fd fd) s = map_option snd (close_fd fd s)"
| "fs_do (Read_fd fd buf sz) s = map_option snd (read_fd fd buf sz s)"
| "fs_do (Write_fd fd buf sz) s = map_option snd (write_fd fd buf sz s)"
| "fs_do (Lseek fd off whence) s = map_option snd (lseek fd off whence s)"
| "fs_do (Vfs_open path flags) s = map_option snd (vfs_open path flags s)"
| "fs_do (Vfs_close p) s = vfs_close p s"
| "fs_do (Vfs_finddir p nm) s = map_option snd (vfs_finddir p nm s)"
| "fs_do (Vfs_readdir p index) s = map_option snd (vfs_readdir p index s)"
| "fs_do (Vfs_read p off sz buf) s = map_option snd (vfs_read p off sz buf s)"
| "fs_do (Vfs_write p off sz buf) s = map_option snd (vfs_write p off sz buf s)"
| "fs_do (Kmalloc sz) s = Some (snd (fs_kmalloc sz s))"

text \<open>The condition on each call; 312 bytes a node and a path of \<open>n\<close> characters at most \<open>n\<close> nodes.\<close>

definition has_root :: "fs_state \<Rightarrow> bool" where
  "has_root s \<longleftrightarrow> fs_root s \<noteq> NULL"

definition c_path :: "string \<Rightarrow> fs_state \<Rightarrow> bool" where
  "c_path path s \<longleftrightarrow> NUL \<notin> set path \<and> 315 * length path \<le> heap_space s"

fun call_ok :: "fs_call \<Rightarrow> fs_state \<Rightarrow> bool" where
  "call_ok Vfs_initialize s = (315 \<le> heap_space s)"
| "call_ok Memfs_initialize s = (1940 \<le> heap_space s)"
| "call_ok (Vfs_mount mp ty) s = True"
| "call_ok (Open_fd path flags) s = (has_root s \<and> c_path path s)"
| "call_ok (Close_fd fd) s = True"
| "call_ok (Read_fd fd buf sz) s =
     (unat (fd_pos (file_descriptors s ! nat fd)) + unat sz < 2 ^ 32 \<and> user_buffer s buf (unat sz))"
| "call_ok (Write_fd fd buf sz) s =
     (fits s (fd_node (file_descriptors s ! nat fd)) (fd_pos (file_descriptors s ! nat fd)) sz \<and>
      user_buffer s buf (unat sz))"
| "call_ok (Lseek fd off whence) s = True"
| "call_ok (Vfs_open path flags) s = (has_root s \<and> c_path path s)"
| "call_ok (Vfs_close p) s = (fs_nodes s p \<noteq> None)"
| "call_ok (Vfs_finddir p nm) s = (fs_nodes s p \<noteq> None \<and> NUL \<notin> set nm \<and> 315 \<le> heap_space s)"
| "call_ok (Vfs_readdir p index) s = (fs_nodes s p \<noteq> None)"
| "call_ok (Vfs_read p off sz buf) s =
     (fs_nodes s p \<noteq> None \<and> unat off + unat sz < 2 ^ 32 \<and> user_buffer s buf (unat sz))"
| "call_ok (Vfs_write p off sz buf) s = (fs_nodes s p \<noteq> None \<and> fits s p off sz \<and> user_buffer s buf (unat sz))"
| "call_ok (Kmalloc sz) s = (unat sz \<le> 0xFFFE0000)"

text \<open>The blocks other clients own after a call.\<close>

fun owned :: "fs_call \<Rightarrow> fs_state \<Rightarrow> (addr \<times> nat) set \<Rightarrow> (addr \<times> nat) set" where
  "owned (Kmalloc sz) s F = (let p = fst (fs_kmalloc sz s) in if p = NULL then F else insert (p, unat sz) F)"
| "owned c s F = F"

inductive fs_calls :: "(addr \<times> nat) set \<Rightarrow> fs_state \<Rightarrow> fs_call list \<Rightarrow> (addr \<times> nat) set \<Rightarrow> fs_state \<Rightarrow> bool" where
  no_calls: "fs_calls F s [] F s"
| more_calls: "call_ok c s \<Longrightarrow> fs_do c s = Some t \<Longrightarrow> fs_calls (owned c s F) t cs G u \<Longrightarrow> fs_calls F s (c # cs) G u"

inductive_cases fs_calls_NilE: "fs_calls F s [] G u"
inductive_cases fs_calls_ConsE: "fs_calls F s (c # cs) G u"

definition sound_step :: "(addr \<times> nat) set \<Rightarrow> fs_state \<Rightarrow> fs_state \<Rightarrow> bool" where
  "sound_step F s t \<longleftrightarrow> keeps_structs F s t \<and> dom (bytes t) = dom (bytes s)"

lemma advances_sound: "advances F n s t \<Longrightarrow> well_typed F t \<and> sound_step F s t"
  by (simp add: advances_def sound_step_def)

lemma root_dom: "well_typed F s \<Longrightarrow> has_root s \<Longrightarrow> fs_root s \<in> dom (fs_nodes s)"
  using well_typedD(3) [of F s] by (simp add: has_root_def points_def)

lemma vfs_close_typed: "well_typed F s \<Longrightarrow> p \<in> dom (fs_nodes s) \<Longrightarrow> vfs_close p s = Some s"
  by (auto simp: vfs_close_def split: option.splits)

lemma result_state: "(\<exists>r t. f = Some (r, t) \<and> P t) \<Longrightarrow> \<exists>t. map_option snd f = Some t \<and> P t"
  by auto

lemma call_sound:
  assumes s: "well_typed F s" and ok: "call_ok c s"
  shows "\<exists>t. fs_do c s = Some t \<and> well_typed (owned c s F) t \<and> sound_step F s t"
proof -
  have adv: "(\<exists>t n. fs_do c s = Some t \<and> advances F n s t) \<Longrightarrow> owned c s F = F \<Longrightarrow> ?thesis"
    using advances_sound by fastforce
  show ?thesis
  proof (cases c)
    case Vfs_initialize
    then show ?thesis using vfs_initialize_typed [OF s] ok by (intro adv) auto
  next
    case Memfs_initialize
    then show ?thesis using memfs_initialize_typed [OF s] ok by (intro adv) auto
  next
    case (Vfs_mount mp ty)
    then show ?thesis using vfs_mount_typed [OF s, of mp ty] by (intro adv) fastforce+
  next
    case (Open_fd path flags)
    then show ?thesis using open_fd_typed [OF s root_dom [OF s], of path flags] ok
      by (intro adv) (fastforce simp: c_path_def)+
  next
    case (Close_fd fd)
    then show ?thesis using close_fd_typed [OF s, of fd] by (intro adv) fastforce+
  next
    case (Read_fd fd buf sz)
    then show ?thesis using read_fd_typed [OF s, of fd sz buf] ok by (intro adv) fastforce+
  next
    case (Write_fd fd buf sz)
    then show ?thesis using write_fd_typed [OF s, of fd sz buf] ok by (intro adv) fastforce+
  next
    case (Lseek fd off whence)
    then show ?thesis using lseek_typed [OF s, of fd off whence] by (intro adv) fastforce+
  next
    case (Vfs_open path flags)
    then show ?thesis using vfs_open_typed [OF s root_dom [OF s], of path flags] ok
      by (intro adv) (fastforce simp: c_path_def)+
  next
    case (Vfs_close p)
    then show ?thesis using vfs_close_typed [OF s, of p] advances_refl [OF s] ok by (intro adv) auto
  next
    case (Vfs_finddir p nm)
    then show ?thesis using vfs_finddir_typed [OF s, of p nm] ok by (intro adv) (fastforce simp: domIff)+
  next
    case (Vfs_readdir p index)
    then show ?thesis using vfs_readdir_typed [OF s, of p index] ok by (intro adv) (fastforce simp: domIff)+
  next
    case (Vfs_read p off sz buf)
    then show ?thesis using vfs_read_typed [OF s, of p off sz buf] ok by (intro adv) (fastforce simp: domIff)+
  next
    case (Vfs_write p off sz buf)
    then show ?thesis using vfs_write_typed [OF s, of p off sz buf] ok by (intro adv) (fastforce simp: domIff)+
  next
    case (Kmalloc sz)
    obtain p t where k: "fs_kmalloc sz s = (p, t)" by (cases "fs_kmalloc sz s")
    from well_typed_foreign [OF s k] ok Kmalloc k show ?thesis by (auto simp: sound_step_def Let_def)
  qed
qed

text \<open>Structs stay when more of the heap is owned; steps compose.\<close>

lemma keeps_owned: "F \<subseteq> G \<Longrightarrow> keeps_structs G s t \<Longrightarrow> keeps_structs F s t"
proof -
  assume "F \<subseteq> G" and k: "keeps_structs G s t"
  then have "structs F N I \<subseteq> structs G N I" for N I unfolding structs_def by blast
  then have "struct_bytes F s \<subseteq> struct_bytes G s" unfolding struct_bytes_def by (intro UN_mono) simp_all
  with k show ?thesis unfolding keeps_structs_def by blast
qed

lemma sound_refl [simp]: "sound_step F s s"
  by (simp add: sound_step_def)

lemma sound_trans: "F \<subseteq> G \<Longrightarrow> sound_step F s t \<Longrightarrow> sound_step G t u \<Longrightarrow> sound_step F s u"
  using keeps_trans keeps_owned unfolding sound_step_def by metis

lemma owned_grows: "F \<subseteq> owned c s F"
  by (cases c) (auto simp: Let_def)

lemma calls_sound: "fs_calls F s cs G u \<Longrightarrow> well_typed F s \<Longrightarrow> well_typed G u \<and> F \<subseteq> G \<and> sound_step F s u"
proof (induction rule: fs_calls.induct)
  case (more_calls c s t F cs G u)
  then have t: "well_typed (owned c s F) t" "sound_step F s t" using call_sound [OF more_calls.prems more_calls(1)] by auto
  with more_calls.IH show ?case using owned_grows [of F c s] sound_trans by blast
qed simp

lemma well_typed_init:
  assumes "kheap_inv h" and "valid m (heap_base h) 0x10000"
  shows "well_typed {} (fs_init h m)"
  using assms by (simp add: well_typed_def fs_init_def memfs_inv_def heap_ok_def fd_inv_def zero_fd_def
      points_def links_ok_def registry_ok_def layout_def structs_def files_def)

end
