(* ===== verification/MachineTyped.thy ===== *)
theory MachineTyped
  imports FsRuns KernelFacts
begin

text \<open>
  The kernel over the typed heap: task structures and stacks are blocks of other clients, the
  list of tasks never leads outside them, and every function of the kernel that works on them, be it the
  timer's, the creation of a task, a call of the file system or the shutdown, keeps this so.
\<close>

section \<open>The invariant\<close>

definition tasks_ok :: "(addr \<times> nat) set \<Rightarrow> (addr \<rightharpoonup> task) \<Rightarrow> addr \<Rightarrow> addr \<Rightarrow> bool" where
  "tasks_ok F T queue current \<longleftrightarrow> (\<forall>p \<in> dom T. (p, unat SIZEOF_TASK) \<in> F) \<and>
     points queue T \<and> points current T \<and> (\<forall>t \<in> ran T. points (t_next t) T)"

definition machine_typed :: "(addr \<times> nat) set \<Rightarrow> machine \<Rightarrow> bool" where
  "machine_typed F m \<longleftrightarrow> well_typed F (fs m) \<and> tasks_ok F (tasks m) (task_queue m) (current_task m)"

lemma tasks_ok_mono: "tasks_ok F T q c \<Longrightarrow> F \<subseteq> G \<Longrightarrow> tasks_ok G T q c"
  by (auto simp: tasks_ok_def)

lemma tasks_ok_next: "tasks_ok F T q c \<Longrightarrow> T p = Some t \<Longrightarrow> points (t_next t) T"
  by (auto simp: tasks_ok_def ran_def)

lemma tasks_ok_put:
  assumes "tasks_ok F T q c" and "(p, unat SIZEOF_TASK) \<in> F" and "points (t_next t) (T(p \<mapsto> t))"
  shows "tasks_ok F (T(p \<mapsto> t)) q c"
proof -
  have "dom T \<subseteq> dom (T(p \<mapsto> t))" by auto
  then have "points a (T(p \<mapsto> t))" if "points a T" for a using that points_mono by blast
  then show ?thesis using assms by (auto simp: tasks_ok_def ran_def)
qed

lemma foreign_below:
  assumes "well_typed F f" and "(q, n) \<in> F"
  shows "q + n \<le> frontier (kh f)"
proof -
  have "Foreign q n \<in> structs F (fs_nodes f) (inodes f)" using assms(2) by (force simp: structs_def)
  then have "inside (heap_base (kh f)) (extent (inodes f) (Foreign q n)) (frontier (kh f))"
    using layoutD(1) [OF well_typedD(6) [OF assms(1)]] by blast
  then show ?thesis by (simp add: inside_def)
qed

section \<open>Ticks\<close>

lemma timer_typed:
  assumes "machine_typed F m"
  shows "\<exists>r m'. timer_callback regs m = Some (r, m') \<and> machine_typed F m' \<and> fs m' = fs m"
proof -
  define m1 where "m1 = count_tick m"
  have fr: "tasks m1 = tasks m" "fs m1 = fs m" "task_queue m1 = task_queue m" "current_task m1 = current_task m"
    by (simp_all add: m1_def)
  have m1: "machine_typed F m1" using assms by (simp add: machine_typed_def fr)
  have T: "tasks_ok F (tasks m1) (task_queue m1) (current_task m1)" using m1 by (simp add: machine_typed_def)
  show ?thesis
  proof (cases "scheduler_active (status m1) \<and> current_task m1 \<noteq> NULL")
    case False
    then have "timer_callback regs m = Some (regs, m1)"
      unfolding timer_callback_def m1_def [symmetric] Let_def by (rule if_not_P)
    then show ?thesis using m1 fr by simp
  next
    case True
    then obtain t where t: "tasks m1 (current_task m1) = Some t"
      using T by (auto simp: tasks_ok_def points_def)
    show ?thesis
    proof (cases "t_next t = NULL")
      case True
      then have "timer_callback regs m = Some (regs, m1)" using t
        unfolding timer_callback_def m1_def [symmetric] Let_def by simp
      then show ?thesis using m1 fr by simp
    next
      case False
      let ?c = "t\<lparr>t_esp := fst regs, t_ebp := snd regs\<rparr>"
      let ?T = "(tasks m1)(current_task m1 \<mapsto> ?c)"
      have n: "points (t_next t) (tasks m1)" by (rule tasks_ok_next [OF T t])
      then have n': "points (t_next t) ?T" by (auto simp: points_def)
      then have "t_next t \<in> dom ?T" using False unfolding points_def by blast
      then obtain u where u: "?T (t_next t) = Some u" unfolding dom_def by blast
      have "(current_task m1, unat SIZEOF_TASK) \<in> F" using T t by (auto simp: tasks_ok_def)
      then have "tasks_ok F ?T (task_queue m1) (current_task m1)"
        using n' by (intro tasks_ok_put [OF T]) simp_all
      then have "tasks_ok F ?T (task_queue m1) (t_next t)" using n' by (simp add: tasks_ok_def del: fun_upd_apply)
      then have "machine_typed F (m1\<lparr>tasks := ?T, current_task := t_next t\<rparr>)"
        using m1 by (simp add: machine_typed_def)
      moreover have "timer_callback regs m = Some ((t_esp u, t_ebp u), m1\<lparr>tasks := ?T, current_task := t_next t\<rparr>)"
        using True False t u unfolding timer_callback_def m1_def [symmetric] Let_def
        by (simp add: set_task_def del: fun_upd_apply)
      ultimately show ?thesis using fr(2) by simp
    qed
  qed
qed

section \<open>New tasks\<close>

lemma task_kmalloc_typed:
  assumes m: "well_typed F (fs m)" and k: "task_kmalloc sz m = (p, m')" and small: "unat sz \<le> 0xFFFE0000"
  shows "well_typed (if p = NULL then F else insert (p, unat sz) F) (fs m')" and "sound_step F (fs m) (fs m')"
    and "tasks m' = tasks m" "task_queue m' = task_queue m" "current_task m' = current_task m"
    and "p = NULL \<Longrightarrow> m' = m" and "\<exists>h. fs m' = (fs m)\<lparr>kh := h\<rparr>"
    and "p \<noteq> NULL \<Longrightarrow> p = frontier (kh (fs m)) \<and> p + unat sz \<le> frontier (kh (fs m'))"
proof -
  obtain f where f: "fs_kmalloc sz (fs m) = (p, f)" "m' = m\<lparr>fs := f\<rparr>"
    using k by (auto simp: task_kmalloc_def split: prod.splits)
  from well_typed_foreign [OF m f(1) small]
  show "well_typed (if p = NULL then F else insert (p, unat sz) F) (fs m')" "sound_step F (fs m) (fs m')"
    by (simp_all add: f(2) sound_step_def)
  show "tasks m' = tasks m" "task_queue m' = task_queue m" "current_task m' = current_task m"
    by (simp_all add: f(2))
  show "\<exists>h. fs m' = (fs m)\<lparr>kh := h\<rparr>" using f by (auto simp: fs_kmalloc_def split: prod.splits)
  show "p = frontier (kh (fs m)) \<and> p + unat sz \<le> frontier (kh (fs m'))" if "p \<noteq> NULL"
  proof -
    obtain h where "kmalloc (kh (fs m)) sz = (h, p)" "kh (fs m') = h" using f by (auto simp: fs_kmalloc_def split: prod.splits)
    then show ?thesis using kmalloc_block(1,2) [OF typed_heap_ok(1) [OF m] small _ that] by auto
  qed
  show "m' = m" if "p = NULL"
    using f that kmalloc_fail [OF typed_heap_ok(1) [OF m], of sz] by (auto simp: fs_kmalloc_def split: prod.splits)
qed

text \<open>The last part of \<^verbatim>\<open>create_task\<close>: the new task goes into the ring after its head, whose record is changed for
  that, or becomes the ring.\<close>

definition task_linked :: "addr \<Rightarrow> machine \<Rightarrow> machine \<Rightarrow> bool" where
  "task_linked p m m' \<longleftrightarrow>
     (\<forall>q. q \<noteq> p \<longrightarrow> tasks m' q =
       (if q = task_queue m \<and> q \<noteq> NULL then map_option (\<lambda>h. h\<lparr>t_next := p\<rparr>) (tasks m q) else tasks m q)) \<and>
     map_option t_next (tasks m' p) =
       (if task_queue m = NULL then Some p else map_option t_next (tasks m (task_queue m))) \<and>
     task_queue m' = (if task_queue m = NULL then p else task_queue m) \<and> current_task m' = current_task m"

lemma link_task_typed:
  assumes w: "well_typed G (fs m)" and T: "tasks_ok G (tasks m) (task_queue m) (current_task m)"
    and pG: "(p, unat SIZEOF_TASK) \<in> G" and fresh: "p \<notin> dom (tasks m)"
  shows "\<exists>m' t. (if task_queue m \<noteq> NULL
      then do { q \<leftarrow> tasks m (task_queue m);
                let m' = set_task p (new\<lparr>t_next := t_next q\<rparr>) m;
                q \<leftarrow> tasks m' (task_queue m');
                Some (t_id new, set_task (task_queue m') (q\<lparr>t_next := p\<rparr>) m') }
      else Some (t_id new, (set_task p (new\<lparr>t_next := p\<rparr>) m)\<lparr>task_queue := p\<rparr>)) = Some (t_id new, m') \<and>
    machine_typed G m' \<and> fs m' = fs m \<and> task_linked p m m' \<and>
    tasks m' p = Some t \<and> t_id t = t_id new \<and> t_esp t = t_esp new"
proof (cases "task_queue m = NULL")
  case True
  let ?T = "(tasks m)(p \<mapsto> new\<lparr>t_next := p\<rparr>)"
  let ?m = "(set_task p (new\<lparr>t_next := p\<rparr>) m)\<lparr>task_queue := p\<rparr>"
  have "tasks_ok G ?T (task_queue m) (current_task m)"
    by (rule tasks_ok_put [OF T pG]) (simp add: points_def)
  then have "machine_typed G ?m" using w by (auto simp: machine_typed_def set_task_def tasks_ok_def points_def)
  moreover have "task_linked p m ?m" using True by (simp add: task_linked_def set_task_def)
  ultimately show ?thesis using True
    by (intro exI [of _ ?m] exI [of _ "new\<lparr>t_next := p\<rparr>"]) (simp add: set_task_def)
next
  case False
  then obtain q where q: "tasks m (task_queue m) = Some q" using T by (auto simp: tasks_ok_def points_def)
  then have np: "task_queue m \<noteq> p" using fresh by auto
  let ?n = "new\<lparr>t_next := t_next q\<rparr>"
  let ?T = "(tasks m)(p \<mapsto> ?n)"
  let ?U = "?T(task_queue m \<mapsto> q\<lparr>t_next := p\<rparr>)"
  let ?m = "set_task (task_queue m) (q\<lparr>t_next := p\<rparr>) (set_task p ?n m)"
  have "points (t_next q) ?T" using tasks_ok_next [OF T q] by (auto simp: points_def)
  then have T4: "tasks_ok G ?T (task_queue m) (current_task m)" by (intro tasks_ok_put [OF T pG]) simp
  have "(task_queue m, unat SIZEOF_TASK) \<in> G" using T q by (auto simp: tasks_ok_def)
  then have "tasks_ok G ?U (task_queue m) (current_task m)"
    by (rule tasks_ok_put [OF T4]) (simp add: points_def)
  then have "machine_typed G ?m" using w by (simp add: machine_typed_def set_task_def)
  moreover have "task_linked p m ?m" using False q np by (simp add: task_linked_def set_task_def)
  ultimately show ?thesis using False q np
    by (intro exI [of _ ?m] exI [of _ ?n]) (simp add: set_task_def)
qed

text \<open>What \<^verbatim>\<open>create_task\<close> has done when it made a task: the record lies above all structs and blocks of before, the
  stack above the record, unless the heap had none left and it is the null page.\<close>

definition task_made :: "(addr \<times> nat) set \<Rightarrow> (addr \<times> nat) set \<Rightarrow> u32 \<Rightarrow> machine \<Rightarrow> machine \<Rightarrow> bool" where
  "task_made F G r m m' \<longleftrightarrow> (\<exists>p t stack. tasks m' p = Some t \<and> t_id t = r \<and> t_esp t = of_nat stack + 4096 \<and>
     (p, unat SIZEOF_TASK) \<in> G \<and> (\<forall>a \<in> struct_bytes F (fs m). a < p) \<and>
     (stack = NULL \<or> (stack, 4096) \<in> G \<and> p + unat SIZEOF_TASK \<le> stack) \<and> task_linked p m m')"

lemma create_task_typed:
  assumes "machine_typed F m"
  shows "\<exists>r m' G. create_task m = Some (r, m') \<and> F \<subseteq> G \<and> machine_typed G m' \<and> sound_step F (fs m) (fs m') \<and>
    (\<exists>h. fs m' = (fs m)\<lparr>kh := h\<rparr>) \<and> (m' = m \<and> r = 0 \<or> task_made F G r m m')"
proof (cases "scheduler_active (status m)")
  case False
  have "fs m = (fs m)\<lparr>kh := kh (fs m)\<rparr>" by simp
  then have "\<exists>h. fs m = (fs m)\<lparr>kh := h\<rparr>" by (rule exI)
  then show ?thesis using assms False by (intro exI [of _ 0] exI [of _ m] exI [of _ F]) (auto simp: create_task_def)
next
  case act: True
  have w: "well_typed F (fs m)" and T: "tasks_ok F (tasks m) (task_queue m) (current_task m)"
    using assms by (simp_all add: machine_typed_def)
  obtain p m1 where k1: "task_kmalloc SIZEOF_TASK m = (p, m1)" by (cases "task_kmalloc SIZEOF_TASK m")
  have small1: "unat SIZEOF_TASK \<le> 0xFFFE0000" by (simp add: SIZEOF_TASK_def)
  note t1 = task_kmalloc_typed [OF w k1 small1]
  show ?thesis
  proof (cases "p = NULL")
    case True
    then have "m1 = m" by (rule t1(6))
    then have "create_task m = Some (0, m)" "\<exists>h. fs m = (fs m)\<lparr>kh := h\<rparr>"
      using k1 act True t1(7) by (simp_all add: create_task_def)
    then show ?thesis using assms by auto
  next
    case nz: False
    define F1 where "F1 = insert (p, unat SIZEOF_TASK) F"
    define m2 where "m2 = m1\<lparr>next_task_id := next_task_id m1 + 1\<rparr>"
    have w2: "well_typed F1 (fs m2)" using t1(1) nz by (simp add: F1_def m2_def)
    obtain stack m3 where k2: "task_kmalloc 4096 m2 = (stack, m3)" by (cases "task_kmalloc 4096 m2")
    have small2: "unat (4096 :: u32) \<le> 0xFFFE0000" by simp
    note t2 = task_kmalloc_typed [OF w2 k2 small2]
    define G where "G = (if stack = NULL then F1 else insert (stack, 4096) F1)"
    have FG: "F \<subseteq> F1" "F1 \<subseteq> G" by (auto simp: F1_def G_def)
    have "unat (4096 :: u32) = 4096" by simp
    then have w3: "well_typed G (fs m3)" using t2(1) unfolding G_def by (simp only:)
    have snd: "sound_step F (fs m) (fs m3)"
      using sound_trans [OF FG(1) t1(2)] t2(2) by (simp add: m2_def)
    have fr: "tasks m3 = tasks m" "task_queue m3 = task_queue m" "current_task m3 = current_task m"
      using t1(3-5) t2(3-5) by (simp_all add: m2_def)
    have T3: "tasks_ok G (tasks m3) (task_queue m3) (current_task m3)"
      using tasks_ok_mono [OF T] FG fr by auto
    have pG: "(p, unat SIZEOF_TASK) \<in> G" using FG by (auto simp: F1_def)
    have place: "p = frontier (kh (fs m))" "p + unat SIZEOF_TASK \<le> frontier (kh (fs m1))" using t1(8) [OF nz] by simp_all
    have above: "q + n \<le> p" if "(q, n) \<in> F" for q n using foreign_below [OF w that] place(1) by simp
    have "p \<notin> dom (tasks m3)"
    proof
      assume "p \<in> dom (tasks m3)"
      then have "(p, unat SIZEOF_TASK) \<in> F" using T fr(1) by (simp add: tasks_ok_def)
      from above [OF this] show False by (simp add: SIZEOF_TASK_def)
    qed
    define new where "new = (fresh_task p m1)\<lparr>t_id := next_task_id m1, t_state := 1,
      t_esp := of_nat stack + 4096, t_ebp := of_nat stack + 4096\<rparr>"
    from link_task_typed [OF w3 T3 pG \<open>p \<notin> dom (tasks m3)\<close>, of new] obtain m' t where
      run: "(if task_queue m3 \<noteq> NULL
        then do { q \<leftarrow> tasks m3 (task_queue m3);
                  let m' = set_task p (new\<lparr>t_next := t_next q\<rparr>) m3;
                  q \<leftarrow> tasks m' (task_queue m');
                  Some (t_id new, set_task (task_queue m') (q\<lparr>t_next := p\<rparr>) m') }
        else Some (t_id new, (set_task p (new\<lparr>t_next := p\<rparr>) m3)\<lparr>task_queue := p\<rparr>)) = Some (t_id new, m')"
      and m': "machine_typed G m'" "fs m' = fs m3" "task_linked p m3 m'"
      and t: "tasks m' p = Some t" "t_id t = t_id new" "t_esp t = t_esp new" by blast
    have run': "create_task m = Some (t_id new, m')"
      using run act k1 k2 nz unfolding create_task_def m2_def new_def Let_def by simp
    have st: "stack = NULL \<or> (stack, 4096) \<in> G \<and> p + unat SIZEOF_TASK \<le> stack"
    proof (cases "stack = NULL")
      case False
      then have "stack = frontier (kh (fs m1))" using t2(8) by (simp add: m2_def)
      then show ?thesis using place(2) by (simp add: G_def)
    qed simp
    have "task_linked p m m'" using m'(3) by (simp add: task_linked_def fr)
    then have made: "task_made F G (t_id new) m m'" unfolding task_made_def
      by (intro exI [of _ p] exI [of _ t] exI [of _ stack]) (use t st pG struct_bytes_below(2) [OF w] place(1) in \<open>auto simp: new_def\<close>)
    obtain h1 h2 where "fs m1 = (fs m)\<lparr>kh := h1\<rparr>" "fs m3 = (fs m2)\<lparr>kh := h2\<rparr>" using t1(7) t2(7) by blast
    then have "\<exists>h. fs m' = (fs m)\<lparr>kh := h\<rparr>" by (auto simp: m2_def m'(2))
    then show ?thesis using run' FG snd m'(1,2) made
      by (intro exI [of _ "t_id new"] exI [of _ m'] exI [of _ G]) auto
  qed
qed

section \<open>Starting and stopping\<close>

lemma detect_memory_typed:
  assumes "well_typed F s"
  shows "well_typed F (s\<lparr>kh := (kh s)\<lparr>total_memory := n\<rparr>\<rparr>)"
  by (rule well_typed_heap [OF assms]) (use typed_heap_ok(1) [OF assms] in \<open>simp_all add: kheap_inv_def frontier_def\<close>)

lemma init_scheduler_typed:
  assumes m: "machine_typed F m"
  shows "\<exists>G. F \<subseteq> G \<and> machine_typed G (init_scheduler m) \<and> sound_step F (fs m) (fs (init_scheduler m))"
proof -
  have w: "well_typed F (fs m)" and T: "tasks_ok F (tasks m) (task_queue m) (current_task m)"
    using m by (simp_all add: machine_typed_def)
  obtain p m1 where k: "task_kmalloc SIZEOF_TASK m = (p, m1)" by (cases "task_kmalloc SIZEOF_TASK m")
  have small: "unat SIZEOF_TASK \<le> 0xFFFE0000" by (simp add: SIZEOF_TASK_def)
  note t1 = task_kmalloc_typed [OF w k small]
  show ?thesis
  proof (cases "p = NULL")
    case True
    then have "init_scheduler m = m1\<lparr>current_task := NULL\<rparr>" using k by (simp add: init_scheduler_def)
    moreover have "machine_typed F (m1\<lparr>current_task := NULL\<rparr>)"
      using t1 T True by (simp add: machine_typed_def tasks_ok_def points_def)
    ultimately show ?thesis using t1(2) by auto
  next
    case False
    let ?G = "insert (p, unat SIZEOF_TASK) F"
    obtain t where i: "fs (init_scheduler m) = fs m1" "tasks (init_scheduler m) = (tasks m1)(p \<mapsto> t)"
      "t_next t = p" "task_queue (init_scheduler m) = p" "current_task (init_scheduler m) = p"
      using k False by (simp add: init_scheduler_def set_task_def Let_def)
    have "tasks_ok ?G (tasks m1) (task_queue m1) (current_task m1)" using tasks_ok_mono [OF T] t1(3-5) by auto
    then have "tasks_ok ?G ((tasks m1)(p \<mapsto> t)) (task_queue m1) (current_task m1)"
      by (rule tasks_ok_put) (simp_all add: i(3) points_def)
    then have "machine_typed ?G (init_scheduler m)"
      using t1(1) False by (auto simp: machine_typed_def i tasks_ok_def points_def)
    then show ?thesis using t1(2) i(1) by auto
  qed
qed

text \<open>Halting the kernel frees the task at the head of the list; no block is given back, since no task ends at the
  frontier's last byte.\<close>

lemma kfree_inside:
  assumes "kheap_inv h" and "ptr + 2 \<le> frontier h"
  shows "kfree h ptr = h"
proof -
  have pos: "heap_base h + unat (heap_pos h) < 2 ^ 32" using assms(1) by (auto simp: kheap_inv_def)
  show ?thesis
  proof (cases "heap_pos h = 0")
    case True
    then have "ptr + 2 \<le> heap_base h" using assms(2) by (simp add: frontier_def)
    moreover have "heap_base h + (2 ^ 32 - 1) = (heap_base h - 1) + 2 ^ 32" "heap_base h - 1 < 2 ^ 32"
      using assms(1) pos by (auto simp: kheap_inv_def)
    then have "(heap_base h + (2 ^ 32 - 1)) mod 2 ^ 32 = heap_base h - 1" by (simp only: mod_add_self2 mod_less)
    ultimately show ?thesis using True unat_minus_1_u32 by (simp add: kfree_def)
  next
    case False
    then have "unat (heap_pos h - 1) = unat (heap_pos h) - 1" by (rule unat_minus_one)
    then show ?thesis using assms(2) pos by (simp add: kfree_def frontier_def)
  qed
qed

lemma shutdown_typed:
  assumes m: "machine_typed F m"
  shows "machine_typed F (kernel_shutdown m) \<and> fs (kernel_shutdown m) = fs m"
proof -
  have kf: "kfree (kh (fs m)) (task_queue m) = kh (fs m)" if "task_queue m \<noteq> NULL"
  proof (rule kfree_inside)
    show "kheap_inv (kh (fs m))" using m typed_heap_ok(1) by (auto simp: machine_typed_def)
    have "(task_queue m, unat SIZEOF_TASK) \<in> F" using m that by (auto simp: machine_typed_def tasks_ok_def points_def)
    then have "task_queue m + unat SIZEOF_TASK \<le> frontier (kh (fs m))"
      using m foreign_below by (auto simp: machine_typed_def)
    then show "task_queue m + 2 \<le> frontier (kh (fs m))" by (simp add: SIZEOF_TASK_def)
  qed
  have fr: "fs (kernel_shutdown m) = fs m" using kf by (simp add: kernel_shutdown_def say_def Let_def)
  moreover have "tasks (kernel_shutdown m) = tasks m" "task_queue (kernel_shutdown m) = task_queue m"
    "current_task (kernel_shutdown m) = current_task m"
    by (simp_all add: kernel_shutdown_def say_def Let_def)
  ultimately show ?thesis using m by (simp add: machine_typed_def)
qed

section \<open>Events of the kernel\<close>

text \<open>The functions of \<^verbatim>\<open>kernel/kernel.c\<close> and of the file system that work on the heap, each called as a function;
  what the processor does on the way into and out of the timer's is in theory \<open>IrqFrame\<close>. The shutdown halts for
  good, so a run has no event after it.\<close>

datatype kernel_event = Tick "u32 \<times> u32" | New_task | Start_scheduler | Fs_call fs_call | Shutdown

datatype course = Goes_on machine | Halts_for_good machine

fun event_do :: "kernel_event \<Rightarrow> machine \<Rightarrow> course option" where
  "event_do (Tick regs) m = do { (r, m) \<leftarrow> timer_callback regs m; Some (Goes_on m) }"
| "event_do New_task m = do { (r, m) \<leftarrow> create_task m; Some (Goes_on m) }"
| "event_do Start_scheduler m = Some (Goes_on (init_scheduler m))"
| "event_do (Fs_call c) m = do { f \<leftarrow> fs_do c (fs m); Some (Goes_on (m\<lparr>fs := f\<rparr>)) }"
| "event_do Shutdown m = Some (Halts_for_good (kernel_shutdown m))"

fun event_ok :: "kernel_event \<Rightarrow> machine \<Rightarrow> bool" where
  "event_ok (Fs_call c) m = call_ok c (fs m)"
| "event_ok e m = True"

inductive kernel_run :: "machine \<Rightarrow> kernel_event list \<Rightarrow> course \<Rightarrow> bool" where
  run_here: "kernel_run m [] (Goes_on m)"
| run_on: "event_ok e m \<Longrightarrow> event_do e m = Some (Goes_on m') \<Longrightarrow> kernel_run m' es x \<Longrightarrow> kernel_run m (e # es) x"
| run_end: "event_ok e m \<Longrightarrow> event_do e m = Some (Halts_for_good m') \<Longrightarrow> kernel_run m [e] (Halts_for_good m')"

inductive_cases kernel_run_NilE: "kernel_run m [] x"
inductive_cases kernel_run_ConsE: "kernel_run m (e # es) x"

text \<open>The machine is whole, and halted for good only with interrupts off.\<close>

fun course_ok :: "(addr \<times> nat) set \<Rightarrow> course \<Rightarrow> bool" where
  "course_ok F (Goes_on m) = machine_typed F m"
| "course_ok F (Halts_for_good m) \<longleftrightarrow> machine_typed F m \<and> \<not> int_flag (irq m) \<and> \<not> scheduler_active (status m)"

text \<open>An event permitted in a well-typed machine has a result, a well-typed machine again.\<close>

lemma event_sound:
  assumes m: "machine_typed F m" and ok: "event_ok e m"
  shows "\<exists>x G. event_do e m = Some x \<and> course_ok G x"
proof (cases e)
  case (Tick regs)
  from timer_typed [OF m, of regs] obtain r m' where
    "timer_callback regs m = Some (r, m')" "machine_typed F m'" by blast
  then show ?thesis using Tick by (intro exI [of _ "Goes_on m'"] exI [of _ F]) simp
next
  case New_task
  from create_task_typed [OF m] obtain r m' G where "create_task m = Some (r, m')" "machine_typed G m'" by blast
  then show ?thesis using New_task by (intro exI [of _ "Goes_on m'"] exI [of _ G]) simp
next
  case Start_scheduler
  from init_scheduler_typed [OF m] obtain G where "machine_typed G (init_scheduler m)" by blast
  then show ?thesis using Start_scheduler by (intro exI [of _ "Goes_on (init_scheduler m)"] exI [of _ G]) simp
next
  case Shutdown
  have "\<not> int_flag (irq (kernel_shutdown m))" "\<not> scheduler_active (status (kernel_shutdown m))"
    by (simp_all add: kernel_shutdown_def say_def disable_interrupts_def Let_def)
  then show ?thesis using Shutdown shutdown_typed [OF m]
    by (intro exI [of _ "Halts_for_good (kernel_shutdown m)"] exI [of _ F]) simp
next
  case (Fs_call c)
  then obtain f where f: "fs_do c (fs m) = Some f" "well_typed (owned c (fs m) F) f"
    using call_sound [of F "fs m" c] m ok by (auto simp: machine_typed_def)
  have "tasks_ok (owned c (fs m) F) (tasks m) (task_queue m) (current_task m)"
    using m tasks_ok_mono owned_grows by (auto simp: machine_typed_def)
  then have "machine_typed (owned c (fs m) F) (m\<lparr>fs := f\<rparr>)" using f(2) by (simp add: machine_typed_def)
  then show ?thesis using Fs_call f(1)
    by (intro exI [of _ "Goes_on (m\<lparr>fs := f\<rparr>)"] exI [of _ "owned c (fs m) F"]) simp
qed

lemma run_sound: "kernel_run m es x \<Longrightarrow> machine_typed F m \<Longrightarrow> \<exists>G. course_ok G x"
proof (induction arbitrary: F rule: kernel_run.induct)
  case (run_here m)
  then show ?case by auto
next
  case (run_on e m m1 es x)
  from event_sound [OF run_on.prems run_on.hyps(1)] run_on.hyps(2) obtain G where "machine_typed G m1" by auto
  then show ?case by (rule run_on.IH)
next
  case (run_end e m m')
  from event_sound [OF run_end.prems run_end.hyps(1)] run_end.hyps(2) show ?case by auto
qed

lemma machine_typed_init:
  assumes "kheap_inv h" and "valid b (heap_base h) 0x10000"
  shows "machine_typed {} (machine_init (fs_init h b) t spk)"
  using well_typed_init [OF assms] by (simp add: machine_typed_def machine_init_def tasks_ok_def points_def)

end
