(* ===== verification/HeapProps.thy ===== *)
theory HeapProps
  imports MachineTyped BootFacts FsProps
begin

text \<open>
  The properties of the heap as the C program sees it, with typed structs: the file system's calls and
  the kernel's events keep every struct, file and task in a place of its own.
\<close>

section \<open>The boot\<close>

lemma fs_boot_typed:
  assumes s: "well_typed F s" and room: "2571 \<le> heap_space s" and b: "fs_boot s = Some (r, s')"
  shows "well_typed F s' \<and> sound_step F s s'"
proof -
  have r1: "315 \<le> heap_space s" using room by simp
  from vfs_initialize_typed [OF s r1] obtain t where
    t: "vfs_initialize s = Some t" and a1: "advances F 315 s t" by blast
  have r2: "1940 \<le> heap_space t" using a1 room by (simp add: advances_def)
  from memfs_initialize_typed [OF advances_typed [OF a1] r2] obtain u where
    u: "memfs_initialize t = Some u" and a2: "advances F 1926 t u" by blast
  from vfs_mount_typed [OF advances_typed [OF a2], of "''/''" "''memfs''"] obtain q v where
    v: "vfs_mount ''/'' ''memfs'' u = Some (q, v)" and a3: "advances F 315 u v" by blast
  have "s' = v" using b t u v by (simp add: fs_boot_def)
  then show ?thesis using advances_sound [OF advances_trans [OF advances_trans [OF a1 a2] a3]] by simp
qed

lemma kernel_init_typed:
  assumes m: "machine_typed F m"
  shows "\<exists>G. machine_typed G (kernel_init ka ta ia m)"
proof -
  let ?m = "init_enhanced_interrupts ka ta ia (init_memory_manager m)"
  have "fs ?m = (fs m)\<lparr>kh := (kh (fs m))\<lparr>total_memory := 64 * 1024 * 1024\<rparr>\<rparr>" "tasks ?m = tasks m"
    "task_queue ?m = task_queue m" "current_task ?m = current_task m"
    by (simp_all add: init_enhanced_interrupts_def init_memory_manager_def detect_memory_def Let_def)
  then have "machine_typed F ?m" using m detect_memory_typed [of F "fs m"] by (simp add: machine_typed_def)
  from init_scheduler_typed [OF this] show ?thesis unfolding kernel_init_def by blast
qed

lemma kmain_boot_typed:
  assumes m: "machine_typed F m" and room: "unat (heap_pos (kh (fs m))) + 5150 \<le> 0x10000"
  shows "\<exists>m' G. kmain_boot ka ta ia da buf m = Some m' \<and> machine_typed G m' \<and>
    current_task m' \<in> dom (tasks m') \<and> booted (fs m')"
proof -
  let ?m0 = "m\<lparr>screen := terminal_initialize (screen m)\<rparr>"
  let ?m1 = "kernel_init ka ta ia ?m0"
  have m0: "machine_typed F ?m0" using m by (simp add: machine_typed_def)
  then obtain G where G: "machine_typed G ?m1" using kernel_init_typed by blast
  have ok: "heap_ok (fs m)" using m typed_heap_ok by (auto simp: machine_typed_def heap_ok_def)
  have le: "unat (heap_pos (kh (fs m))) + 5147 \<le> 0x10000" using room by simp
  obtain g g' where b: "kmain_boot ka ta ia da buf m =
      Some ((say selftest_text (say (ln ''BasedOS Kernel v0.1'') ?m1))\<lparr>fs := g'\<rparr>)"
    "fs_boot (fs ?m1) = Some (0, g)" "fs_boot g = Some (0, g')" "booted g'"
    "dom (bytes g') = dom (bytes (fs m))" "unat (heap_pos (kh g)) \<le> unat (heap_pos (kh (fs m))) + 2579"
    by (rule kmain_boot_steps [OF ok le])
  have pre: "kheap_inv (kh (fs ?m0))" "unat (heap_pos (kh (fs ?m0))) + 20 \<le> 0x10000"
    using ok room by (simp_all add: heap_ok_def)
  have p1: "unat (heap_pos (kh (fs ?m1))) \<le> unat (heap_pos (kh (fs m))) + 23 \<and> current_task ?m1 \<in> dom (tasks ?m1)"
    by (rule kernel_init_facts [OF pre, of ka ta ia]) auto
  have "well_typed G (fs ?m1)" using G by (simp add: machine_typed_def)
  moreover have "2571 \<le> heap_space (fs ?m1)" using conjunct1 [OF p1] room unfolding heap_space_def by linarith
  ultimately have g: "well_typed G g" using fs_boot_typed b(2) by blast
  moreover have "2571 \<le> heap_space g" using b(6) room by (simp add: heap_space_def)
  ultimately have "well_typed G g'" using fs_boot_typed b(3) by blast
  then have "machine_typed G ((say selftest_text (say (ln ''BasedOS Kernel v0.1'') ?m1))\<lparr>fs := g'\<rparr>)"
    using G by (simp add: machine_typed_def) (simp add: say_def)
  then show ?thesis using b(1,4) p1 by (auto simp: say_def)
qed

section \<open>Properties\<close>

definition blank_screen :: terminal where
  "blank_screen = \<lparr>video = (\<lambda>_. 0), cursor_x = 0, cursor_y = 0, text_attribute = 7, ports = []\<rparr>"

text \<open>C4: Typed memory for the file system. In a heap where every struct and every file's contents have a piece to
  themselves and every pointer is null or leads to a struct of its type, any sequence of calls of
  \<^verbatim>\<open>fs/vfs.c\<close> and \<^verbatim>\<open>fs/memfs.c\<close> and of \<^verbatim>\<open>kmalloc\<close> made under the calls' conditions ends in such a
  heap again: no byte of a struct, or of a block that another client owns, is written, no struct is
  lost, and each further permitted call returns. This is what allows structs to be modelled as
  typed cells beside the bytes.\<close>

theorem heap_stays_typed:
  assumes "well_typed F s" and "fs_calls F s cs G u"
  shows "well_typed G u \<and> F \<subseteq> G \<and> dom (fs_nodes s) \<subseteq> dom (fs_nodes u) \<and> dom (inodes s) \<subseteq> dom (inodes u) \<and>
    (\<forall>a \<in> struct_bytes F s. bytes u a = bytes s a) \<and> (\<forall>c. call_ok c u \<longrightarrow> fs_do c u \<noteq> None)"
  using calls_sound [OF assms(2,1)] call_sound [of G u]
  by (auto simp: sound_step_def keeps_structs_def) (metis option.distinct(1))

lemma heap_stays_typed_witness:
  "\<exists>G u. fs_calls {} fresh_fs [Vfs_initialize, Memfs_initialize, Kmalloc 4096, Vfs_mount ''/'' ''memfs''] G u \<and>
    well_typed G u \<and> (\<forall>c. call_ok c u \<longrightarrow> fs_do c u \<noteq> None)"
proof -
  have w: "well_typed {} fresh_fs" unfolding fresh_fs_def
    by (rule well_typed_init) (use fresh_heap_ok in \<open>simp_all add: heap_ok_def fresh_fs_def fs_init_def\<close>)
  have sp: "heap_space fresh_fs = 0x10000" by (simp add: heap_space_def fresh_pos)
  have r1: "315 \<le> heap_space fresh_fs" by (simp add: sp)
  from vfs_initialize_typed [OF w r1] obtain t where
    t: "vfs_initialize fresh_fs = Some t" and a1: "advances {} 315 fresh_fs t" by blast
  have r2: "1940 \<le> heap_space t" using a1 by (simp add: advances_def sp)
  from memfs_initialize_typed [OF advances_typed [OF a1] r2] obtain u where
    u: "memfs_initialize t = Some u" and a2: "advances {} 1926 t u" by blast
  have ok: "call_ok (Kmalloc 4096) u" by simp
  obtain v where v: "fs_do (Kmalloc 4096) u = Some v" by simp
  let ?F = "owned (Kmalloc 4096) u {}"
  have wv: "well_typed ?F v" using call_sound [OF advances_typed [OF a2] ok] v by auto
  obtain x where x: "fs_do (Vfs_mount ''/'' ''memfs'') v = Some x"
    using call_sound [OF wv, of "Vfs_mount ''/'' ''memfs''"] by auto
  have "fs_calls {} fresh_fs [Vfs_initialize, Memfs_initialize, Kmalloc 4096, Vfs_mount ''/'' ''memfs''] ?F x"
    by (intro more_calls [where t = t] more_calls [where t = u] more_calls [where t = v]
        more_calls [where t = x]) (use r1 r2 t u v x no_calls in simp_all)
  then show ?thesis using heap_stays_typed [OF w] by blast
qed

text \<open>C6: The kernel's functions never leave their memory. From power-up, with room for the boot's 5150 bytes,
  \<^verbatim>\<open>kmain\<close>'s initialisation returns with a running task. After any sequence of calls, as functions, of
  \<^verbatim>\<open>timer_callback\<close> with any registers, of \<^verbatim>\<open>create_task\<close>, of \<^verbatim>\<open>init_scheduler\<close> and of permitted calls of the
  file system, the task list and the file system's structs are still whole and apart, and no further permitted
  one of them follows a pointer or writes outside. Such a sequence may end with \<^verbatim>\<open>kernel_shutdown\<close>, from which there
  is no return: the memory is whole then too, the scheduler is stopped and interrupts are off. Nothing is said here of
  how the processor enters \<^verbatim>\<open>timer_callback\<close> and leaves it.\<close>

theorem kernel_events_safe:
  assumes "kheap_inv h" and "valid b (heap_base h) 0x10000" and "unat (heap_pos h) + 5150 \<le> 0x10000"
  shows "\<exists>m. kmain_boot ka ta ia da buf (machine_init (fs_init h b) t spk) = Some m \<and>
    current_task m \<in> dom (tasks m) \<and>
    (\<forall>es x. kernel_run m es x \<longrightarrow> (case x of
       Goes_on m' \<Rightarrow> (\<exists>F. machine_typed F m') \<and> (\<forall>e. event_ok e m' \<longrightarrow> event_do e m' \<noteq> None)
     | Halts_for_good m' \<Rightarrow> (\<exists>F. machine_typed F m') \<and> \<not> int_flag (irq m') \<and> \<not> scheduler_active (status m')))"
proof -
  have "machine_typed {} (machine_init (fs_init h b) t spk)" by (rule machine_typed_init [OF assms(1,2)])
  moreover have "unat (heap_pos (kh (fs (machine_init (fs_init h b) t spk)))) + 5150 \<le> 0x10000"
    using assms(3) by (simp add: machine_init_def fs_init_def)
  ultimately obtain m G where m: "kmain_boot ka ta ia da buf (machine_init (fs_init h b) t spk) = Some m"
    "machine_typed G m" "current_task m \<in> dom (tasks m)" using kmain_boot_typed by blast
  have "case x of
       Goes_on m' \<Rightarrow> (\<exists>F. machine_typed F m') \<and> (\<forall>e. event_ok e m' \<longrightarrow> event_do e m' \<noteq> None)
     | Halts_for_good m' \<Rightarrow> (\<exists>F. machine_typed F m') \<and> \<not> int_flag (irq m') \<and> \<not> scheduler_active (status m')"
    if "kernel_run m es x" for es x
  proof -
    from run_sound [OF that m(2)] obtain F where F: "course_ok F x" by blast
    show ?thesis
    proof (cases x)
      case (Goes_on m')
      then have "machine_typed F m'" using F by simp
      moreover have "event_do e m' \<noteq> None" if "event_ok e m'" for e using event_sound [OF \<open>machine_typed F m'\<close> that] by auto
      ultimately show ?thesis using Goes_on by auto
    next
      case (Halts_for_good m')
      then show ?thesis using F by auto
    qed
  qed
  with m show ?thesis by blast
qed

lemma kernel_events_safe_witness:
  "\<exists>m. kmain_boot 0 0 0 0x5000 0x6000 (machine_init (fs_init (heap_init 0x100000) ram2m) blank_screen 0) = Some m \<and>
    current_task m \<in> dom (tasks m)"
proof -
  have "kheap_inv (heap_init 0x100000)" "valid ram2m (heap_base (heap_init 0x100000)) 0x10000"
    "unat (heap_pos (heap_init 0x100000)) + 5150 \<le> 0x10000"
    by (simp_all add: heap_init_def kheap_inv_def valid_ram2m)
  from kernel_events_safe [OF this] show ?thesis by blast
qed

text \<open>C38: A new task gets memory of its own. In such a machine \<^verbatim>\<open>create_task\<close> always returns. Either it reports
  0 and changes nothing, or there is a new task with the reported number: its record lies above every struct
  and every block handed out before, and its stack is a 4096-byte block above the record, or the null page, since a failed request for
  the stack is not noticed. Of the records of the other tasks only the queue head's is changed, and of that only
  the successor, which is the new task now, while the new task's is the head's old one; a new task without a queue
  becomes the queue. The nodes, the inodes, the descriptors and all bytes of the file system are as before.\<close>

theorem create_task_memory:
  assumes "machine_typed F m"
  shows "\<exists>r m' G. create_task m = Some (r, m') \<and> machine_typed G m' \<and> F \<subseteq> G \<and> (\<exists>h. fs m' = (fs m)\<lparr>kh := h\<rparr>) \<and>
    (m' = m \<and> r = 0 \<or> (\<exists>p t stack. tasks m' p = Some t \<and> t_id t = r \<and> t_esp t = of_nat stack + 4096 \<and>
       (p, unat SIZEOF_TASK) \<in> G \<and> (\<forall>a \<in> struct_bytes F (fs m). a < p) \<and>
       (stack = NULL \<or> (stack, 4096) \<in> G \<and> p + unat SIZEOF_TASK \<le> stack) \<and>
       (\<forall>q. q \<noteq> p \<longrightarrow> tasks m' q =
         (if q = task_queue m \<and> q \<noteq> NULL then map_option (\<lambda>head. head\<lparr>t_next := p\<rparr>) (tasks m q) else tasks m q)) \<and>
       Some (t_next t) = (if task_queue m = NULL then Some p else map_option t_next (tasks m (task_queue m))) \<and>
       task_queue m' = (if task_queue m = NULL then p else task_queue m)))"
proof -
  obtain r m' G where c: "create_task m = Some (r, m')" "F \<subseteq> G" "machine_typed G m'" "\<exists>h. fs m' = (fs m)\<lparr>kh := h\<rparr>"
    "m' = m \<and> r = 0 \<or> task_made F G r m m'" using create_task_typed [OF assms] by blast
  have made: "m' = m \<and> r = 0 \<or> (\<exists>p t stack. tasks m' p = Some t \<and> t_id t = r \<and> t_esp t = of_nat stack + 4096 \<and>
       (p, unat SIZEOF_TASK) \<in> G \<and> (\<forall>a \<in> struct_bytes F (fs m). a < p) \<and>
       (stack = NULL \<or> (stack, 4096) \<in> G \<and> p + unat SIZEOF_TASK \<le> stack) \<and>
       (\<forall>q. q \<noteq> p \<longrightarrow> tasks m' q =
         (if q = task_queue m \<and> q \<noteq> NULL then map_option (\<lambda>head. head\<lparr>t_next := p\<rparr>) (tasks m q) else tasks m q)) \<and>
       Some (t_next t) = (if task_queue m = NULL then Some p else map_option t_next (tasks m (task_queue m))) \<and>
       task_queue m' = (if task_queue m = NULL then p else task_queue m))"
    using c(5)
  proof
    assume "task_made F G r m m'"
    then obtain p t stack where t: "tasks m' p = Some t" "t_id t = r" "t_esp t = of_nat stack + 4096"
      "(p, unat SIZEOF_TASK) \<in> G" "\<forall>a \<in> struct_bytes F (fs m). a < p"
      "stack = NULL \<or> (stack, 4096) \<in> G \<and> p + unat SIZEOF_TASK \<le> stack" "task_linked p m m'"
      unfolding task_made_def by blast
    note l = t(7) [unfolded task_linked_def t(1) option.map]
    show ?thesis
      by (rule disjI2, rule exI [of _ p], rule exI [of _ t], rule exI [of _ stack]) (intro conjI t(1-6); use l in blast)
  qed (rule disjI1)
  show ?thesis
    by (rule exI [of _ r], rule exI [of _ m'], rule exI [of _ G]) (intro conjI c(1,2,3,4) made)
qed

lemma create_task_memory_witness:
  "\<exists>r m' G. create_task (init_scheduler (machine_init fresh_fs blank_screen 0)) = Some (r, m') \<and> machine_typed G m'"
proof -
  have "machine_typed {} (machine_init fresh_fs blank_screen 0)" unfolding fresh_fs_def
    by (rule machine_typed_init) (use fresh_heap_ok in \<open>simp_all add: heap_ok_def fresh_fs_def fs_init_def\<close>)
  then obtain F where "machine_typed F (init_scheduler (machine_init fresh_fs blank_screen 0))"
    using init_scheduler_typed by blast
  from create_task_memory [OF this] show ?thesis by blast
qed

end
