(* ===== verification/MountedFacts.thy ===== *)
theory MountedFacts
  imports SystemFacts FsTyped
begin

text \<open>
  The file commands of the shell over a file system whose root is a directory of the memory file
  system, which is what the mount is meant to achieve: opening a file of the root directory through a
  descriptor, and the loops of \<^verbatim>\<open>ls\<close>, \<^verbatim>\<open>cat\<close> and \<^verbatim>\<open>write\<close>.
\<close>

section \<open>A mounted root\<close>

text \<open>The global root is a directory node of the driver, with the entries \<open>cs\<close>.\<close>

definition mounted :: "fs_state \<Rightarrow> (addr \<times> string) list \<Rightarrow> bool" where
  "mounted f cs \<longleftrightarrow> fs_root f \<noteq> NULL \<and>
     (\<exists>n i. fs_nodes f (fs_root f) = Some n \<and> n_flags n = FS_DIRECTORY \<and>
       n_finddir n = Some Memfs \<and> n_readdir n = Some Memfs \<and>
       inodes f (n_specific n) = Some i \<and> i_is_dir i \<noteq> 0 \<and> siblings (inodes f) (i_children i) cs)"

text \<open>The node that a lookup of the file at inode \<open>c\<close> fills in.\<close>

definition looked_up :: "addr \<Rightarrow> string \<Rightarrow> memfs_inode \<Rightarrow> fs_node" where
  "looked_up c nm j = zero_node\<lparr>n_name := nm, n_flags := (if i_is_dir j \<noteq> 0 then FS_DIRECTORY else FS_FILE),
     n_inode := of_nat c, n_length := i_size j, n_read := Some Memfs, n_write := Some Memfs,
     n_open := Some Memfs, n_close := Some Memfs, n_readdir := (if i_is_dir j \<noteq> 0 then Some Memfs else None),
     n_finddir := (if i_is_dir j \<noteq> 0 then Some Memfs else None), n_specific := c\<rparr>"

text \<open>A file of the root directory: its inode and its name, a single component of a path.\<close>

definition root_file :: "fs_state \<Rightarrow> (addr \<times> string) list \<Rightarrow> addr \<Rightarrow> string \<Rightarrow> bool" where
  "root_file f cs c nm \<longleftrightarrow> mounted f cs \<and> c \<noteq> NULL \<and> lookup_name cs nm = c \<and> nm \<noteq> [] \<and>
     NUL \<notin> set nm \<and> CHR ''/'' \<notin> set nm \<and> map_option i_is_dir (inodes f c) = Some 0"

lemma lookup_entry:
  "siblings m p cs \<Longrightarrow> lookup_name cs nm = c \<Longrightarrow> c \<noteq> NULL \<Longrightarrow>
   \<exists>i. m c = Some i \<and> i_name i = Some nm \<and> length nm < 256"
proof (induction m p cs rule: siblings.induct)
  case (2 m p d nm' cs)
  then obtain i where i: "m d = Some i" "i_name i = Some nm'" "siblings m (i_next i) cs" "length nm' < 256"
    by (auto split: option.splits)
  show ?case
  proof (cases "nm' = nm")
    case True
    then show ?thesis using i 2(3) by (auto simp: lookup_name_def)
  next
    case False
    then have "lookup_name cs nm = c" using 2(3) by (simp add: lookup_name_def)
    then show ?thesis using 2(1) i 2(2,4) by blast
  qed
qed (simp add: lookup_name_def)

lemma component_single: "CHR ''/'' \<notin> set nm \<Longrightarrow> nm \<noteq> [] \<Longrightarrow> components nm = [nm]"
proof -
  assume a: "CHR ''/'' \<notin> set nm" "nm \<noteq> []"
  have "\<forall>c \<in> set nm. c \<noteq> CHR ''/''" using a(1) by auto
  then have "takeWhile (\<lambda>c. c \<noteq> CHR ''/'') nm = nm" "dropWhile (\<lambda>c. c \<noteq> CHR ''/'') nm = []"
    by (simp_all add: takeWhile_eq_all_conv dropWhile_eq_Nil_conv)
  then have "component nm = nm" "next_path nm = []"
    unfolding component_def next_path_def by (simp_all only: list.case)
  then show ?thesis using a(2) by (simp add: components.simps)
qed

section \<open>Opening a file\<close>

lemma mounted_finddir:
  assumes f: "root_file f cs c nm" and h: "kheap_inv (kh f)" and room: "315 \<le> heap_space f"
  shows "\<exists>h j. inodes f c = Some j \<and> i_is_dir j = 0 \<and>
    vfs_finddir (fs_root f) nm f = Some (frontier (kh f), set_node (frontier (kh f)) (looked_up c nm j) (f\<lparr>kh := h\<rparr>)) \<and>
    kheap_inv h \<and> heap_base h = heap_base (kh f) \<and> frontier (kh f) + 312 \<le> frontier h \<and>
    unat (heap_pos h) \<le> unat (heap_pos (kh f)) + 315 \<and> frontier (kh f) \<noteq> NULL"
proof -
  obtain n i where n: "fs_nodes f (fs_root f) = Some n" "n_flags n = FS_DIRECTORY" "n_finddir n = Some Memfs"
    "inodes f (n_specific n) = Some i" "i_is_dir i \<noteq> 0" "siblings (inodes f) (i_children i) cs"
    using f by (auto simp: root_file_def mounted_def)
  have l: "lookup_name cs nm = c" "c \<noteq> NULL" "NUL \<notin> set nm" using f by (auto simp: root_file_def)
  obtain j where j: "inodes f c = Some j" "i_name j = Some nm" "length nm < 256"
    using lookup_entry [OF n(6) l(1,2)] by blast
  have plain: "i_is_dir j = 0" using f j(1) by (simp add: root_file_def)
  have "unat (heap_pos (kh f)) + unat SIZEOF_FS_NODE \<le> 0x10000"
    using room by (simp add: heap_space_def SIZEOF_FS_NODE_def)
  from fs_kmalloc_fits [OF h this] obtain h' where
    k: "fs_kmalloc SIZEOF_FS_NODE f = (frontier (kh f), f\<lparr>kh := h'\<rparr>)" "frontier (kh f) \<noteq> NULL" and
    h': "kheap_inv h'" "heap_base h' = heap_base (kh f)" "frontier (kh f) + 312 \<le> frontier h'"
      "unat (heap_pos h') \<le> unat (heap_pos (kh f)) + 315"
    by (auto simp: SIZEOF_FS_NODE_def)
  have "find_child (inodes f) (i_children i) nm = Some c" using find_child_siblings [OF n(6) l(3)] l(1) by simp
  then have "memfs_finddir n nm f = Some (frontier (kh f), set_node (frontier (kh f)) (looked_up c nm j) (f\<lparr>kh := h'\<rparr>))"
    using n(4,5) j k l(2)
    by (simp add: memfs_finddir_def new_node_def set_node_def name256_def looked_up_def Let_def)
  then show ?thesis using n(1,2,3) j(1) plain k(2) h'
    by (intro exI [of _ h'] exI [of _ j]) (simp add: vfs_finddir_def FS_DIRECTORY_def)
qed

text \<open>The state after opening: a new node at the old frontier, in the first free slot.\<close>

definition opened :: "nat \<Rightarrow> u32 \<Rightarrow> addr \<Rightarrow> string \<Rightarrow> memfs_inode \<Rightarrow> kheap \<Rightarrow> fs_state \<Rightarrow> fs_state" where
  "opened k flags c nm j h f = set_fd k \<lparr>fd_node = frontier (kh f), fd_pos = 0, fd_flags = flags\<rparr>
     (set_node (frontier (kh f)) (looked_up c nm j) (f\<lparr>kh := h\<rparr>))"

lemma opened_simps [simp]:
  "kh (opened k flags c nm j h f) = h" "bytes (opened k flags c nm j h f) = bytes f"
  "inodes (opened k flags c nm j h f) = inodes f"
  "fs_nodes (opened k flags c nm j h f) = (fs_nodes f)(frontier (kh f) \<mapsto> looked_up c nm j)"
  "file_descriptors (opened k flags c nm j h f) =
     (file_descriptors f)[k := \<lparr>fd_node = frontier (kh f), fd_pos = 0, fd_flags = flags\<rparr>]"
  by (simp_all add: opened_def set_fd_def set_node_def)

lemma looked_up_simps [simp]:
  "n_read (looked_up c nm j) = Some Memfs" "n_write (looked_up c nm j) = Some Memfs"
  "n_open (looked_up c nm j) = Some Memfs" "n_close (looked_up c nm j) = Some Memfs"
  "n_specific (looked_up c nm j) = c"
  by (simp_all add: looked_up_def)

lemma mounted_open:
  assumes f: "root_file f cs c nm" and inv: "memfs_inv f" and room: "315 \<le> heap_space f"
    and slot: "free_slot (file_descriptors f) 0 = Some k"
  shows "\<exists>h j. inodes f c = Some j \<and> i_is_dir j = 0 \<and>
    open_fd (CHR ''/'' # nm) flags f = Some (int k, opened k flags c nm j h f) \<and>
    memfs_inv (opened k flags c nm j h f) \<and> heap_base h = heap_base (kh f) \<and> frontier (kh f) \<noteq> NULL \<and>
    heap_space f \<le> heap_space (opened k flags c nm j h f) + 315 \<and>
    heap_space (opened k flags c nm j h f) + 312 \<le> heap_space f"
proof -
  have hv: "kheap_inv (kh f)" using inv by (simp add: memfs_inv_def heap_ok_def)
  from mounted_finddir [OF f hv room] obtain h j where
    j: "inodes f c = Some j" "i_is_dir j = 0"
      "vfs_finddir (fs_root f) nm f = Some (frontier (kh f), set_node (frontier (kh f)) (looked_up c nm j) (f\<lparr>kh := h\<rparr>))" and
    h: "kheap_inv h" "heap_base h = heap_base (kh f)" "frontier (kh f) + 312 \<le> frontier h"
      "unat (heap_pos h) \<le> unat (heap_pos (kh f)) + 315" "frontier (kh f) \<noteq> NULL" by blast
  have nm: "nm \<noteq> []" "CHR ''/'' \<notin> set nm" "length nm < 256"
  proof -
    show "nm \<noteq> []" "CHR ''/'' \<notin> set nm" using f by (simp_all add: root_file_def)
    obtain p where "siblings (inodes f) p cs" using f unfolding root_file_def mounted_def by blast
    moreover have "lookup_name cs nm = c" "c \<noteq> NULL" using f by (simp_all add: root_file_def)
    ultimately show "length nm < 256" using lookup_entry [of "inodes f" p cs nm c] by auto
  qed
  let ?o = "opened k flags c nm j h f"
  have "vfs_open (CHR ''/'' # nm) flags f = Some (frontier (kh f), set_node (frontier (kh f)) (looked_up c nm j) (f\<lparr>kh := h\<rparr>))"
    using nm h(5) j(3) by (simp add: vfs_open_def open_loop_walk component_single)
  then have "open_fd (CHR ''/'' # nm) flags f = Some (int k, ?o)"
    using slot h(5) by (simp add: open_fd_def opened_def set_fd_def set_node_def Let_def)
  moreover have "frontier (kh f) \<le> frontier h" using h(3) by simp
  then have "memfs_inv ?o" by (intro memfs_inv_heap [OF inv h(1,2)]) simp_all
  moreover have "heap_space ?o + 312 \<le> heap_space f"
    using h(1,2,3) room by (simp add: heap_space_def frontier_def kheap_inv_def)
  ultimately show ?thesis using j(1,2) h by (intro exI [of _ h] exI [of _ j]) (simp add: heap_space_def)
qed

lemma free_slot_bound:
  assumes "fd_inv f" and "free_slot (file_descriptors f) 0 = Some k"
  shows "k < length (file_descriptors f)" and "k < 64"
  using assms by (auto simp: free_slot_spec fd_inv_def MAX_FILE_DESCRIPTORS_def)

text \<open>Closing the descriptor again gives the table back.\<close>

lemma close_opened:
  assumes "fd_node (file_descriptors g ! k) \<noteq> NULL" and "k < 64" and "k < length (file_descriptors g)"
    and "fs_nodes g (fd_node (file_descriptors g ! k)) \<noteq> None"
  shows "close_fd (int k) g = Some (0, set_fd k zero_fd g)"
proof -
  have "\<not> bad_fd (int k) g" using assms by (simp add: bad_fd_def MAX_FILE_DESCRIPTORS_def)
  then show ?thesis using assms(4) by (auto simp: close_fd_def zero_fd_def Let_def split: option.splits)
qed

section \<open>Listing\<close>

text \<open>The lines \<^verbatim>\<open>ls\<close> prints, one for each entry from a position on.\<close>

definition ls_lines :: "string list \<Rightarrow> string" where
  "ls_lines names = concat (map (\<lambda>nm. ''  '' @ ln nm) names)"

definition set_dirent :: "dirent \<Rightarrow> sys \<Rightarrow> sys" where
  "set_dirent e s = with_fs ((fs (mach s))\<lparr>dir_entry := e\<rparr>) s"

lemma mounted_readdir:
  assumes "mounted f cs" and "unat i \<le> length cs"
  shows "vfs_readdir (fs_root f) i f =
    (if unat i < length cs
     then Some (Some \<lparr>d_ino = of_nat (fst (cs ! unat i)), d_name = snd (cs ! unat i)\<rparr>,
       f\<lparr>dir_entry := \<lparr>d_ino = of_nat (fst (cs ! unat i)), d_name = snd (cs ! unat i)\<rparr>\<rparr>)
     else Some (None, f))"
proof -
  obtain n j where n: "fs_nodes f (fs_root f) = Some n" "n_readdir n = Some Memfs"
    "inodes f (n_specific n) = Some j" "i_is_dir j \<noteq> 0" "siblings (inodes f) (i_children j) cs"
    using assms(1) by (auto simp: mounted_def)
  note nc = nth_child_siblings [OF n(5), of "unat i"]
  show ?thesis
  proof (cases "unat i < length cs")
    case True
    from siblings_nth [OF n(5) True] show ?thesis
      using n nc True by (auto simp: vfs_readdir_def memfs_readdir_def name256_def Let_def)
  next
    case False
    then show ?thesis using n nc by (simp add: vfs_readdir_def memfs_readdir_def)
  qed
qed

lemma mounted_dirent [simp]: "mounted (f\<lparr>dir_entry := e\<rparr>) cs = mounted f cs"
  by (simp add: mounted_def)

lemma ls_loop_mounted:
  assumes "mounted (fs (mach s)) cs" and "length cs < 2 ^ 32" and "k \<le> length cs"
  shows "\<exists>e. ls_loop (fs_root (fs (mach s))) (of_nat k) s =
    Some (set_dirent e (write_sys (ls_lines (map snd (drop k cs))) s))"
  using assms(1,3)
proof (induction "length cs - k" arbitrary: k s)
  case 0
  then have k: "k = length cs" by simp
  let ?f = "fs (mach s)"
  have "unat (of_nat k :: u32) = k" using assms(2) k by (intro unat_of_nat_u32) simp
  then have "vfs_readdir (fs_root ?f) (of_nat k) ?f = Some (None, ?f)"
    using mounted_readdir [OF 0(2), of "of_nat k"] k by simp
  from sys_fs_step [of "vfs_readdir (fs_root ?f) (of_nat k)" s, OF this]
  have "ls_loop (fs_root ?f) (of_nat k) s = Some s" by (subst ls_loop.simps) simp
  moreover have "set_dirent (dir_entry ?f) (write_sys (ls_lines []) s) = s"
    by (simp add: set_dirent_def ls_lines_def write_sys_def with_fs_def)
  ultimately show ?case using k by (metis drop_all list.simps(8) order_refl)
next
  case (Suc n)
  let ?f = "fs (mach s)" and ?e = "\<lparr>d_ino = of_nat (fst (cs ! k)), d_name = snd (cs ! k)\<rparr>"
  have k: "k < length cs" using Suc(2) by simp
  have "unat (of_nat k :: u32) = k" using assms(2) k by (intro unat_of_nat_u32) simp
  then have rd: "vfs_readdir (fs_root ?f) (of_nat k) ?f = Some (Some ?e, ?f\<lparr>dir_entry := ?e\<rparr>)"
    using mounted_readdir [OF Suc(3), of "of_nat k"] k by simp
  define t where "t = write_sys (''  '' @ ln (snd (cs ! k))) (set_dirent ?e s)"
  have st: "ls_loop (fs_root ?f) (of_nat k) s = ls_loop (fs_root ?f) (of_nat k + 1) t"
    using sys_fs_step [of "vfs_readdir (fs_root ?f) (of_nat k)" s, OF rd]
    by (subst ls_loop.simps) (simp add: put_str_render ln_def set_dirent_def t_def)
  have f: "fs (mach t) = ?f\<lparr>dir_entry := ?e\<rparr>" by (simp add: write_sys_def set_dirent_def t_def)
  have "mounted (fs (mach t)) cs" using Suc(3) unfolding f by (simp only: mounted_dirent)
  moreover have "n = length cs - (k + 1)" "k + 1 \<le> length cs" using Suc(2) k by simp_all
  ultimately obtain e where "ls_loop (fs_root (fs (mach t))) (of_nat (k + 1)) t =
      Some (set_dirent e (write_sys (ls_lines (map snd (drop (k + 1) cs))) t))" using Suc(1) by blast
  then have "ls_loop (fs_root ?f) (of_nat k) s =
      Some (set_dirent e (write_sys (ls_lines (map snd (drop (k + 1) cs))) t))"
    using st by (simp add: f add.commute)
  moreover have "map snd (drop k cs) = snd (cs ! k) # map snd (drop (k + 1) cs)"
    using k by (simp add: Cons_nth_drop_Suc [symmetric])
  then have "set_dirent e (write_sys (ls_lines (map snd (drop (k + 1) cs))) t) =
      set_dirent e (write_sys (ls_lines (map snd (drop k cs))) s)"
    by (simp add: t_def ls_lines_def set_dirent_def with_fs_def write_sys_def writestring_append)
  ultimately show ?case by metis
qed

end
