(* ===== verification/MountedProps.thy ===== *)
theory MountedProps
  imports MountedFacts FsProps
begin

text \<open>
  The file commands of the shell over a mounted root: \<^verbatim>\<open>ls\<close> lists the directory, \<^verbatim>\<open>write\<close> stores its
  words in an existing file, and \<^verbatim>\<open>cat\<close> shows nothing of it.
\<close>

section \<open>The state around a command\<close>

lemma file_data_outside:
  assumes inv: "memfs_inv f" and buf: "user_buffer f p n" and same: "\<forall>a. a < p \<or> p + n \<le> a \<longrightarrow> b a = bytes f a"
  shows "file_data (f\<lparr>bytes := b\<rparr>) q = file_data f q"
proof (cases "inodes f q")
  case (Some i)
  then have ok: "block_ok (kh f) i" "kheap_inv (kh f)" using inv by (auto simp: memfs_inv_def heap_ok_def)
  have "b (i_data i + k) = bytes f (i_data i + k)" if "k < unat (i_size i)" for k
    using block_in_heap [OF ok that] buf same by (auto simp: user_buffer_def apart_def)
  then show ?thesis by (simp add: file_data_def Some inode_data_def)
qed (simp add: file_data_def)

lemma file_data_cong: "inodes g = inodes f \<Longrightarrow> bytes g = bytes f \<Longrightarrow> file_data g = file_data f"
  by (rule ext) (simp only: file_data_def)

lemma memfs_inv_cong:
  "memfs_inv f \<Longrightarrow> kh g = kh f \<Longrightarrow> inodes g = inodes f \<Longrightarrow> dom (bytes g) = dom (bytes f) \<Longrightarrow> memfs_inv g"
  by (simp add: memfs_inv_def heap_ok_def valid_def)

lemma join_text:
  assumes v: "valid b p 1024" and nul: "\<forall>w \<in> set ws. NUL \<notin> set w" and len: "length (unwords ws) < 1024"
  shows "\<exists>b0 b1. memset b p 0 1024 = Some b0 \<and> join_args b0 p ws = Some b1 \<and> cstr b1 p (unwords ws) \<and>
    dom b1 = dom b \<and> (\<forall>a. a < p \<or> p + 1024 \<le> a \<longrightarrow> b1 a = b a)"
proof -
  define b0 where "b0 = put b p (replicate 1024 NUL)"
  have "to_char 0 = NUL" using to_char_uchar [of NUL] by simp
  then have ms: "memset b p 0 1024 = Some b0" using memset_put [OF v, of 0] by (simp add: b0_def)
  have d0: "dom b0 = dom b" using v by (simp add: b0_def dom_put_valid)
  then have v0: "valid b0 p 1024" using v by (simp add: valid_def)
  have e0: "cstr b0 p []" by (simp add: b0_def put_apply)
  have out: "b0 a = b a" if "a < p \<or> p + 1024 \<le> a" for a using that by (simp add: b0_def put_outside)
  have "length [] + length (unwords ws) < 1024" using len by simp
  from join_args_run [OF e0 nul v0 this] ms d0 out show ?thesis by auto
qed

text \<open>Writing through a fresh descriptor of a file.\<close>

lemma write_opened:
  assumes inv: "memfs_inv g" and d: "file_descriptors g ! k = \<lparr>fd_node = p, fd_pos = 0, fd_flags = flags\<rparr>"
    and k: "k < 64" "k < length (file_descriptors g)" and p: "p \<noteq> NULL" "fs_nodes g p = Some n" "n_write n = Some Memfs"
    and fl: "flags AND O_WRONLY \<noteq> 0" and i: "inodes g (n_specific n) = Some i" "i_is_dir i = 0"
    and room: "length data \<le> unat (i_size i) \<or> length data \<le> heap_space g"
    and buf: "user_buffer g buf (length data)" "bytes_at (bytes g) buf data" and small: "length data < 2 ^ 31"
  shows "\<exists>t d'. write_fd (int k) buf (of_nat (length data)) g = Some (int (length data), set_fd k d' t) \<and>
    fd_node d' = p \<and> memfs_inv t \<and> fs_frame g t \<and> fs_nodes t = fs_nodes g \<and> file_descriptors t = file_descriptors g \<and>
    file_data t (n_specific n) = data @ drop (length data) (file_data g (n_specific n)) \<and>
    (\<forall>q. q \<noteq> n_specific n \<longrightarrow> file_data t q = file_data g q)"
proof -
  have sz: "unat (of_nat (length data) :: u32) = length data" using small by (intro unat_of_nat_u32) simp
  have off: "unat (0 :: u32) \<le> length (file_data g (n_specific n))" by simp
  have "unat (0 :: u32) + length data \<le> unat (i_size i) \<or> unat (0 :: u32) + length data \<le> heap_space g" using room by simp
  from memfs_write_law [OF inv i off this buf sz] obtain t where
    t: "memfs_write n 0 (of_nat (length data)) buf g = Some (of_nat (length data), t)" "memfs_inv t" "fs_frame g t"
      "file_data t (n_specific n) = overwrite (file_data g (n_specific n)) 0 data"
      "\<forall>q. q \<noteq> n_specific n \<longrightarrow> file_data t q = file_data g q" by auto
  note tb = memfs_write_table [OF t(1)]
  have "\<not> bad_fd (int k) g" using d k p by (simp add: bad_fd_def MAX_FILE_DESCRIPTORS_def)
  then have "write_fd (int k) buf (of_nat (length data)) g = Some (int (length data),
      set_fd k (\<lparr>fd_node = p, fd_pos = 0 + of_nat (length data), fd_flags = flags\<rparr>) t)"
    using d fl p(2,3) t(1) sint_of_nat_small [OF small] by (simp add: write_fd_def vfs_write_def Let_def)
  then show ?thesis using t tb by (auto simp: overwrite_def intro!: exI)
qed

text \<open>Writing and closing leave the descriptor free.\<close>

lemma write_close:
  assumes inv: "memfs_inv g" and d: "file_descriptors g ! k = \<lparr>fd_node = p, fd_pos = 0, fd_flags = flags\<rparr>"
    and k: "k < 64" "k < length (file_descriptors g)" and p: "p \<noteq> NULL" "fs_nodes g p = Some n" "n_write n = Some Memfs"
      "n_close n = Some Memfs"
    and fl: "flags AND O_WRONLY \<noteq> 0" and i: "inodes g (n_specific n) = Some i" "i_is_dir i = 0"
    and room: "length data \<le> unat (i_size i) \<or> length data \<le> heap_space g"
    and buf: "user_buffer g buf (length data)" "bytes_at (bytes g) buf data" and small: "length data < 2 ^ 31"
  shows "\<exists>u z. write_fd (int k) buf (of_nat (length data)) g = Some (int (length data), u) \<and> close_fd (int k) u = Some (0, z) \<and>
    memfs_inv z \<and> file_descriptors z = (file_descriptors g)[k := zero_fd] \<and>
    file_data z (n_specific n) = data @ drop (length data) (file_data g (n_specific n)) \<and>
    (\<forall>q. q \<noteq> n_specific n \<longrightarrow> file_data z q = file_data g q)"
proof -
  from write_opened [OF inv d k p(1-3) fl i room buf small] obtain t d' where
    t: "write_fd (int k) buf (of_nat (length data)) g = Some (int (length data), set_fd k d' t)" "fd_node d' = p" "memfs_inv t"
      "fs_nodes t = fs_nodes g" "file_descriptors t = file_descriptors g"
      "file_data t (n_specific n) = data @ drop (length data) (file_data g (n_specific n))"
      "\<forall>q. q \<noteq> n_specific n \<longrightarrow> file_data t q = file_data g q" by blast
  let ?u = "set_fd k d' t"
  have "close_fd (int k) ?u = Some (0, set_fd k zero_fd ?u)"
    by (rule close_opened) (use t(2,4,5) k p in \<open>simp_all add: set_fd_def\<close>)
  then have c: "close_fd (int k) ?u = Some (0, set_fd k zero_fd t)" by simp
  have "file_data (set_fd k zero_fd t) = file_data t" by (rule file_data_cong) (simp_all add: set_fd_def)
  moreover have "memfs_inv (set_fd k zero_fd t)" by (rule memfs_inv_cong [OF t(3)]) (simp_all add: set_fd_def)
  moreover have "file_descriptors (set_fd k zero_fd t) = (file_descriptors g)[k := zero_fd]" by (simp add: set_fd_def t(5))
  ultimately show ?thesis using t(1,6,7) c by (intro exI [of _ ?u] exI [of _ "set_fd k zero_fd t"]) simp
qed

text \<open>The file system's part of the command \<^verbatim>\<open>write\<close>.\<close>

lemma write_run:
  assumes "root_file f cs c nm" and "memfs_inv f" and "fd_inv f" and "free_slot (file_descriptors f) 0 = Some k"
    and "\<forall>v \<in> set ws. NUL \<notin> set v" and "length (unwords ws) < 1024" and "user_buffer f p 1024"
    and "315 + length (unwords ws) \<le> heap_space f"
  shows "\<exists>g b0 b1 u z. open_fd (CHR ''/'' # nm) (O_WRONLY OR O_CREAT) f = Some (int k, g) \<and> bytes g = bytes f \<and>
    memset (bytes f) p 0 1024 = Some b0 \<and> join_args b0 p ws = Some b1 \<and> strlen b1 p = Some (length (unwords ws)) \<and>
    write_fd (int k) p (of_nat (length (unwords ws))) (g\<lparr>bytes := b1\<rparr>) = Some (int (length (unwords ws)), u) \<and>
    close_fd (int k) u = Some (0, z) \<and> memfs_inv z \<and> file_descriptors z = (file_descriptors f)[k := zero_fd] \<and>
    file_data z c = unwords ws @ drop (length (unwords ws)) (file_data f c) \<and> (\<forall>q. q \<noteq> c \<longrightarrow> file_data z q = file_data f q)"
proof -
  let ?flags = "O_WRONLY OR O_CREAT" and ?p = "frontier (kh f)"
  define joined where "joined = unwords ws"
  have room: "315 \<le> heap_space f" using assms(8) by simp
  from mounted_open [OF assms(1,2) room assms(4), of ?flags] obtain h j where
    j: "inodes f c = Some j" "i_is_dir j = 0" and
    o: "open_fd (CHR ''/'' # nm) ?flags f = Some (int k, opened k ?flags c nm j h f)"
      "memfs_inv (opened k ?flags c nm j h f)" "heap_base h = heap_base (kh f)" "?p \<noteq> NULL"
      "heap_space f \<le> heap_space (opened k ?flags c nm j h f) + 315" by blast
  define g where "g = opened k ?flags c nm j h f"
  have kb: "k < length (file_descriptors f)" "k < 64" by (rule free_slot_bound [OF assms(3,4)])+
  have v: "valid (bytes f) p 1024" using assms(7) by (simp add: user_buffer_def)
  from join_text [OF v assms(5,6)] obtain b0 b1 where
    b: "memset (bytes f) p 0 1024 = Some b0" "join_args b0 p ws = Some b1" "cstr b1 p joined" "dom b1 = dom (bytes f)"
      "\<forall>a. a < p \<or> p + 1024 \<le> a \<longrightarrow> b1 a = bytes f a" unfolding joined_def by blast
  define g1 where "g1 = g\<lparr>bytes := b1\<rparr>"
  have ig: "memfs_inv g" using o(2) by (simp add: g_def)
  have i1: "memfs_inv g1" by (rule memfs_inv_cong [OF ig]) (simp_all add: g1_def g_def b(4))
  have ub: "user_buffer g p 1024" using assms(7) o(3) by (simp add: g_def user_buffer_def)
  have "file_data g1 q = file_data g q" for q unfolding g1_def
    by (rule file_data_outside [OF ig ub]) (use b(5) in \<open>simp add: g_def\<close>)
  moreover have "file_data g = file_data f" by (rule file_data_cong) (simp_all add: g_def)
  ultimately have same: "file_data g1 q = file_data f q" for q by simp
  have n: "fs_nodes g1 ?p = Some (looked_up c nm j)" "k < length (file_descriptors g1)"
    "file_descriptors g1 ! k = \<lparr>fd_node = ?p, fd_pos = 0, fd_flags = ?flags\<rparr>" using kb by (simp_all add: g1_def g_def)
  have len: "length joined < 1024" using assms(6) by (simp add: joined_def)
  have u1: "user_buffer g1 p (length joined)"
    using assms(7) o(3) b(4) len by (auto simp: g1_def g_def user_buffer_def valid_def apart_def subset_eq)
  have at: "bytes_at (bytes g1) p joined" using b(3) by (simp add: g1_def cstr_def bytes_at_append)
  have fl: "?flags AND O_WRONLY \<noteq> 0" by (simp add: flag_defs)
  have i: "inodes g1 (n_specific (looked_up c nm j)) = Some j" using j(1) by (simp add: g1_def g_def)
  have sp: "length joined \<le> unat (i_size j) \<or> length joined \<le> heap_space g1"
    using o(5) assms(8) by (simp add: g1_def g_def heap_space_def joined_def)
  have small: "length joined < 2 ^ 31" using len by simp
  from write_close [OF i1 n(3) kb(2) n(2) o(4) n(1) _ _ fl i j(2) sp u1 at small] obtain u z where
    "write_fd (int k) p (of_nat (length joined)) g1 = Some (int (length joined), u)" "close_fd (int k) u = Some (0, z)"
    "memfs_inv z" "file_descriptors z = (file_descriptors g1)[k := zero_fd]"
    "file_data z c = joined @ drop (length joined) (file_data g1 c)" "\<forall>q. q \<noteq> c \<longrightarrow> file_data z q = file_data g1 q" by auto
  moreover have "(file_descriptors g1)[k := zero_fd] = (file_descriptors f)[k := zero_fd]" by (simp add: g1_def g_def)
  moreover have "bytes g = bytes f" by (simp add: g_def)
  ultimately show ?thesis using o(1) b(1,2) strlen_cstr [OF b(3)] same unfolding g1_def g_def joined_def [symmetric]
    by (intro exI) auto
qed

section \<open>A concrete system\<close>

text \<open>A directory with the one empty file \<open>a\<close> as the root, and the shell's buffer at \<open>0x2000\<close>.\<close>

definition demo_fs :: fs_state where
  "demo_fs = fresh_fs\<lparr>fs_nodes := [0x5000 \<mapsto> zero_node\<lparr>n_flags := FS_DIRECTORY, n_readdir := Some Memfs,
       n_finddir := Some Memfs, n_specific := 0x3000\<rparr>], fs_root := 0x5000,
     inodes := [0x3000 \<mapsto> zero_inode\<lparr>i_is_dir := 1, i_children := 0x3100\<rparr>, 0x3100 \<mapsto> zero_inode\<lparr>i_name := Some ''a''\<rparr>]\<rparr>"

definition demo_sys :: sys where
  "demo_sys = \<lparr>mach = machine_init demo_fs
     \<lparr>video = (\<lambda>_. 0), cursor_x = 0, cursor_y = 0, text_attribute = 7, ports = []\<rparr> 0, sh = shell_init, frame = 0x2000\<rparr>"

lemma demo_facts:
  "fs (mach demo_sys) = demo_fs" "frame demo_sys = 0x2000" "kh demo_fs = kh fresh_fs" "bytes demo_fs = ram2m"
  "fs_root demo_fs = 0x5000" "file_descriptors demo_fs = replicate 64 zero_fd"
  by (simp_all add: demo_sys_def demo_fs_def machine_init_def fresh_fs_def fs_init_def MAX_FILE_DESCRIPTORS_def)

lemma demo_inv: "memfs_inv demo_fs" "fd_inv demo_fs" "free_slot (file_descriptors demo_fs) 0 = Some 0"
  "heap_space demo_fs = 0x10000" "user_buffer demo_fs 0x2000 1024"
proof -
  have "heap_ok demo_fs" using fresh_heap_ok by (simp add: heap_ok_def demo_facts fresh_fs_def fs_init_def)
  moreover have "i_data i = NULL \<and> i_size i = 0" if "inodes demo_fs p = Some i" for p i
    using that by (auto simp: demo_fs_def zero_inode_def split: if_splits)
  ultimately show "memfs_inv demo_fs"
    unfolding memfs_inv_def block_ok_def inodes_apart_def apart_def by auto
  show "fd_inv demo_fs" by (simp add: fd_inv_def demo_facts MAX_FILE_DESCRIPTORS_def zero_fd_def)
  show "free_slot (file_descriptors demo_fs) 0 = Some 0" by (simp add: demo_facts free_slot_replicate)
  show "heap_space demo_fs = 0x10000" by (simp add: heap_space_def demo_facts fresh_pos)
  show "user_buffer demo_fs 0x2000 1024" by (simp add: user_buffer_def demo_facts fresh_base valid_ram2m apart_def)
qed

lemma demo_mounted: "mounted demo_fs [(0x3100, ''a'')]"
  by (simp add: mounted_def demo_fs_def zero_inode_def zero_node_def)

lemma demo_file: "root_file demo_fs [(0x3100, ''a'')] 0x3100 ''a''"
  using demo_mounted by (simp add: root_file_def lookup_name_def) (simp add: demo_fs_def zero_inode_def)

section \<open>Properties\<close>

text \<open>\<^verbatim>\<open>ls\<close> over a mounted root prints the heading and then the name of each entry of the
  root directory, indented, one to a line, in the order of the directory's list; nothing else changes but
  the static entry that \<^verbatim>\<open>readdir\<close> returns.\<close>

theorem mounted_ls:
  assumes "mounted (fs (mach s)) cs" and "length cs < 2 ^ 32"
  shows "\<exists>e. cmd_ls s = Some (Fall (set_dirent e
    (write_sys (ln ''Contents of /'' @ concat (map (\<lambda>(c, nm). ''  '' @ ln nm) cs)) s)))"
proof -
  let ?r = "fs_root (fs (mach s))"
  obtain n where n: "?r \<noteq> NULL" "fs_nodes (fs (mach s)) ?r = Some n" "n_flags n = FS_DIRECTORY"
    using assms(1) by (auto simp: mounted_def)
  define s1 where "s1 = write_sys (ln ''Contents of /'') s"
  have f1: "fs (mach s1) = fs (mach s)" by (simp add: s1_def write_sys_def)
  then obtain e where l: "ls_loop ?r 0 s1 = Some (set_dirent e (write_sys (ls_lines (map snd cs)) s1))"
    using ls_loop_mounted [of s1 cs 0] assms by auto
  have o: "sys_fs (vfs_open ''/'' 0) s = Some (?r, s)"
    using sys_fs_step [of "vfs_open ''/'' 0" s ?r "fs (mach s)"] by (simp add: vfs_open_def)
  let ?t = "set_dirent e (write_sys (ls_lines (map snd cs)) s1)"
  have ft: "fs (mach ?t) = (fs (mach s))\<lparr>dir_entry := e\<rparr>" using f1 by (simp add: set_dirent_def write_sys_def)
  have "vfs_close ?r (fs (mach ?t)) = Some (fs (mach ?t))" using n(2) by (simp add: ft vfs_close_def split: option.split)
  then have c: "sys_close_node ?r ?t = Some ?t" by (simp add: sys_close_node_def)
  have names: "ls_lines (map snd cs) = concat (map (\<lambda>(c, nm). ''  '' @ ln nm) cs)"
    by (simp add: ls_lines_def o_def case_prod_unfold)
  have "cmd_ls s = Some (Fall ?t)"
    using o n l c by (simp add: cmd_ls_def put_plain ln_def s1_def FS_DIRECTORY_def)
  also have "?t = set_dirent e (write_sys (ln ''Contents of /'' @ ls_lines (map snd cs)) s)"
    by (simp add: s1_def set_dirent_def write_sys_def with_fs_def writestring_append)
  finally show ?thesis unfolding names by blast
qed

lemma mounted_ls_witness:
  "\<exists>e. cmd_ls demo_sys = Some (Fall (set_dirent e (write_sys (ln ''Contents of /'' @ ''  '' @ ln ''a'') demo_sys)))"
  using mounted_ls [of demo_sys "[(0x3100, ''a'')]"] demo_mounted by (simp add: demo_facts)

text \<open>C10: \<^verbatim>\<open>write\<close> stores its words, joined by single blanks, at the start of an existing file of a mounted
  root, whose old contents beyond them remain, reports their number, and leaves every other file
  as it was and its descriptor free again. Room is needed for the node of the lookup, and for the text when
  it does not fit into the file.\<close>

theorem mounted_write:
  assumes "root_file (fs (mach s)) cs c nm" and "memfs_inv (fs (mach s))" and "fd_inv (fs (mach s))"
    and "free_slot (file_descriptors (fs (mach s))) 0 = Some k"
    and "\<forall>v \<in> set (w # ws). NUL \<notin> set v" and "length (unwords (w # ws)) < 1024"
    and "user_buffer (fs (mach s)) (frame s) 1024"
    and "315 + length (unwords (w # ws)) \<le> heap_space (fs (mach s))"
  shows "\<exists>g. cmd_write (''write'' # (CHR ''/'' # nm) # w # ws) s =
      Some (Fall (write_sys (''Wrote '' @ show_int (int (length (unwords (w # ws)))) @ '' bytes to '' @ ln (CHR ''/'' # nm)) (with_fs g s))) \<and>
    file_data g c = unwords (w # ws) @ drop (length (unwords (w # ws))) (file_data (fs (mach s)) c) \<and>
    (\<forall>q. q \<noteq> c \<longrightarrow> file_data g q = file_data (fs (mach s)) q) \<and> memfs_inv g \<and>
    file_descriptors g = (file_descriptors (fs (mach s)))[k := zero_fd]"
proof -
  let ?f = "fs (mach s)" and ?flags = "O_WRONLY OR O_CREAT"
  define joined where "joined = unwords (w # ws)"
  from write_run [OF assms] obtain g b0 b1 u z where
    r: "open_fd (CHR ''/'' # nm) ?flags ?f = Some (int k, g)" "bytes g = bytes ?f"
      "memset (bytes ?f) (frame s) 0 1024 = Some b0" "join_args b0 (frame s) (w # ws) = Some b1"
      "strlen b1 (frame s) = Some (length joined)"
      "write_fd (int k) (frame s) (of_nat (length joined)) (g\<lparr>bytes := b1\<rparr>) = Some (int (length joined), u)"
      "close_fd (int k) u = Some (0, z)" and
    z: "memfs_inv z" "file_descriptors z = (file_descriptors ?f)[k := zero_fd]"
      "file_data z c = joined @ drop (length joined) (file_data ?f c)" "\<forall>q. q \<noteq> c \<longrightarrow> file_data z q = file_data ?f q"
    unfolding joined_def by blast
  have small: "length joined < 2 ^ 31" using assms(6) by (simp add: joined_def)
  let ?msg = "''Wrote '' @ show_int (int (length joined)) @ '' bytes to '' @ ln (CHR ''/'' # nm)"
  have s1: "sys_fs (open_fd (CHR ''/'' # nm) ?flags) s = Some (int k, with_fs g s)"
    using sys_fs_step [of "open_fd (CHR ''/'' # nm) ?flags" s, OF r(1)] by simp
  have sb: "sys_bytes (with_fs g s) = bytes ?f" "frame (with_fs g s) = frame s"
    "set_bytes b1 (with_fs g s) = with_fs (g\<lparr>bytes := b1\<rparr>) s" by (simp_all add: sys_bytes_def r(2))
  have s2: "sys_fs (write_fd (int k) (frame s) (of_nat (length joined))) (with_fs (g\<lparr>bytes := b1\<rparr>) s) =
      Some (int (length joined), with_fs u s)"
    using sys_fs_step [of "write_fd (int k) (frame s) (of_nat (length joined))" "with_fs (g\<lparr>bytes := b1\<rparr>) s"] r(6) by simp
  have s3: "put_str (ln ''Wrote %d bytes to %s'') [VInt (word_of_int (int (length joined))), VStr (Some (CHR ''/'' # nm))] (with_fs u s) =
      Some (write_sys ?msg (with_fs u s))"
    using sint_of_nat_small [OF small] by (simp add: put_str_render ln_def)
  have s4: "sys_fs (close_fd (int k)) (write_sys ?msg (with_fs u s)) = Some (0, write_sys ?msg (with_fs z s))"
    using sys_fs_step [of "close_fd (int k)" "with_fs u (write_sys ?msg s)"] r(7) by simp
  have "cmd_write (''write'' # (CHR ''/'' # nm) # w # ws) s = Some (Fall (write_sys ?msg (with_fs z s)))"
    using s1 sb r(3,4,5) s2 s3 s4 by (simp add: cmd_write_def del: with_fs_simps join_args.simps)
  then show ?thesis using z unfolding joined_def by (intro exI [of _ z]) blast
qed

lemma mounted_write_witness:
  "\<exists>g. cmd_write [''write'', ''/a'', ''hello'', ''file''] demo_sys =
      Some (Fall (write_sys (''Wrote '' @ show_int 10 @ '' bytes to '' @ ln ''/a'') (with_fs g demo_sys))) \<and>
    file_data g 0x3100 = ''hello file''"
proof -
  have "file_data demo_fs 0x3100 = []" by (simp add: file_data_def demo_fs_def zero_inode_def inode_data_def)
  then show ?thesis
    using mounted_write [of demo_sys "[(0x3100, ''a'')]" "0x3100" "''a''" 0 "''hello''" "[''file'']"] demo_file demo_inv
    by (simp add: demo_facts del: with_fs_simps) blast
qed

text \<open>C16: \<^verbatim>\<open>cat\<close> of an existing file of a mounted root prints an empty line and nothing of the contents, since
  a descriptor opened read-only cannot be read; the file stays as it is, and 312 bytes of heap are gone
  for the node of the lookup.\<close>

theorem mounted_cat_blank:
  assumes "root_file (fs (mach s)) cs c nm" and "memfs_inv (fs (mach s))" and "fd_inv (fs (mach s))"
    and "free_slot (file_descriptors (fs (mach s))) 0 = Some k" and "315 \<le> heap_space (fs (mach s))"
  shows "\<exists>g. cmd_cat [''cat'', CHR ''/'' # nm] s = Some (Fall (write_sys (ln '''') (with_fs g s))) \<and>
    file_data g = file_data (fs (mach s)) \<and> heap_space g + 312 \<le> heap_space (fs (mach s)) \<and>
    file_descriptors g = (file_descriptors (fs (mach s)))[k := zero_fd]"
proof -
  let ?f = "fs (mach s)"
  from mounted_open [OF assms(1,2,5,4), of O_RDONLY] obtain h j where
    o: "open_fd (CHR ''/'' # nm) O_RDONLY ?f = Some (int k, opened k O_RDONLY c nm j h ?f)" "frontier (kh ?f) \<noteq> NULL"
      "heap_space (opened k O_RDONLY c nm j h ?f) + 312 \<le> heap_space ?f" by blast
  define g where "g = opened k O_RDONLY c nm j h ?f"
  have kb: "k < length (file_descriptors ?f)" "k < 64" by (rule free_slot_bound [OF assms(3,4)])+
  have d: "file_descriptors g ! k = \<lparr>fd_node = frontier (kh ?f), fd_pos = 0, fd_flags = O_RDONLY\<rparr>"
    "k < length (file_descriptors g)" "fs_nodes g (frontier (kh ?f)) = Some (looked_up c nm j)"
    using kb by (simp_all add: g_def)
  have rd: "read_fd (int k) (frame s) 1023 g = Some (- 1, g)"
    by (simp add: read_fd_def d(1) O_RDONLY_def Let_def)
  have cl: "close_fd (int k) g = Some (0, set_fd k zero_fd g)"
    by (rule close_opened) (use d o(2) kb(2) in simp_all)
  have s1: "sys_fs (open_fd (CHR ''/'' # nm) O_RDONLY) s = Some (int k, with_fs g s)"
    using sys_fs_step [of "open_fd (CHR ''/'' # nm) O_RDONLY" s, OF o(1)] by (simp add: g_def)
  have "sys_fs (read_fd (int k) (frame (with_fs g s)) 1023) (with_fs g s) = Some (- 1, with_fs g s)"
    using sys_fs_step [of "read_fd (int k) (frame s) 1023" "with_fs g s"] rd by simp
  then have s2: "cat_loop (int k) (with_fs g s) = Some (with_fs g s)" by (subst cat_loop.simps) simp
  have s3: "sys_fs (close_fd (int k)) (with_fs g s) = Some (0, with_fs (set_fd k zero_fd g) s)"
    using sys_fs_step [of "close_fd (int k)" "with_fs g s"] cl by simp
  have "cmd_cat [''cat'', CHR ''/'' # nm] s = Some (Fall (write_sys (ln '''') (with_fs (set_fd k zero_fd g) s)))"
    using s1 s2 s3 by (simp add: cmd_cat_def put_plain ln_def)
  moreover have "file_data (set_fd k zero_fd g) = file_data ?f"
    by (rule file_data_cong) (simp_all add: g_def set_fd_def)
  moreover have "heap_space (set_fd k zero_fd g) + 312 \<le> heap_space ?f"
    "file_descriptors (set_fd k zero_fd g) = (file_descriptors ?f)[k := zero_fd]"
    using o(3) by (simp_all add: g_def set_fd_def heap_space_def)
  ultimately show ?thesis by blast
qed

lemma mounted_cat_blank_witness:
  "\<exists>g. cmd_cat [''cat'', ''/a''] demo_sys = Some (Fall (write_sys (ln '''') (with_fs g demo_sys))) \<and>
    heap_space g \<le> 65224"
  using mounted_cat_blank [of demo_sys "[(0x3100, ''a'')]" "0x3100" "''a''" 0] demo_file demo_inv
  by (simp add: demo_facts del: with_fs_simps) fastforce

end
