(* ===== verification/PathProps.thy ===== *)
theory PathProps
  imports MountedFacts FsProps
begin

text \<open>
  Path resolution against a directory tree: what \<^verbatim>\<open>vfs_open\<close> finds for a path is what the names of the path
  lead to in the tree of directories that the inodes hold. A path is put together from its names here; how
  \<^verbatim>\<open>vfs_open\<close> takes it apart is not used to say what it means.
\<close>

section \<open>Directory trees\<close>

text \<open>A file or a directory with its inode; the entries of a directory in order.\<close>

datatype dir_tree = File_at addr | Dir_at addr "(string \<times> dir_tree) list"

fun inode_of :: "dir_tree \<Rightarrow> addr" where
  "inode_of (File_at p) = p"
| "inode_of (Dir_at p kids) = p"

text \<open>The inodes hold the tree.\<close>

fun tree_in :: "(addr \<rightharpoonup> memfs_inode) \<Rightarrow> dir_tree \<Rightarrow> bool" where
  "tree_in I (File_at p) = (case I p of None \<Rightarrow> False | Some i \<Rightarrow> i_is_dir i = 0)"
| "tree_in I (Dir_at p kids) =
     ((case I p of None \<Rightarrow> False
       | Some i \<Rightarrow> i_is_dir i \<noteq> 0 \<and> siblings I (i_children i) (map (\<lambda>(nm, t). (inode_of t, nm)) kids)) \<and>
      (\<forall>k \<in> set kids. tree_in I (snd k)))"

text \<open>Where the names lead, one directory for each.\<close>

fun find_path :: "dir_tree \<Rightarrow> string list \<Rightarrow> addr option" where
  "find_path t [] = Some (inode_of t)"
| "find_path (File_at p) (nm # nms) = None"
| "find_path (Dir_at p kids) (nm # nms) = (case map_of kids nm of None \<Rightarrow> None | Some t \<Rightarrow> find_path t nms)"

text \<open>An absolute path: a slash before each name.\<close>

definition slashed :: "string list \<Rightarrow> string" where
  "slashed nms = concat (map (\<lambda>nm. CHR ''/'' # nm) nms)"

lemma slashed_simps [simp]: "slashed [] = []" "slashed (nm # nms) = CHR ''/'' # nm @ slashed nms"
  by (simp_all add: slashed_def)

section \<open>Taking a path apart\<close>

lemma components_Nil [simp]: "components [] = []"
  by (simp add: components.simps)

lemma components_slash:
  assumes "CHR ''/'' \<notin> set nm"
  shows "components (nm @ CHR ''/'' # rest) = nm # components rest"
proof -
  have a: "\<forall>c \<in> set nm. c \<noteq> CHR ''/''" using assms by auto
  then have "component (nm @ CHR ''/'' # rest) = nm" by (simp add: component_def takeWhile_append2)
  moreover have "next_path (nm @ CHR ''/'' # rest) = rest" using a by (simp add: next_path_def dropWhile_append2)
  ultimately show ?thesis by (subst components.simps) simp
qed

lemma components_slashed:
  "\<forall>nm \<in> set nms. CHR ''/'' \<notin> set nm \<Longrightarrow> components (tl (slashed nms @ ''/'')) = nms"
proof (induction nms)
  case (Cons nm nms)
  have "slashed nms @ ''/'' = CHR ''/'' # tl (slashed nms @ ''/'')" by (cases nms) simp_all
  then have "tl (slashed (nm # nms) @ ''/'') = nm @ CHR ''/'' # tl (slashed nms @ ''/'')" by simp
  then have "components (tl (slashed (nm # nms) @ ''/'')) = nm # components (tl (slashed nms @ ''/''))"
    by (simp only:) (rule components_slash, use Cons.prems in simp)
  then show ?case using Cons by simp
qed simp

lemma components_slashed_open:
  "\<forall>nm \<in> set nms. CHR ''/'' \<notin> set nm \<Longrightarrow> nms \<noteq> [] \<Longrightarrow> last nms \<noteq> [] \<Longrightarrow> components (tl (slashed nms)) = nms"
proof (induction nms)
  case (Cons nm nms)
  show ?case
  proof (cases nms)
    case Nil
    then show ?thesis using Cons.prems component_single [of nm] by simp
  next
    case (Cons nm' nms')
    then have "slashed nms = CHR ''/'' # tl (slashed nms)" by simp
    then have "tl (slashed (nm # nms)) = nm @ CHR ''/'' # tl (slashed nms)" by simp
    then have "components (tl (slashed (nm # nms))) = nm # components (tl (slashed nms))"
      by (simp only:) (rule components_slash, use Cons.prems in simp)
    then show ?thesis using Cons.IH Cons.prems Cons by simp
  qed
qed simp

section \<open>One directory\<close>

text \<open>A node stands for a tree: it leads to its inode, and looks names up if that is a directory.\<close>

definition node_for :: "fs_state \<Rightarrow> addr \<Rightarrow> dir_tree \<Rightarrow> bool" where
  "node_for s p t \<longleftrightarrow> p \<noteq> NULL \<and> (case fs_nodes s p of None \<Rightarrow> False
     | Some n \<Rightarrow> n_specific n = inode_of t \<and>
         (case t of File_at q \<Rightarrow> n_finddir n = None
          | Dir_at q kids \<Rightarrow> n_flags n AND 0x7 = FS_DIRECTORY \<and> n_finddir n = Some Memfs))"

lemma lookup_name_kids:
  "lookup_name (map (\<lambda>(nm, t). (inode_of t, nm)) kids) nm = (case map_of kids nm of None \<Rightarrow> NULL | Some t \<Rightarrow> inode_of t)"
  by (induction kids) (auto simp: lookup_name_def)

lemma finddir_kid:
  assumes n: "node_for s p (Dir_at q kids)" and t: "tree_in (inodes s) (Dir_at q kids)" and k: "map_of kids nm = Some u"
    and nm: "NUL \<notin> set nm" and h: "kheap_inv (kh s)" and room: "315 \<le> heap_space s"
  shows "\<exists>r s'. vfs_finddir p nm s = Some (r, s') \<and> node_for s' r u \<and> tree_in (inodes s') u \<and> length nm < 256 \<and>
    kheap_inv (kh s') \<and> heap_space s \<le> heap_space s' + 315 \<and> inodes s' = inodes s \<and> bytes s' = bytes s \<and>
    file_descriptors s' = file_descriptors s"
proof -
  obtain n i where n': "fs_nodes s p = Some n" "n_specific n = q" "n_flags n AND 0x7 = FS_DIRECTORY" "n_finddir n = Some Memfs"
    and i: "inodes s q = Some i" "i_is_dir i \<noteq> 0"
      "siblings (inodes s) (i_children i) (map (\<lambda>(nm, t). (inode_of t, nm)) kids)"
    using n t by (auto simp: node_for_def split: option.splits)
  have u: "tree_in (inodes s) u" using t map_of_SomeD [OF k] by force
  have l: "lookup_name (map (\<lambda>(nm, t). (inode_of t, nm)) kids) nm = inode_of u" by (simp add: lookup_name_kids k)
  have "(inode_of u, nm) \<in> set (map (\<lambda>(nm, t). (inode_of t, nm)) kids)" using map_of_SomeD [OF k] by force
  then obtain j where "j < length kids" "map (\<lambda>(nm, t). (inode_of t, nm)) kids ! j = (inode_of u, nm)"
    by (metis in_set_conv_nth length_map)
  then have nz: "inode_of u \<noteq> NULL" using siblings_nth [OF i(3), of j] by auto
  obtain c where c: "inodes s (inode_of u) = Some c" "i_name c = Some nm" "length nm < 256"
    using lookup_entry [OF i(3) l nz] by blast
  have dir: "(i_is_dir c = 0) = (case u of File_at q \<Rightarrow> True | Dir_at q kids \<Rightarrow> False)"
    using u c(1) by (cases u) simp_all
  have "unat (heap_pos (kh s)) + unat SIZEOF_FS_NODE \<le> 0x10000"
    using room by (simp add: heap_space_def SIZEOF_FS_NODE_def)
  from fs_kmalloc_fits [OF h this] obtain h' where
    k': "fs_kmalloc SIZEOF_FS_NODE s = (frontier (kh s), s\<lparr>kh := h'\<rparr>)" "frontier (kh s) \<noteq> NULL" and
    h': "kheap_inv h'" "unat (heap_pos h') \<le> unat (heap_pos (kh s)) + 315"
    by (auto simp: SIZEOF_FS_NODE_def)
  let ?s = "set_node (frontier (kh s)) (looked_up (inode_of u) nm c) (s\<lparr>kh := h'\<rparr>)"
  have "find_child (inodes s) (i_children i) nm = Some (inode_of u)" using find_child_siblings [OF i(3) nm] l by simp
  then have "memfs_finddir n nm s = Some (frontier (kh s), ?s)"
    using n'(2) i(1,2) c k' nz
    by (simp add: memfs_finddir_def new_node_def set_node_def name256_def looked_up_def Let_def)
  then have "vfs_finddir p nm s = Some (frontier (kh s), ?s)" using n' by (simp add: vfs_finddir_def)
  moreover have "node_for ?s (frontier (kh s)) u" using k'(2) dir
    by (cases u) (simp_all add: node_for_def set_node_def looked_up_def FS_DIRECTORY_def)
  moreover have "heap_space s \<le> heap_space ?s + 315" using h'(2) by (simp add: heap_space_def set_node_def)
  ultimately show ?thesis using u c(3) h'(1) by (intro exI [of _ "frontier (kh s)"] exI [of _ ?s]) (simp add: set_node_def)
qed

lemma finddir_missing:
  assumes n: "node_for s p t" and t: "tree_in (inodes s) t" and k: "find_path t [nm] = None" and nm: "NUL \<notin> set nm"
  shows "vfs_finddir p nm s = Some (NULL, s)"
proof (cases t)
  case (File_at q)
  then show ?thesis using n by (auto simp: node_for_def vfs_finddir_def split: option.splits)
next
  case (Dir_at q kids)
  then obtain n' i where n': "fs_nodes s p = Some n'" "n_specific n' = q" "n_flags n' AND 0x7 = FS_DIRECTORY"
      "n_finddir n' = Some Memfs"
    and i: "inodes s q = Some i" "siblings (inodes s) (i_children i) (map (\<lambda>(nm, t). (inode_of t, nm)) kids)"
    using n t by (auto simp: node_for_def split: option.splits)
  have "map_of kids nm = None" using k Dir_at by (simp split: option.splits)
  then have "find_child (inodes s) (i_children i) nm = Some NULL"
    using find_child_siblings [OF i(2) nm] by (simp add: lookup_name_kids)
  then show ?thesis using n' i(1) by (simp add: vfs_finddir_def memfs_finddir_def)
qed

section \<open>Paths\<close>

text \<open>What an open returns: the node of the tree's file or directory, or null.\<close>

definition found :: "addr option \<Rightarrow> addr \<Rightarrow> fs_state \<Rightarrow> bool" where
  "found target q s \<longleftrightarrow> (case target of None \<Rightarrow> q = NULL
     | Some p \<Rightarrow> q \<noteq> NULL \<and> map_option n_specific (fs_nodes s q) = Some p)"

lemma walk_tree:
  assumes "node_for s p t" and "tree_in (inodes s) t" and "\<forall>nm \<in> set nms. NUL \<notin> set nm"
    and "kheap_inv (kh s)" and "315 * length nms \<le> heap_space s"
  shows "\<exists>q s'. walk p nms s = Some (q, s') \<and> found (find_path t nms) q s' \<and>
    inodes s' = inodes s \<and> bytes s' = bytes s \<and> file_descriptors s' = file_descriptors s"
  using assms
proof (induction nms arbitrary: s p t)
  case Nil
  then show ?case by (auto simp: node_for_def found_def split: option.splits)
next
  case (Cons nm nms)
  have nul: "NUL \<notin> set nm" "\<forall>nm \<in> set nms. NUL \<notin> set nm" using Cons.prems(3) by simp_all
  show ?case
  proof (cases "find_path t [nm]")
    case None
    then have "find_path t (nm # nms) = None" by (cases t) (simp_all split: option.splits)
    then show ?thesis using finddir_missing [OF Cons.prems(1,2) None nul(1)] by (simp add: found_def)
  next
    case (Some a)
    then obtain q kids u where t: "t = Dir_at q kids" "map_of kids nm = Some u" by (cases t) (simp_all split: option.splits)
    have room: "315 \<le> heap_space s" using Cons.prems(5) by simp
    from finddir_kid [OF Cons.prems(1,2) [unfolded t(1)] t(2) nul(1) Cons.prems(4) room] obtain r s1 where
      f: "vfs_finddir p nm s = Some (r, s1)" "node_for s1 r u" "tree_in (inodes s1) u" "length nm < 256"
        "kheap_inv (kh s1)" "heap_space s \<le> heap_space s1 + 315" "inodes s1 = inodes s" "bytes s1 = bytes s"
        "file_descriptors s1 = file_descriptors s" by blast
    have "315 * length nms \<le> heap_space s1" using Cons.prems(5) f(6) by simp
    from Cons.IH [OF f(2,3) nul(2) f(5) this] obtain q' s' where
      w: "walk r nms s1 = Some (q', s')" "found (find_path u nms) q' s'" "inodes s' = inodes s1" "bytes s' = bytes s1"
        "file_descriptors s' = file_descriptors s1" by blast
    have "r \<noteq> NULL" using f(2) by (simp add: node_for_def)
    then show ?thesis using f w t by simp
  qed
qed

text \<open>C40: \<^verbatim>\<open>vfs_open\<close> resolves paths in the directory tree. For any names without slashes, the path with a slash
  before each, with or without one more at its end, opens the file or directory to which the names lead from the
  root, one directory for each name: the result is a new node for its inode, or null when a name is missing, is
  looked up in a file, or is too long. Two slashes in a row have an empty name between them. The tree, all bytes
  and the descriptors are as before; a path that does not start with a slash is not opened.\<close>

theorem vfs_open_resolves:
  assumes "node_for s (fs_root s) t" and "tree_in (inodes s) t" and "kheap_inv (kh s)"
    and "\<forall>nm \<in> set nms. CHR ''/'' \<notin> set nm \<and> NUL \<notin> set nm" and "315 * length nms \<le> heap_space s"
  shows "\<exists>q s'. vfs_open (slashed nms @ ''/'') flags s = Some (q, s') \<and>
    (nms \<noteq> [] \<and> last nms \<noteq> [] \<longrightarrow> vfs_open (slashed nms) flags s = Some (q, s')) \<and>
    (case find_path t nms of None \<Rightarrow> q = NULL
     | Some p \<Rightarrow> q \<noteq> NULL \<and> map_option n_specific (fs_nodes s' q) = Some p) \<and>
    inodes s' = inodes s \<and> bytes s' = bytes s \<and> file_descriptors s' = file_descriptors s \<and>
    (\<forall>path. path = [] \<or> hd path \<noteq> CHR ''/'' \<longrightarrow> vfs_open path flags s = Some (NULL, s))"
proof -
  have nul: "\<forall>nm \<in> set nms. NUL \<notin> set nm" "\<forall>nm \<in> set nms. CHR ''/'' \<notin> set nm" using assms(4) by simp_all
  from walk_tree [OF assms(1,2) nul(1) assms(3,5)] obtain q s' where
    w: "walk (fs_root s) nms s = Some (q, s')" "found (find_path t nms) q s'" "inodes s' = inodes s"
      "bytes s' = bytes s" "file_descriptors s' = file_descriptors s" by blast
  have abs: "vfs_open (CHR ''/'' # path) flags s = walk (fs_root s) (components path) s" for path
    by (simp add: vfs_open_def open_loop_walk)
  have "slashed nms @ ''/'' = CHR ''/'' # tl (slashed nms @ ''/'')" by (cases nms) simp_all
  then have "vfs_open (slashed nms @ ''/'') flags s = Some (q, s')"
    using abs [of "tl (slashed nms @ ''/'')"] components_slashed [OF nul(2)] w(1) by simp
  moreover have "vfs_open (slashed nms) flags s = Some (q, s')" if "nms \<noteq> [] \<and> last nms \<noteq> []"
  proof -
    have "slashed nms = CHR ''/'' # tl (slashed nms)" using that by (cases nms) simp_all
    then show ?thesis using abs [of "tl (slashed nms)"] components_slashed_open [OF nul(2)] that w(1) by simp
  qed
  moreover have "vfs_open path flags s = Some (NULL, s)" if "path = [] \<or> hd path \<noteq> CHR ''/''" for path
    using that by (cases path) (simp_all add: vfs_open_def)
  ultimately show ?thesis using w(2-5) by (intro exI [of _ q] exI [of _ s']) (simp add: found_def)
qed

text \<open>A root directory with a directory \<^verbatim>\<open>a\<close> and a file \<^verbatim>\<open>b\<close> in that.\<close>

definition tree_fs :: fs_state where
  "tree_fs = fresh_fs\<lparr>fs_root := 0x5000,
     fs_nodes := [0x5000 \<mapsto> zero_node\<lparr>n_flags := FS_DIRECTORY, n_finddir := Some Memfs, n_specific := 0x3000\<rparr>],
     inodes := [0x3000 \<mapsto> zero_inode\<lparr>i_is_dir := 1, i_children := 0x3100\<rparr>,
       0x3100 \<mapsto> zero_inode\<lparr>i_name := Some ''a'', i_is_dir := 1, i_children := 0x3200\<rparr>,
       0x3200 \<mapsto> zero_inode\<lparr>i_name := Some ''b''\<rparr>]\<rparr>"

lemma vfs_open_resolves_witness:
  "\<exists>q s'. vfs_open ''/a/b'' 0 tree_fs = Some (q, s') \<and> q \<noteq> NULL \<and> map_option n_specific (fs_nodes s' q) = Some 0x3200 \<and>
    vfs_open ''/a/b/'' 0 tree_fs = Some (q, s')"
proof -
  let ?t = "Dir_at 0x3000 [(''a'', Dir_at 0x3100 [(''b'', File_at 0x3200)])]"
  have "node_for tree_fs (fs_root tree_fs) ?t" "tree_in (inodes tree_fs) ?t"
    by (simp_all add: tree_fs_def node_for_def zero_inode_def FS_DIRECTORY_def)
  moreover have "kheap_inv (kh tree_fs)" "315 * length [''a'', ''b''] \<le> heap_space tree_fs"
    using fresh_heap_ok fresh_pos by (simp_all add: tree_fs_def heap_ok_def heap_space_def)
  ultimately show ?thesis using vfs_open_resolves [of tree_fs ?t "[''a'', ''b'']" 0] by fastforce
qed

end
