(* ===== verification/SessionSpec.thy ===== *)
theory SessionSpec
  imports BootFacts
begin

text \<open>
  An abstract shell: what a user can know of the shell between two prompts, and what a command line
  does to it, with no arrays, counters into tables or text on the screen. The shell of
  \<^verbatim>\<open>kernel/shell.c\<close> is proved to implement it, line by line and for whole sessions.
\<close>

section \<open>The abstract shell\<close>

text \<open>The aliases are an association list in the order of their entry; the history is the last ten lines, newest first;
  \<open>v_pos\<close> counts entries modulo ten.\<close>

record view =
  v_aliases :: "(string \<times> string) list"
  v_count :: int
  v_history :: "string list"
  v_pos :: int
  v_debug :: bool
  v_color :: bool
  v_echo :: bool
  v_dir :: string
  v_code :: u32

definition view :: "shell \<Rightarrow> view" where
  "view h = \<lparr>v_aliases = alias_list h, v_count = alias_count h,
     v_history = map (\<lambda>k. recent h (int k)) [0..<10], v_pos = history_pos h, v_debug = debug_mode h,
     v_color = color_enabled h, v_echo = echo_enabled h, v_dir = the (arr_cstr (current_directory h)),
     v_code = last_exit_code h\<rparr>"

text \<open>A line enters the history unless it repeats the newest; after every tenth entry that is not noticed.\<close>

definition remember :: "string \<Rightarrow> view \<Rightarrow> view" where
  "remember str v =
     (if v_pos v > 0 \<and> hd (v_history v) = str then v
      else v\<lparr>v_history := str # butlast (v_history v), v_pos := (v_pos v + 1) mod 10\<rparr>)"

definition spec_words :: "string \<Rightarrow> view \<Rightarrow> string list" where
  "spec_words str v =
     (case take 15 (tokens blanks str) of
        [] \<Rightarrow> []
      | w # ws \<Rightarrow> (case map_of (v_aliases v) w of None \<Rightarrow> w # ws | Some c \<Rightarrow> take 15 (tokens blanks c)))"

text \<open>An alias of a name already there takes its place, a new one goes to the end; \<open>enter_alias\<close> also says what becomes
  of a name of 32 characters or more.\<close>

definition spec_alias :: "string \<Rightarrow> string \<Rightarrow> view \<Rightarrow> view" where
  "spec_alias nm c v =
     (if v_count v \<ge> 20 then v
      else v\<lparr>v_aliases := enter_alias nm c (v_aliases v),
             v_count := (if map_of (v_aliases v) nm = None then v_count v + 1 else v_count v)\<rparr>)"

definition spec_set :: "string \<Rightarrow> bool \<Rightarrow> view \<Rightarrow> view" where
  "spec_set nm b v =
     (if nm = ''debug'' then v\<lparr>v_debug := b\<rparr>
      else if nm = ''color'' then v\<lparr>v_color := b\<rparr>
      else if nm = ''echo'' then v\<lparr>v_echo := b\<rparr>
      else v)"

text \<open>The commands that leave the shell as it is; \<^verbatim>\<open>cd\<close> fails, since the root has no entries.\<close>

definition plain_commands :: "string list" where
  "plain_commands =
     [''help'', ''clear'', ''echo'', ''exit'', ''pwd'', ''beep'', ''memory'', ''uptime'', ''ls'', ''cat'', ''mkdir'',
      ''touch'', ''rm'', ''write'', ''date'', ''banner'', ''history'', ''sysinfo'', ''calc'', ''sound'']"

definition spec_run :: "string list \<Rightarrow> view \<Rightarrow> view" where
  "spec_run ws v =
     (if ws = [] then v
      else let v = v\<lparr>v_code := 0\<rparr> in
        if hd ws = ''alias'' then (if length ws = 3 then spec_alias (ws ! 1) (ws ! 2) v else v)
        else if hd ws = ''set'' then (if length ws = 3 then spec_set (ws ! 1) (ws ! 2 = ''on'') v else v)
        else if hd ws = ''cd'' then v\<lparr>v_code := 1\<rparr>
        else if hd ws \<in> set plain_commands then v
        else v\<lparr>v_code := 127\<rparr>)"

definition spec_line :: "string \<Rightarrow> view \<Rightarrow> view" where
  "spec_line str v = (if str = [] then v else spec_run (spec_words str v) (remember str v))"

text \<open>The lines after which there is no next prompt: those that halt the machine, those whose division traps, and
  the line \<^verbatim>\<open>exit\<close>.\<close>

definition halts :: "string list \<Rightarrow> bool" where
  "halts ws \<longleftrightarrow> ws \<noteq> [] \<and> (hd ws = ''shutdown'' \<or> hd ws = ''reboot'')"

definition last_line :: "string \<Rightarrow> view \<Rightarrow> bool" where
  "last_line str v \<longleftrightarrow> halts (spec_words str v) \<or> calc_traps (spec_words str v) \<or> str = ''exit''"

fun spec_session :: "string list \<Rightarrow> view \<Rightarrow> view option" where
  "spec_session [] v = Some v"
| "spec_session (str # strs) v = (if last_line str v then None else spec_session strs (spec_line str v))"

section \<open>The concrete shell's words and history\<close>

lemma view_simps [simp]:
  "v_aliases (view h) = alias_list h" "v_count (view h) = alias_count h" "v_pos (view h) = history_pos h"
  "v_debug (view h) = debug_mode h" "v_color (view h) = color_enabled h" "v_echo (view h) = echo_enabled h"
  "v_code (view h) = last_exit_code h"
  by (simp_all add: view_def)

lemma spec_words_view: "spec_words str (view h) = command_words str h"
  unfolding spec_words_def command_words_def view_simps by (rule refl)

lemma view_current [simp]: "view (h\<lparr>current_history := k\<rparr>) = view h"
  by (simp add: view_def alias_list_def recent_def)

lemma view_exit: "view (h\<lparr>last_exit_code := c\<rparr>) = (view h)\<lparr>v_code := c\<rparr>"
  by (simp add: view_def alias_list_def recent_def)

lemma view_flags:
  "view (h\<lparr>debug_mode := b\<rparr>) = (view h)\<lparr>v_debug := b\<rparr>" "view (h\<lparr>color_enabled := b\<rparr>) = (view h)\<lparr>v_color := b\<rparr>"
  "view (h\<lparr>echo_enabled := b\<rparr>) = (view h)\<lparr>v_echo := b\<rparr>"
  by (simp_all add: view_def alias_list_def recent_def)

lemma upt10: "[0..<10] = 0 # map Suc [0..<9]"
  by (simp add: map_Suc_upt upt_conv_Cons)

lemma remember_view:
  assumes "shell_inv h" and "NUL \<notin> set str" and "str \<noteq> []" and "length str \<le> 126" and "add_to_history str h = Some h'"
  shows "view h' = remember str (view h)"
proof -
  have hd: "hd (v_history (view h)) = recent h 0" by (simp add: view_def upt10)
  have "0 < length str" using assms(3) by simp
  from add_history_recent [OF assms(1,2) this assms(4)] assms(5) have r: "recent h' 0 = str"
    "if history_pos h > 0 \<and> recent h 0 = str then h' = h
     else history_pos h' = (history_pos h + 1) mod 10 \<and> (\<forall>k. 0 \<le> k \<and> k < 9 \<longrightarrow> recent h' (k + 1) = recent h k)"
    and fr: "\<exists>hs p. h' = h\<lparr>history := hs, history_pos := p\<rparr>" by auto
  show ?thesis
  proof (cases "history_pos h > 0 \<and> recent h 0 = str")
    case True
    then show ?thesis using r(2) hd by (simp add: remember_def)
  next
    case False
    then have p: "history_pos h' = (history_pos h + 1) mod 10"
      and sh: "\<And>k. 0 \<le> k \<Longrightarrow> k < 9 \<Longrightarrow> recent h' (k + 1) = recent h k" using r(2) by auto
    have "map (\<lambda>k. recent h' (int k)) [0..<10] = str # map (\<lambda>k. recent h' (int (Suc k))) [0..<9]"
      by (simp add: upt10 o_def r(1))
    also have "map (\<lambda>k. recent h' (int (Suc k))) [0..<9] = map (\<lambda>k. recent h (int k)) [0..<9]"
    proof (rule map_cong [OF refl])
      show "recent h' (int (Suc k)) = recent h (int k)" if "k \<in> set [0..<9]" for k
        using sh [of "int k"] that by (simp add: add.commute)
    qed
    also have "\<dots> = butlast (map (\<lambda>k. recent h (int k)) [0..<10])"
      by (simp add: upt_conv_Cons)
    finally have hist: "v_history (view h') = str # butlast (v_history (view h))" by (simp add: view_def)
    obtain hs q where h': "h' = h\<lparr>history := hs, history_pos := q\<rparr>" using fr by blast
    have "view h' = (view h)\<lparr>v_history := v_history (view h'), v_pos := history_pos h'\<rparr>"
      by (simp add: h' view_def alias_list_def)
    moreover have "\<not> (v_pos (view h) > 0 \<and> hd (v_history (view h)) = str)" using False hd by simp
    then have "remember str (view h) =
        (view h)\<lparr>v_history := str # butlast (v_history (view h)), v_pos := (v_pos (view h) + 1) mod 10\<rparr>"
      unfolding remember_def by (rule if_not_P)
    ultimately show ?thesis using hist p by simp
  qed
qed

end
