(* ===== verification/Observe.thy ===== *)
theory Observe
  imports ShellMain
begin

text \<open>
  What the shell's commands leave alone. An observation of the system that the screen, the file
  system and the log of port writes do not show in is the same after every command that only prints, plays or
  uses files; one that the shell's own statics and the keyboard do not show in either is the same after every
  command and every line. The steps are taken once here, for any such observation; the shell's statics are
  one, and what the kernel keeps of its tasks and its time is another.
\<close>

named_theorems obs_dest \<open>a step that returned shows what the state before shows\<close>

fun flow_state :: "flow \<Rightarrow> sys" where
  "flow_state (Return s) = s"
| "flow_state (Fall s) = s"
| "flow_state (Halt s) = s"

section \<open>Observations that output does not change\<close>

locale observation =
  fixes obs :: "sys \<Rightarrow> 'b"
  assumes screen_law: "obs (s\<lparr>mach := (mach s)\<lparr>screen := t\<rparr>\<rparr>) = obs s"
    and files_law: "obs (s\<lparr>mach := (mach s)\<lparr>fs := f\<rparr>\<rparr>) = obs s"
    and log_law: "obs (s\<lparr>mach := (mach s)\<lparr>irq := (irq (mach s))\<lparr>iports := p\<rparr>\<rparr>\<rparr>) = obs s"
begin

lemma put_str_obs [obs_dest]: "put_str fmt args s = Some t \<Longrightarrow> obs t = obs s"
  by (auto simp: put_str_def kprint_def option_bind_Some_iff screen_law)

lemma print_color_obs: "print_color str c s = Some t \<Longrightarrow> obs t = obs s"
  by (auto simp: print_color_def option_bind_Some_iff set_color_def screen_law split: if_splits dest!: put_str_obs)

lemma print_obs [obs_dest]:
  "print_info str s = Some t \<Longrightarrow> obs t = obs s" "print_error str s = Some t \<Longrightarrow> obs t = obs s"
  "print_success str s = Some t \<Longrightarrow> obs t = obs s" "print_warning str s = Some t \<Longrightarrow> obs t = obs s"
  using print_color_obs by (auto simp: print_info_def print_error_def print_success_def print_warning_def)

lemma sys_fs_obs [obs_dest]: "sys_fs f s = Some (r, t) \<Longrightarrow> obs t = obs s"
  by (auto simp: sys_fs_def on_fs_def option_bind_Some_iff files_law)

lemma close_node_obs [obs_dest]: "sys_close_node p s = Some t \<Longrightarrow> obs t = obs s"
  by (auto simp: sys_close_node_def option_bind_Some_iff files_law)

lemma sound_obs [simp]:
  "obs (sys_beep f s) = obs s" "obs (sys_nosound s) = obs s" "obs (play_startup_sound s) = obs s" "obs (cmd_clear s) = obs s"
  "obs (set_bytes b s) = obs s"
proof -
  show a: "obs (sys_beep f s) = obs s" "obs (sys_nosound s) = obs s" for f s
    by (simp_all add: sys_beep_def sys_nosound_def Let_def log_law)
  have "obs (fold (\<lambda>note s. delay 50 (sys_nosound (delay 200 (sys_beep note s)))) ns s) = obs s" for ns s
    by (induction ns arbitrary: s) (simp_all add: a)
  then show "obs (play_startup_sound s) = obs s" by (simp only: play_startup_sound_def)
qed (simp_all add: cmd_clear_def set_bytes_def screen_law files_law)

lemma put_lines_obs [obs_dest]: "put_lines ls s = Some t \<Longrightarrow> obs t = obs s"
  by (induction ls arbitrary: s) (auto simp: option_bind_Some_iff dest!: obs_dest)

lemma echo_loop_obs [obs_dest]: "echo_loop ws s = Some t \<Longrightarrow> obs t = obs s"
  by (induction ws arbitrary: s) (auto simp: option_bind_Some_iff split: if_splits dest!: obs_dest)

lemma show_history_loop_obs [obs_dest]: "show_history_loop is s = Some t \<Longrightarrow> obs t = obs s"
  by (induction "is" arbitrary: s) (auto simp: option_bind_Some_iff Let_def split: if_splits dest!: obs_dest)

lemma list_alias_loop_obs [obs_dest]: "list_alias_loop es s = Some t \<Longrightarrow> obs t = obs s"
  by (induction es arbitrary: s) (auto simp: option_bind_Some_iff dest!: obs_dest)

lemma ls_loop_obs [obs_dest]:
  assumes "ls_loop dir i s = Some t"
  shows "obs t = obs s"
proof (rule ls_loop.raw_induct [where P = "\<lambda>dir i s t. obs t = obs s", OF _ assms])
  fix loop :: "addr \<Rightarrow> u32 \<Rightarrow> sys \<Rightarrow> sys option" and dir i s t
  assume IH: "\<And>dir i s t. loop dir i s = Some t \<Longrightarrow> obs t = obs s"
    and body: "sys_fs (vfs_readdir dir i) s \<bind> (\<lambda>(entry, s). case entry of None \<Rightarrow> Some s
       | Some e \<Rightarrow> put_str (ln ''  %s'') [VStr (Some (d_name e))] s \<bind> loop dir (i + 1)) = Some t"
  then obtain e s1 where e: "sys_fs (vfs_readdir dir i) s = Some (e, s1)"
    and k: "(case e of None \<Rightarrow> Some s1
       | Some e \<Rightarrow> put_str (ln ''  %s'') [VStr (Some (d_name e))] s1 \<bind> loop dir (i + 1)) = Some t"
    by (auto simp: option_bind_Some_iff)
  have s1: "obs s1 = obs s" by (rule sys_fs_obs [OF e])
  show "obs t = obs s"
  proof (cases e)
    case None
    then show ?thesis using k s1 by simp
  next
    case (Some d)
    then obtain s2 where "put_str (ln ''  %s'') [VStr (Some (d_name d))] s1 = Some s2" and l: "loop dir (i + 1) s2 = Some t"
      using k by (auto simp: option_bind_Some_iff)
    then have "obs s2 = obs s1" by (intro put_str_obs)
    then show ?thesis using IH [OF l] s1 by simp
  qed
qed

lemma cat_loop_obs [obs_dest]:
  assumes "cat_loop fd s = Some t"
  shows "obs t = obs s"
proof (rule cat_loop.raw_induct [where P = "\<lambda>fd s t. obs t = obs s", OF _ assms])
  fix loop :: "int \<Rightarrow> sys \<Rightarrow> sys option" and fd s t
  assume IH: "\<And>fd s t. loop fd s = Some t \<Longrightarrow> obs t = obs s"
    and body: "sys_fs (read_fd fd (frame s) 1023) s \<bind> (\<lambda>(bytes_read, s).
         if bytes_read > 0
         then st (sys_bytes s) (frame s + nat bytes_read) NUL \<bind>
              (\<lambda>b. read_cstr b (frame s) \<bind>
                   (\<lambda>str. put_str ''%s'' [VStr (Some str)] (set_bytes b s) \<bind> loop fd))
         else Some s) = Some t"
  then obtain n s1 where e: "sys_fs (read_fd fd (frame s) 1023) s = Some (n, s1)"
    and k: "(if n > 0
         then st (sys_bytes s1) (frame s1 + nat n) NUL \<bind>
              (\<lambda>b. read_cstr b (frame s1) \<bind>
                   (\<lambda>str. put_str ''%s'' [VStr (Some str)] (set_bytes b s1) \<bind> loop fd))
         else Some s1) = Some t"
    by (auto simp: option_bind_Some_iff)
  have s1: "obs s1 = obs s" by (rule sys_fs_obs [OF e])
  show "obs t = obs s"
  proof (cases "n > 0")
    case False
    then show ?thesis using k s1 by simp
  next
    case True
    then obtain b str s2 where p: "put_str ''%s'' [VStr (Some str)] (set_bytes b s1) = Some s2" and l: "loop fd s2 = Some t"
      using k by (auto simp: option_bind_Some_iff)
    have "obs s2 = obs s1" using put_str_obs [OF p] by simp
    then show ?thesis using IH [OF l] s1 by simp
  qed
qed

section \<open>Commands\<close>

lemma plain_obs:
  "cmd_help s = Some t \<Longrightarrow> obs t = obs s" "echo_test args s = Some t \<Longrightarrow> obs t = obs s"
  "cmd_pwd s = Some t \<Longrightarrow> obs t = obs s" "show_memory_info s = Some t \<Longrightarrow> obs t = obs s"
  "cmd_uptime s = Some t \<Longrightarrow> obs t = obs s" "display_banner s = Some t \<Longrightarrow> obs t = obs s"
  "show_history s = Some t \<Longrightarrow> obs t = obs s" "show_system_info s = Some t \<Longrightarrow> obs t = obs s"
  "list_aliases s = Some t \<Longrightarrow> obs t = obs s" "debug_report args s = Some t \<Longrightarrow> obs t = obs s"
  by (auto simp: cmd_help_def echo_test_def cmd_pwd_def show_memory_info_def get_memory_stats_def cmd_uptime_def display_banner_def
      show_history_def show_system_info_def list_aliases_def debug_report_def option_bind_Some_iff Let_def
      split: if_splits dest!: obs_dest)

lemma calculator_obs: "calculator args s = Some t \<Longrightarrow> obs t = obs s"
proof -
  assume c: "calculator args s = Some t"
  show ?thesis
  proof (cases "length args = 4")
    case True
    then obtain r where "(case r of DivByZero \<Rightarrow> print_error (ln ''Error: Division by zero'') s
               | BadOperator \<Rightarrow> print_error (ln ''Error: Unknown operator'') s
               | Value v \<Rightarrow> put_str (ln ''%d %c %d = %d'')
                   [VInt (word_of_int (atoi_spec (args ! 1))), VInt (word_of_int (schar (hd (args ! 2 @ [NUL])))),
                    VInt (word_of_int (atoi_spec (args ! 3))), VInt v] s) = Some t"
      using c by (auto simp: calculator_def option_bind_Some_iff Let_def simp del: One_nat_def)
    then show ?thesis by (cases r) (auto dest!: obs_dest)
  qed (use c in \<open>auto simp: calculator_def option_bind_Some_iff dest!: obs_dest\<close>)
qed

lemma file_obs:
  "cmd_ls s = Some r \<Longrightarrow> obs (flow_state r) = obs s" "cmd_cat args s = Some r \<Longrightarrow> obs (flow_state r) = obs s"
  "cmd_touch args s = Some r \<Longrightarrow> obs (flow_state r) = obs s" "cmd_stub u m args s = Some r \<Longrightarrow> obs (flow_state r) = obs s"
  by (auto simp: cmd_ls_def cmd_cat_def cmd_touch_def cmd_stub_def option_bind_Some_iff split: if_splits dest!: obs_dest)

lemma write_obs: "cmd_write args s = Some r \<Longrightarrow> obs (flow_state r) = obs s"
  by (auto simp: cmd_write_def option_bind_Some_iff split: if_splits dest!: obs_dest)

end

section \<open>Observations of the kernel under the shell\<close>

locale kernel_observation = observation +
  assumes shell_law: "obs (s\<lparr>sh := h\<rparr>) = obs s"
    and keys_law: "obs (s\<lparr>mach := (mach s)\<lparr>irq := i\<rparr>\<rparr>) = obs s"
begin

lemma shell_update_obs [simp]:
  "obs (set_alias k e s) = obs s" "obs (set_exit c s) = obs s" "obs (set_current_history k s) = obs s"
  "obs (sys_putchar ch s) = obs s"
  by (simp_all add: set_alias_def set_exit_def set_current_history_def sys_putchar_def shell_law screen_law)

lemma add_alias_obs [obs_dest]: "add_alias nm c s = Some t \<Longrightarrow> obs t = obs s"
  by (auto simp: add_alias_def option_bind_Some_iff Let_def shell_law split: if_splits option.splits dest!: obs_dest)

lemma table_obs:
  "cmd_alias args s = Some t \<Longrightarrow> obs t = obs s" "cmd_set args s = Some t \<Longrightarrow> obs t = obs s"
  "cmd_cd args s = Some t \<Longrightarrow> obs t = obs s" "cmd_other args s = Some t \<Longrightarrow> obs t = obs s"
  by (auto simp: cmd_alias_def cmd_set_def cmd_cd_def cmd_other_def option_bind_Some_iff Let_def shell_law
      split: if_splits dest!: obs_dest plain_obs(9))

text \<open>A flow that goes on shows the same.\<close>

lemma falls_obs:
  "falls (cmd_help s) = Some r \<Longrightarrow> obs (flow_state r) = obs s" "falls (echo_test args s) = Some r \<Longrightarrow> obs (flow_state r) = obs s"
  "falls (cmd_pwd s) = Some r \<Longrightarrow> obs (flow_state r) = obs s" "falls (cmd_cd args s) = Some r \<Longrightarrow> obs (flow_state r) = obs s"
  "falls (show_memory_info s) = Some r \<Longrightarrow> obs (flow_state r) = obs s" "falls (cmd_uptime s) = Some r \<Longrightarrow> obs (flow_state r) = obs s"
  "falls (display_banner s) = Some r \<Longrightarrow> obs (flow_state r) = obs s" "falls (cmd_alias args s) = Some r \<Longrightarrow> obs (flow_state r) = obs s"
  "falls (cmd_set args s) = Some r \<Longrightarrow> obs (flow_state r) = obs s" "falls (show_history s) = Some r \<Longrightarrow> obs (flow_state r) = obs s"
  "falls (show_system_info s) = Some r \<Longrightarrow> obs (flow_state r) = obs s" "falls (calculator args s) = Some r \<Longrightarrow> obs (flow_state r) = obs s"
  "falls (cmd_other args s) = Some r \<Longrightarrow> obs (flow_state r) = obs s"
  using plain_obs calculator_obs table_obs by (auto simp: falls_def)

lemma state_obs:
  "Some (Fall (cmd_clear s)) = Some r \<Longrightarrow> obs (flow_state r) = obs s"
  "Some (Fall (sys_nosound (delay ms (sys_beep f s)))) = Some r \<Longrightarrow> obs (flow_state r) = obs s"
  "Some (Fall (play_startup_sound s)) = Some r \<Longrightarrow> obs (flow_state r) = obs s"
  "map_option Return (print_info str s) = Some r \<Longrightarrow> obs (flow_state r) = obs s"
  by (auto dest!: obs_dest)

lemma halt_obs:
  "cmd_shutdown s = Some r \<Longrightarrow> \<forall>t. r \<noteq> Halt t \<Longrightarrow> obs (flow_state r) = obs s"
  "cmd_reboot s = Some r \<Longrightarrow> \<forall>t. r \<noteq> Halt t \<Longrightarrow> obs (flow_state r) = obs s"
  by (auto simp: cmd_shutdown_def cmd_reboot_def option_bind_Some_iff Let_def)

lemma dispatch_obs:
  assumes "dispatch args s = Some r" and "\<forall>t. r \<noteq> Halt t"
  shows "obs (flow_state r) = obs s"
proof -
  have either: "(if b then x else y) = Some r \<Longrightarrow> (x = Some r \<Longrightarrow> Q) \<Longrightarrow> (y = Some r \<Longrightarrow> Q) \<Longrightarrow> Q"
    for b Q and x y :: "flow option" by (cases b) simp_all
  from assms(1) show ?thesis unfolding dispatch_def Let_def
    by (elim either falls_obs state_obs file_obs write_obs halt_obs [OF _ assms(2)])
qed

lemma execute_command_obs: "execute_command str s = Some (Running t) \<Longrightarrow> obs t = obs s"
proof -
  assume run: "execute_command str s = Some (Running t)"
  show ?thesis
  proof (cases "str = []")
    case True
    then show ?thesis using run by (simp add: execute_command_def)
  next
    case False
    then obtain h args where a: "add_to_history str (sh s) = Some h" "parse_command str = Some args"
      using run by (auto simp: execute_command_def option_bind_Some_iff Let_def)
    show ?thesis
    proof (cases "args = []")
      case True
      then show ?thesis using run False a by (auto simp: execute_command_def Let_def shell_law)
    next
      case ne: False
      then obtain ws f where f: "dispatch ws (set_exit 0 (s\<lparr>sh := h\<rparr>)) = Some f"
        and out: "(case f of Return s \<Rightarrow> Some (Running s) | Halt s \<Rightarrow> Some (Halted s)
            | Fall s \<Rightarrow> map_option Running (debug_report ws s)) = Some (Running t)"
        using run False a by (auto simp: execute_command_def option_bind_Some_iff Let_def split: if_splits)
      have "\<forall>u. f \<noteq> Halt u" using out by (cases f) auto
      then have "obs (flow_state f) = obs s" using dispatch_obs [OF f] by (simp add: shell_law)
      then show ?thesis using out plain_obs(10) by (cases f) auto
    qed
  qed
qed

text \<open>The line editor and the reading of a line.\<close>

lemma erase_line_obs [obs_dest]: "erase_line s l = Some (t, k) \<Longrightarrow> obs t = obs s"
proof -
  have "erase_loop n s = Some t \<Longrightarrow> obs t = obs s" for n s t
    by (induction n arbitrary: s) (auto simp: option_bind_Some_iff dest!: put_str_obs)
  then show "erase_line s l = Some (t, k) \<Longrightarrow> obs t = obs s" by (auto simp: erase_line_def option_bind_Some_iff)
qed

lemma recall_obs [obs_dest]: "recall k s l = Some (t, l') \<Longrightarrow> obs t = obs s"
  by (auto simp: recall_def option_bind_Some_iff split: if_splits dest!: obs_dest)

lemma fold_putchar_obs: "obs (fold sys_putchar str s) = obs s"
  by (induction str arbitrary: s) simp_all

lemma edit_obs [obs_dest]:
  "key_up s l = Some (t, k) \<Longrightarrow> obs t = obs s" "key_down s l = Some (t, k) \<Longrightarrow> obs t = obs s"
  "key_tab s l = Some (t, k) \<Longrightarrow> obs t = obs s"
  by (auto simp: key_up_def key_down_def key_tab_def option_bind_Some_iff fold_putchar_obs Let_def
      split: if_splits option.splits dest!: obs_dest)

lemma shell_key_obs: "shell_key c s l = Some (b, t, k) \<Longrightarrow> obs t = obs s"
  by (auto simp: shell_key_def option_bind_Some_iff split: if_splits dest!: obs_dest)

lemma read_line_obs:
  assumes "read_line scs s l = Some (t, k, rest)"
  shows "obs t = obs s"
proof -
  have "obs (fst r) = obs s" if "read_line scs s l = Some r" for r
  proof (rule read_line.raw_induct [where P = "\<lambda>scs s l r. obs (fst r) = obs s", OF _ that])
    fix loop :: "u8 list \<Rightarrow> sys \<Rightarrow> line \<Rightarrow> (sys \<times> line \<times> u8 list) option" and scs s l r
    assume IH: "\<And>scs s l r. loop scs s l = Some r \<Longrightarrow> obs (fst r) = obs s"
      and body: "sys_getchar scs s \<bind> (\<lambda>(c, s, scs). shell_key c s l \<bind>
          (\<lambda>(complete, s, l). if complete then Some (s, l, scs) else loop scs s l)) = Some r"
    then obtain c s1 scs1 b s2 l2 where g: "sys_getchar scs s = Some (c, s1, scs1)" "shell_key c s1 l = Some (b, s2, l2)"
      "(if b then Some (s2, l2, scs1) else loop scs1 s2 l2) = Some r"
      by (auto simp: option_bind_Some_iff)
    have "obs s1 = obs s" using g(1) by (auto simp: sys_getchar_def option_bind_Some_iff keys_law)
    then show "obs (fst r) = obs s" using shell_key_obs [OF g(2)] g(3) IH by (cases b) auto
  qed
  from this [OF assms] show ?thesis by simp
qed

lemma show_prompt_obs: "show_prompt s = Some t \<Longrightarrow> obs t = obs s"
  by (auto simp: show_prompt_def option_bind_Some_iff split: if_splits dest!: obs_dest)

lemma shell_greeting_obs: "shell_greeting s = Some t \<Longrightarrow> obs t = obs s"
  by (auto simp: shell_greeting_def option_bind_Some_iff dest!: obs_dest plain_obs(6))

end

end
