(* ===== verification/SessionFacts.thy ===== *)
theory SessionFacts
  imports SessionSpec Observe
begin

text \<open>
  The effect of every command on the shell's tables and settings: most have none, and \<^verbatim>\<open>alias\<close>, \<^verbatim>\<open>set\<close>,
  \<^verbatim>\<open>cd\<close> and unknown words have that of the abstract shell.
\<close>

section \<open>Steps that leave the shell's statics alone\<close>

interpretation shell_seen: observation sh
  by unfold_locales simp_all

section \<open>Commands that change the shell\<close>

lemma word_eq: "\<forall>w \<in> set args. NUL \<notin> set w \<Longrightarrow> k < length args \<Longrightarrow> NUL \<notin> set str \<Longrightarrow>
  strcmp_spec (args ! k) str = 0 \<longleftrightarrow> args ! k = str"
  using strcmp_spec_eq_0 [of "args ! k" str] by simp

lemma set_view:
  assumes "\<forall>w \<in> set args. NUL \<notin> set w" and "cmd_set args s = Some t"
  shows "view (sh t) = (if length args = 3 then spec_set (args ! 1) (args ! 2 = ''on'') (view (sh s)) else view (sh s))"
proof (cases "length args = 3")
  case False
  then have "sh t = sh s" using assms(2)
    by (auto simp: cmd_set_def option_bind_Some_iff split: if_splits dest!: obs_dest)
  then show ?thesis using False by simp
next
  case True
  then have on: "strcmp_spec (args ! 2) ''on'' = 0 \<longleftrightarrow> args ! 2 = ''on''"
    and nm: "NUL \<notin> set str \<Longrightarrow> strcmp_spec (args ! 1) str = 0 \<longleftrightarrow> args ! 1 = str" for str
    using word_eq [OF assms(1)] by simp_all
  from True assms(2) show ?thesis
    by (auto simp: cmd_set_def on nm spec_set_def view_flags Let_def simp del: One_nat_def split: if_splits dest!: obs_dest)
qed

lemma add_alias_fields:
  assumes "add_alias nm c s = Some t"
  shows "\<exists>a n. sh t = (sh s)\<lparr>aliases := a, alias_count := n\<rparr>"
proof -
  have self: "\<exists>a n. sh s = (sh s)\<lparr>aliases := a, alias_count := n\<rparr>"
    by (rule exI [of _ "aliases (sh s)"], rule exI [of _ "alias_count (sh s)"]) simp
  show ?thesis
  proof (cases "alias_count (sh s) \<ge> MAX_ALIASES")
    case True
    then have "sh t = sh s" using assms by (auto simp: add_alias_def dest!: obs_dest)
    then show ?thesis using self by (simp only:)
  next
    case False
    then obtain hit where hit: "find_alias (take (nat (alias_count (sh s))) (aliases (sh s))) nm 0 = Some hit"
      using assms by (auto simp: add_alias_def option_bind_Some_iff Let_def)
    show ?thesis
    proof (cases hit)
      case None
      then obtain e where "sh t = (sh (set_alias (alias_count (sh s)) e s))\<lparr>alias_count := alias_count (sh s) + 1\<rparr>"
        using assms False hit by (auto simp: add_alias_def option_bind_Some_iff Let_def dest!: obs_dest)
      then show ?thesis by (auto simp: set_alias_def)
    next
      case (Some i)
      then obtain e where "sh t = sh (set_alias (int i) e s)"
        using assms False hit by (auto simp: add_alias_def option_bind_Some_iff Let_def dest!: obs_dest)
      then show ?thesis
        by (intro exI [of _ "(aliases (sh s))[i := e]"] exI [of _ "alias_count (sh s)"]) (simp add: set_alias_def)
    qed
  qed
qed

lemma add_alias_view:
  assumes "shell_inv (sh s)" and "alias_count (sh s) < 20" and "NUL \<notin> set nm" and "length nm < 160"
    and "NUL \<notin> set c" and "length c < 128" and a: "add_alias nm c s = Some t"
  shows "view (sh t) = spec_alias nm c (view (sh s))"
proof -
  from add_alias_enters [OF assms(1-6)] a have m: "alias_list (sh t) = enter_alias nm c (alias_list (sh s))"
    "alias_count (sh t) = (if nm \<in> fst ` set (alias_list (sh s)) then alias_count (sh s) else alias_count (sh s) + 1)"
    by auto
  obtain es n where f: "sh t = (sh s)\<lparr>aliases := es, alias_count := n\<rparr>" using add_alias_fields [OF a] by blast
  have "view (sh t) = (view (sh s))\<lparr>v_aliases := alias_list (sh t), v_count := alias_count (sh t)\<rparr>"
    by (simp add: f view_def recent_def)
  then show ?thesis using assms(2) by (simp add: m spec_alias_def map_of_eq_None_iff)
qed

lemma alias_view:
  assumes inv: "shell_inv (sh s)" and words: "\<forall>w \<in> set args. NUL \<notin> set w \<and> length w < 128"
    and run: "cmd_alias args s = Some t"
  shows "view (sh t) = (if length args = 3 then spec_alias (args ! 1) (args ! 2) (view (sh s)) else view (sh s))"
proof (cases "length args = 3")
  case False
  then have "sh t = sh s" using run by (auto simp: cmd_alias_def split: if_splits dest!: obs_dest shell_seen.plain_obs(9))
  then show ?thesis using False by simp
next
  case True
  then have a: "add_alias (args ! 1) (args ! 2) s = Some t" using run by (simp add: cmd_alias_def)
  show ?thesis
  proof (cases "alias_count (sh s) < 20")
    case F: False
    then have "sh t = sh s" using a by (auto simp: add_alias_def MAX_ALIASES_def dest!: obs_dest)
    then show ?thesis using True F by (simp add: spec_alias_def)
  next
    case room: True
    have "args ! 1 \<in> set args" "args ! 2 \<in> set args" using True by simp_all
    then have "NUL \<notin> set (args ! 1) \<and> length (args ! 1) < 128" "NUL \<notin> set (args ! 2) \<and> length (args ! 2) < 128"
      using words by blast+
    then have w: "NUL \<notin> set (args ! 1)" "NUL \<notin> set (args ! 2)" "length (args ! 2) < 128" "length (args ! 1) < 160" by auto
    show ?thesis using add_alias_view [OF inv room w(1,4,2,3) a] True by simp
  qed
qed

lemma cd_view:
  assumes "booted (fs (mach s))" and "cmd_cd args s = Some t"
  shows "view (sh t) = (view (sh s))\<lparr>v_code := 1\<rparr>"
proof -
  have "sys_fs (vfs_finddir (fs_root (fs (mach s))) path) s = Some (NULL, s)" for path
    using booted_finddir [OF assms(1)] by (rule sys_fs_same)
  then obtain u where "sh u = sh s" "t = set_exit 1 u" using assms(2)
    by (auto simp: cmd_cd_def option_bind_Some_iff Let_def dest!: obs_dest)
  then show ?thesis by (simp add: set_exit_def view_exit)
qed

lemma other_view:
  assumes "booted (fs (mach s))" and "cmd_other args s = Some t"
  shows "view (sh t) = (view (sh s))\<lparr>v_code := 127\<rparr>"
proof -
  have "sys_fs (vfs_finddir (fs_root (fs (mach s))) path) s = Some (NULL, s)" for path
    using booted_finddir [OF assms(1)] by (rule sys_fs_same)
  then obtain u where "sh u = sh s" "t = set_exit 127 u" using assms(2)
    by (auto simp: cmd_other_def option_bind_Some_iff dest!: obs_dest)
  then show ?thesis by (simp add: set_exit_def view_exit)
qed

section \<open>The dispatch\<close>

text \<open>On a word without NUL the comparisons are equalities.\<close>

lemma dispatch_names:
  assumes "NUL \<notin> set (args ! 0)"
  shows "dispatch args s =
     (let is = (\<lambda>name. args ! 0 = name) in
      if is ''help'' then falls (cmd_help s)
      else if is ''clear'' then Some (Fall (cmd_clear s))
      else if is ''echo'' then falls (echo_test args s)
      else if is ''exit'' then map_option Return (print_info (ln ''Goodbye!'') s)
      else if is ''shutdown'' then cmd_shutdown s
      else if is ''reboot'' then cmd_reboot s
      else if is ''pwd'' then falls (cmd_pwd s)
      else if is ''cd'' then falls (cmd_cd args s)
      else if is ''beep'' then Some (Fall (sys_nosound (delay 500 (sys_beep 1000 s))))
      else if is ''memory'' then falls (show_memory_info s)
      else if is ''uptime'' then falls (cmd_uptime s)
      else if is ''ls'' then cmd_ls s
      else if is ''cat'' then cmd_cat args s
      else if is ''mkdir'' then cmd_stub ''Usage: mkdir <directory>'' ''mkdir: Not implemented yet'' args s
      else if is ''touch'' then cmd_touch args s
      else if is ''rm'' then cmd_stub ''Usage: rm <file>'' ''rm: Not implemented yet'' args s
      else if is ''write'' then cmd_write args s
      else if is ''date'' then falls (cmd_uptime s)
      else if is ''banner'' then falls (display_banner s)
      else if is ''alias'' then falls (cmd_alias args s)
      else if is ''set'' then falls (cmd_set args s)
      else if is ''history'' then falls (show_history s)
      else if is ''sysinfo'' then falls (show_system_info s)
      else if is ''calc'' then falls (calculator args s)
      else if is ''sound'' then Some (Fall (play_startup_sound s))
      else falls (cmd_other args s))"
proof -
  have "strcmp_spec (args ! 0) str = 0 \<longleftrightarrow> args ! 0 = str" if "NUL \<notin> set str" for str
    by (rule strcmp_spec_eq_0 [OF assms that])
  then show ?thesis unfolding dispatch_def Let_def by (intro if_cong refl) simp_all
qed

text \<open>A flow that goes on with the statics it started with.\<close>

definition quiet :: "sys \<Rightarrow> flow \<Rightarrow> bool" where
  "quiet s r \<longleftrightarrow> sh (flow_state r) = sh s \<and> (\<forall>t. r \<noteq> Halt t)"

named_theorems quiet_flow \<open>commands whose flow goes on with the statics it started with\<close>

lemma falls_quiet [quiet_flow]:
  "falls (cmd_help s) = Some r \<Longrightarrow> quiet s r" "falls (echo_test args s) = Some r \<Longrightarrow> quiet s r"
  "falls (cmd_pwd s) = Some r \<Longrightarrow> quiet s r" "falls (show_memory_info s) = Some r \<Longrightarrow> quiet s r"
  "falls (cmd_uptime s) = Some r \<Longrightarrow> quiet s r" "falls (display_banner s) = Some r \<Longrightarrow> quiet s r"
  "falls (show_history s) = Some r \<Longrightarrow> quiet s r" "falls (show_system_info s) = Some r \<Longrightarrow> quiet s r"
  "falls (calculator args s) = Some r \<Longrightarrow> quiet s r"
  using shell_seen.plain_obs shell_seen.calculator_obs by (auto simp: quiet_def falls_def)

lemma states_quiet [quiet_flow]:
  "Fall (cmd_clear s) = r \<Longrightarrow> quiet s r" "Fall (sys_nosound (sys_beep f s)) = r \<Longrightarrow> quiet s r"
  "Fall (play_startup_sound s) = r \<Longrightarrow> quiet s r"
  "\<exists>z. print_info str s = Some z \<and> Return z = r \<Longrightarrow> quiet s r"
  by (auto simp: quiet_def dest!: obs_dest)

lemma files_quiet [quiet_flow]:
  "cmd_ls s = Some r \<Longrightarrow> quiet s r" "cmd_cat args s = Some r \<Longrightarrow> quiet s r"
  "cmd_touch args s = Some r \<Longrightarrow> quiet s r" "cmd_stub u m args s = Some r \<Longrightarrow> quiet s r"
  "cmd_write args s = Some r \<Longrightarrow> quiet s r"
proof -
  have h: "cmd_ls s = Some r \<Longrightarrow> \<forall>t. r \<noteq> Halt t" "cmd_cat args s = Some r \<Longrightarrow> \<forall>t. r \<noteq> Halt t"
    "cmd_touch args s = Some r \<Longrightarrow> \<forall>t. r \<noteq> Halt t" "cmd_stub u m args s = Some r \<Longrightarrow> \<forall>t. r \<noteq> Halt t"
    "cmd_write args s = Some r \<Longrightarrow> \<forall>t. r \<noteq> Halt t"
    by (auto simp: cmd_ls_def cmd_cat_def cmd_touch_def cmd_stub_def cmd_write_def option_bind_Some_iff split: if_splits)
  show "cmd_ls s = Some r \<Longrightarrow> quiet s r" "cmd_cat args s = Some r \<Longrightarrow> quiet s r"
    "cmd_touch args s = Some r \<Longrightarrow> quiet s r" "cmd_stub u m args s = Some r \<Longrightarrow> quiet s r"
    "cmd_write args s = Some r \<Longrightarrow> quiet s r"
    using h shell_seen.file_obs shell_seen.write_obs by (simp_all add: quiet_def)
qed

lemma dispatch_plain:
  assumes "args ! 0 \<in> set plain_commands" and "dispatch args s = Some r"
  shows "quiet s r"
proof -
  have nul: "NUL \<notin> set (args ! 0)" using assms(1) by (auto simp: plain_commands_def)
  note d = assms(2) [unfolded dispatch_names [OF nul] Let_def]
  from assms(1) show ?thesis
    unfolding plain_commands_def list.set insert_iff empty_iff
    apply (elim disjE)
    apply (insert d)
    apply simp_all
    apply (erule quiet_flow)+
    done
qed

text \<open>The whole dispatch against the abstract shell.\<close>

lemma dispatch_view:
  assumes inv: "sys_inv i s" and code: "last_exit_code (sh s) = 0"
    and words: "args \<noteq> []" "\<forall>w \<in> set args. is_word w \<and> length w < 128"
    and run: "dispatch args s = Some r"
  shows "if halts args then \<exists>t. r = Halt t
    else (\<forall>t. r \<noteq> Halt t) \<and> view (sh (flow_state r)) = spec_run args (view (sh s))"
proof -
  have nul: "\<forall>w \<in> set args. NUL \<notin> set w" using words(2) by (auto simp: is_word_def)
  then have n0: "NUL \<notin> set (args ! 0)" using words(1) by simp
  have h0: "hd args = args ! 0" using words(1) by (simp add: hd_conv_nth)
  have b: "booted (fs (mach s))" by (rule sys_inv_booted [OF inv])
  have v0: "(view (sh s))\<lparr>v_code := 0\<rparr> = view (sh s)" using code by (simp add: view_def)
  note d = run [unfolded dispatch_names [OF n0] Let_def]
  consider "args ! 0 \<in> set plain_commands" | "args ! 0 = ''alias''" | "args ! 0 = ''set''" | "args ! 0 = ''cd''"
    | "args ! 0 = ''shutdown''" | "args ! 0 = ''reboot''"
    | "args ! 0 \<notin> set plain_commands" "args ! 0 \<notin> {''alias'', ''set'', ''cd'', ''shutdown'', ''reboot''}" by blast
  then show ?thesis
  proof cases
    case 1
    then have "\<not> halts args" "args ! 0 \<notin> {''alias'', ''set'', ''cd''}"
      by (auto simp: halts_def h0 plain_commands_def)
    then show ?thesis using dispatch_plain [OF 1 run] words(1) 1 v0
      by (simp add: quiet_def spec_run_def h0 Let_def)
  next
    case 2
    then obtain t where t: "cmd_alias args s = Some t" "r = Fall t" using d by (auto simp: falls_def)
    have "view (sh t) = (if length args = 3 then spec_alias (args ! 1) (args ! 2) (view (sh s)) else view (sh s))"
      by (rule alias_view [OF sys_inv_shell_inv [OF inv] _ t(1)]) (use words(2) nul in blast)
    then show ?thesis using t(2) 2 words(1) v0 by (simp add: halts_def spec_run_def h0 Let_def)
  next
    case 3
    then obtain t where t: "cmd_set args s = Some t" "r = Fall t" using d by (auto simp: falls_def)
    then show ?thesis using set_view [OF nul t(1)] 3 words(1) v0 by (simp add: halts_def spec_run_def h0 Let_def)
  next
    case 4
    then obtain t where t: "cmd_cd args s = Some t" "r = Fall t" using d by (auto simp: falls_def)
    then show ?thesis using cd_view [OF b t(1)] 4 words(1) v0 by (simp add: halts_def spec_run_def h0 Let_def)
  next
    case 5
    then have "cmd_shutdown s = Some r" using d by simp
    then show ?thesis using 5 words(1) by (auto simp: halts_def h0 cmd_shutdown_def option_bind_Some_iff)
  next
    case 6
    then have "cmd_reboot s = Some r" using d by simp
    then show ?thesis using 6 words(1) by (auto simp: halts_def h0 cmd_reboot_def option_bind_Some_iff Let_def)
  next
    case 7
    have "dispatch args s = falls (cmd_other args s)"
      using 7 unfolding dispatch_names [OF n0] Let_def plain_commands_def by simp
    then have "falls (cmd_other args s) = Some r" using run by simp
    then obtain t where t: "cmd_other args s = Some t" "r = Fall t" by (auto simp: falls_def map_option_eq_Some)
    then show ?thesis using other_view [OF b t(1)] 7 words(1) v0 by (simp add: halts_def spec_run_def h0 Let_def)
  qed
qed

section \<open>Lines\<close>

lemma spec_words_ok:
  assumes "sys_inv i s" and "NUL \<notin> set str" and "length str \<le> 126"
  shows "\<forall>w \<in> set (command_words str (sh s)). is_word w \<and> length w < 128"
  using command_words_ok(1) [of "sh s" str] assms by (simp add: sys_inv_def)

lemma execute_view:
  assumes inv: "sys_inv i s" and str: "NUL \<notin> set str" "length str \<le> 126" and good: "\<not> fatal str (sh s)"
  shows "\<exists>r. execute_command str s = Some r \<and> outcome_ok i r \<and>
    (if halts (command_words str (sh s)) then \<exists>t. r = Halted t
     else \<exists>t. r = Running t \<and> view (sh t) = spec_line str (view (sh s)))"
proof (cases "str = []")
  case True
  then show ?thesis using inv by (simp add: execute_command_def spec_line_def halts_def command_words_def tokens.simps skip_delims_def)
next
  case False
  have ok: "shell_inv (sh s)" "commands_ok (sh s)" using inv by (simp_all add: sys_inv_def)
  let ?args = "command_words str (sh s)"
  obtain r where r: "execute_command str s = Some r" "outcome_ok i r"
    using execute_command_ok [OF inv str] good by (auto simp: fatal_def succeeds_def)
  obtain h hs p where h: "add_to_history str (sh s) = Some h" "h = (sh s)\<lparr>history := hs, history_pos := p\<rparr>" "shell_inv h"
    "execute_command str s = run_words ?args (s\<lparr>sh := h\<rparr>)"
    using execute_command_words [OF ok str False] by blast
  have v: "view h = remember str (view (sh s))" by (rule remember_view [OF ok(1) str(1) False str(2) h(1)])
  have line: "spec_line str (view (sh s)) = spec_run ?args (view h)"
    using False by (simp add: spec_line_def spec_words_view v)
  show ?thesis
  proof (cases "?args = []")
    case True
    then show ?thesis using h(4) r line by (simp add: run_words_def halts_def spec_run_def)
  next
    case ne: False
    let ?s = "set_exit 0 (s\<lparr>sh := h\<rparr>)"
    have "commands_ok h" using ok(2) by (simp add: h(2) commands_ok_def alias_list_def)
    then have s1: "sys_inv i ?s" using set_exit_ok [OF sys_inv_shell [OF inv h(3)]] by blast
    have code: "last_exit_code (sh ?s) = 0" by (simp add: set_exit_def)
    obtain f where f: "dispatch ?args ?s = Some f"
      using r(1) h(4) ne by (auto simp: run_words_def option_bind_Some_iff)
    note dv = dispatch_view [OF s1 code ne spec_words_ok [OF inv str] f]
    have sv: "view (sh ?s) = (view h)\<lparr>v_code := 0\<rparr>" by (simp add: set_exit_def view_exit)
    have idem: "spec_run ?args ((view h)\<lparr>v_code := 0\<rparr>) = spec_run ?args (view h)"
      using ne by (simp add: spec_run_def Let_def)
    have run: "execute_command str s = (case f of Return s \<Rightarrow> Some (Running s) | Halt s \<Rightarrow> Some (Halted s)
        | Fall s \<Rightarrow> map_option Running (debug_report ?args s))"
      using h(4) ne f by (simp add: run_words_def)
    show ?thesis
    proof (cases "halts ?args")
      case True
      then obtain t where "f = Halt t" using dv by auto
      then show ?thesis using run r True by simp
    next
      case False
      then have fv: "\<forall>t. f \<noteq> Halt t" "view (sh (flow_state f)) = spec_line str (view (sh s))"
        using dv by (simp_all add: sv idem line)
      have "\<exists>t. r = Running t \<and> sh t = sh (flow_state f)"
        using run [symmetric] fv(1) shell_seen.plain_obs(10) unfolding r(1)
        by (cases f) (auto simp: map_option_eq_Some)
      then show ?thesis using r False fv(2) by auto
    qed
  qed
qed

section \<open>Turns of the loop\<close>

text \<open>A line that is not the last one takes the shell from its prompt to the next, and its view by the abstract step.\<close>

lemma shell_loop_view:
  assumes "sys_inv i s" and "listening i" and "length a = 128" and "0x1C \<notin> set scs"
    and more: "\<not> last_line (typed scs) (view (sh s))"
  shows "\<exists>i' a' s'. shell_loop (scs @ 0x1C # rest) a s = shell_loop rest a' s' \<and> sys_inv i' s' \<and> listening i' \<and>
    length a' = 128 \<and> view (sh s') = spec_line (typed scs) (view (sh s))"
proof -
  have keys: "\<forall>sc \<in> set scs. sc \<noteq> 0x1C" using assms(4) by auto
  obtain s1 s2 l i' k where r: "show_prompt s = Some s1"
    "read_line (scs @ 0x1C # rest) s1 \<lparr>input = a[0 := NUL], position = 0\<rparr> = Some (s2, l, rest)"
    "sys_inv i' s2" "listening i'" "sh s2 = (sh s)\<lparr>current_history := k\<rparr>" "line_inv l" "line_text l = typed scs"
    using prompt_read [OF assms(1-3), of scs rest] keys by metis
  note short = typed_short [OF r(6,7)]
  have v: "view (sh s2) = view (sh s)" by (simp add: r(5))
  have w: "command_words (typed scs) (sh s2) = spec_words (typed scs) (view (sh s))"
    using spec_words_view [of "typed scs" "sh s2"] v by simp
  have go: "\<not> fatal (typed scs) (sh s2)" "\<not> halts (command_words (typed scs) (sh s2))" "typed scs \<noteq> ''exit''"
    using more by (auto simp: last_line_def fatal_def w)
  obtain t where t: "execute_command (typed scs) s2 = Some (Running t)" "sys_inv i' t"
    "view (sh t) = spec_line (typed scs) (view (sh s))"
    using execute_view [OF r(3) conjunct1 [OF short] conjunct2 [OF short] go(1)] go(2) v by auto
  have "strcmp_spec (typed scs) ''exit'' \<noteq> 0"
    using strcmp_spec_eq_0 [of "typed scs" "''exit''"] short go(3) by simp
  moreover have "arr_cstr (input l) = Some (typed scs)" using line_cstr [OF r(6)] r(7) by simp
  ultimately have "shell_loop (scs @ 0x1C # rest) a s = shell_loop rest (input l) (set_current_history (- 1) t)"
    using r(1,2) cleared_line [OF assms(3)] t(1) by (subst shell_loop.simps) simp
  moreover have "sys_inv i' (set_current_history (- 1) t)" using sys_inv_current [OF t(2)] by simp
  moreover have "length (input l) = 128" using line_position [OF r(6)] by simp
  moreover have "view (sh (set_current_history (- 1) t)) = spec_line (typed scs) (view (sh s))"
    using t(3) by (simp add: set_current_history_def)
  ultimately show ?thesis using r(4) by blast
qed

end
