(* ===== verification/SessionEnd.thy ===== *)
theory SessionEnd
  imports SessionFacts
begin

text \<open>
  How the shell's part of a run begins and ends: the greeting against the abstract shell, and what becomes of
  the loop for every sequence of keys.
\<close>

section \<open>A table with an abstract view\<close>

text \<open>A provider of \<open>name_table\<close> may also promise how an entry changes what its client can see; then so do
  several in a row.\<close>

locale viewed_table = name_table +
  fixes seen :: "'c \<Rightarrow> 'v"
    and enter_seen :: "'a \<Rightarrow> 'b \<Rightarrow> 'v \<Rightarrow> 'v"
  assumes seen_law: "inv s \<Longrightarrow> used s < cap \<Longrightarrow> entry_ok k v \<Longrightarrow> enter k v s = Some s' \<Longrightarrow>
    seen s' = enter_seen k v (seen s)"
begin

lemma enter_all_seen:
  "inv s \<Longrightarrow> used s + int (length kvs) \<le> cap \<Longrightarrow> \<forall>(k, v) \<in> set kvs. entry_ok k v \<Longrightarrow>
   enter_all enter kvs s = Some s' \<Longrightarrow> seen s' = fold (\<lambda>(k, v). enter_seen k v) kvs (seen s)"
proof (induction kvs arbitrary: s)
  case (Cons kv kvs)
  obtain k v where kv: "kv = (k, v)" by (cases kv)
  have room: "used s < cap" and ok: "entry_ok k v" using Cons.prems(2,3) kv by auto
  obtain s1 where s1: "enter k v s = Some s1" "inv s1" "used s1 \<le> used s + 1"
    using enter_law [OF Cons.prems(1) room ok] by blast
  have "seen s' = fold (\<lambda>(k, v). enter_seen k v) kvs (seen s1)"
    by (rule Cons.IH [OF s1(2)]) (use Cons.prems s1 kv in auto)
  then show ?case using seen_law [OF Cons.prems(1) room ok s1(1)] kv by simp
qed simp

end

interpretation alias_seen: viewed_table add_alias "\<lambda>s. map_of (alias_list (sh s))" "sys_inv i"
  "\<lambda>s. alias_count (sh s)" 20 alias_entry_ok "\<lambda>s. view (sh s)" spec_alias
proof unfold_locales
  show "view (sh s') = spec_alias nm c (view (sh s))"
    if "sys_inv i s" "alias_count (sh s) < 20" "alias_entry_ok nm c" "add_alias nm c s = Some s'" for nm c s s'
    by (rule add_alias_view) (use that sys_inv_shell_inv in \<open>auto simp: alias_entry_ok_def\<close>)
qed

text \<open>The abstract greeting enters the default aliases.\<close>

definition greeted :: "view \<Rightarrow> view" where
  "greeted v = fold (\<lambda>(k, c). spec_alias k c) default_aliases v"

lemma greeting_view:
  assumes "sys_inv i s" and "alias_count (sh s) \<le> 15"
  shows "\<exists>s'. shell_greeting s = Some s' \<and> sys_inv i s' \<and> view (sh s') = greeted (view (sh s))"
proof -
  obtain s1 where s1: "greeting_text s = Some s1" "screen_only s s1"
    using greeting_text_run [of s] by (auto simp: succeeds_def)
  have sh1: "sh s1 = sh s" by (rule screen_only_simps(1) [OF s1(2)])
  have i1: "sys_inv i s1" by (rule sys_inv_screen [OF assms(1) s1(2)])
  have len: "alias_count (sh s1) + int (length default_aliases) \<le> 20"
    using assms(2) sh1 by (simp add: default_aliases_def)
  obtain s' where s': "enter_all add_alias default_aliases s1 = Some s'" "sys_inv i s'"
    using aliases.enter_all_law [OF i1 len default_aliases_ok] by blast
  then show ?thesis using alias_seen.enter_all_seen [OF i1 len default_aliases_ok s'(1)] s1(1) sh1
    by (simp add: greeting_split greeted_def)
qed

section \<open>The last line\<close>

text \<open>The keys of several lines, each ended by Enter.\<close>

definition keys_of :: "u8 list list \<Rightarrow> u8 list" where
  "keys_of lines = concat (map (\<lambda>ks. ks @ [0x1C]) lines)"

lemma keys_of_simps [simp]: "keys_of [] = []" "keys_of (ks # lines) = ks @ 0x1C # keys_of lines"
  by (simp_all add: keys_of_def)

text \<open>The ways in which a run of the abstract shell ends, with the lines that it has not read.\<close>

datatype 'k ending = Waits | Faults | Halts "'k list" | Returns "'k list" view

fun spec_shell :: "('k \<Rightarrow> string) \<Rightarrow> 'k list \<Rightarrow> view \<Rightarrow> 'k ending" where
  "spec_shell tx [] v = Waits"
| "spec_shell tx (k # ks) v =
     (if calc_traps (spec_words (tx k) v) then Faults
      else if halts (spec_words (tx k) v) then Halts ks
      else if tx k = ''exit'' then Returns ks (spec_line (tx k) v)
      else spec_shell tx ks (spec_line (tx k) v))"

text \<open>What the ending says of the loop's result.\<close>

fun ends_as :: "u8 list \<Rightarrow> u8 list ending \<Rightarrow> (outcome \<times> u8 list) option \<Rightarrow> bool" where
  "ends_as tail Waits r \<longleftrightarrow> r = None"
| "ends_as tail Faults r \<longleftrightarrow> r = None"
| "ends_as tail (Halts lines) r \<longleftrightarrow> (\<exists>t. r = Some (Halted t, keys_of lines @ tail))"
| "ends_as tail (Returns lines v) r \<longleftrightarrow> (\<exists>t. r = Some (Running t, keys_of lines @ tail) \<and> view (sh t) = v)"

text \<open>The turn for a line that may be the last.\<close>

lemma shell_loop_end:
  assumes "sys_inv i s" and "listening i" and "length a = 128" and "0x1C \<notin> set ks"
    and last: "last_line (typed ks) (view (sh s))"
  shows "ends_as tail (spec_shell typed (ks # lines) (view (sh s))) (shell_loop (ks @ 0x1C # keys_of lines @ tail) a s)"
proof -
  let ?rest = "keys_of lines @ tail"
  have keys: "\<forall>sc \<in> set ks. sc \<noteq> 0x1C" using assms(4) by auto
  obtain s1 s2 l i' k where r: "show_prompt s = Some s1"
    "read_line (ks @ 0x1C # ?rest) s1 \<lparr>input = a[0 := NUL], position = 0\<rparr> = Some (s2, l, ?rest)"
    "sys_inv i' s2" "listening i'" "sh s2 = (sh s)\<lparr>current_history := k\<rparr>" "line_inv l" "line_text l = typed ks"
    using prompt_read [OF assms(1-3), of ks ?rest] keys by metis
  note short = conjunct1 [OF typed_short [OF r(6,7)]] conjunct2 [OF typed_short [OF r(6,7)]]
  have v: "view (sh s2) = view (sh s)" by (simp add: r(5))
  have w: "command_words (typed ks) (sh s2) = spec_words (typed ks) (view (sh s))"
    using spec_words_view [of "typed ks" "sh s2"] v by simp
  have f: "fatal (typed ks) (sh s2) \<longleftrightarrow> calc_traps (spec_words (typed ks) (view (sh s)))"
    by (simp add: fatal_def w)
  have cmd: "arr_cstr (input l) = Some (typed ks)" using line_cstr [OF r(6)] r(7) by simp
  have loop: "shell_loop (ks @ 0x1C # ?rest) a s = do { r \<leftarrow> execute_command (typed ks) s2;
      case r of Halted s \<Rightarrow> Some (Halted s, ?rest)
      | Running s \<Rightarrow> let s = set_current_history (- 1) s in
          if strcmp_spec (typed ks) ''exit'' = 0 then Some (Running s, ?rest) else shell_loop ?rest (input l) s }"
    using r(1,2) cleared_line [OF assms(3)] cmd by (subst shell_loop.simps) simp
  have eq: "strcmp_spec (typed ks) ''exit'' = 0 \<longleftrightarrow> typed ks = ''exit''"
    using strcmp_spec_eq_0 [of "typed ks" "''exit''"] short by simp
  show ?thesis
  proof (cases "fatal (typed ks) (sh s2)")
    case True
    then have "execute_command (typed ks) s2 = None"
      using execute_command_fatal [OF r(3) short] by (auto simp: fatal_def)
    then show ?thesis using True f by (simp add: loop)
  next
    case False
    obtain res where res: "execute_command (typed ks) s2 = Some res"
      "if halts (command_words (typed ks) (sh s2)) then \<exists>t. res = Halted t
       else \<exists>t. res = Running t \<and> view (sh t) = spec_line (typed ks) (view (sh s2))"
      using execute_view [OF r(3) short False] by blast
    show ?thesis
    proof (cases "halts (spec_words (typed ks) (view (sh s)))")
      case True
      then show ?thesis using res False f by (auto simp: loop w)
    next
      case h: False
      then obtain t where "res = Running t" "view (sh t) = spec_line (typed ks) (view (sh s))"
        using res(2) by (auto simp: w v)
      then show ?thesis using res(1) False f h last eq
        by (auto simp: loop last_line_def set_current_history_def)
    qed
  qed
qed

text \<open>Keys without an Enter leave the shell waiting.\<close>

lemma shell_loop_waits:
  assumes "sys_inv i s" and "listening i" and "length a = 128" and "0x1C \<notin> set scs"
  shows "shell_loop scs a s = None"
proof -
  have keys: "\<forall>sc \<in> set scs. sc \<noteq> 0x1C" using assms(4) by auto
  obtain s1 where "show_prompt s = Some s1" "read_line scs s1 \<lparr>input = a[0 := NUL], position = 0\<rparr> = None"
    by (rule prompt_read [OF assms(1-3), where scs = scs and rest = "[]"]) (use keys in blast)
  then show ?thesis using cleared_line [OF assms(3)] by (subst shell_loop.simps) simp
qed

lemma shell_loop_ends:
  assumes "sys_inv i s" and "listening i" and "length a = 128" and "\<forall>ks \<in> set lines. 0x1C \<notin> set ks" and "0x1C \<notin> set tail"
  shows "ends_as tail (spec_shell typed lines (view (sh s))) (shell_loop (keys_of lines @ tail) a s)"
  using assms
proof (induction lines arbitrary: i a s)
  case Nil
  then show ?case using shell_loop_waits by simp
next
  case (Cons ks lines)
  have keys: "0x1C \<notin> set ks" "\<forall>ks \<in> set lines. 0x1C \<notin> set ks" using Cons.prems(4) by simp_all
  show ?case
  proof (cases "last_line (typed ks) (view (sh s))")
    case True
    from shell_loop_end [OF Cons.prems(1-3) keys(1) this, of tail lines] show ?thesis by simp
  next
    case False
    obtain i1 a1 s1 where t: "shell_loop (ks @ 0x1C # keys_of lines @ tail) a s = shell_loop (keys_of lines @ tail) a1 s1"
      "sys_inv i1 s1" "listening i1" "length a1 = 128" "view (sh s1) = spec_line (typed ks) (view (sh s))"
      using shell_loop_view [OF Cons.prems(1-3) keys(1) False, of "keys_of lines @ tail"] by blast
    have "spec_shell typed (ks # lines) (view (sh s)) = spec_shell typed lines (view (sh s1))"
      using False by (simp add: last_line_def t(5))
    moreover have "shell_loop (keys_of (ks # lines) @ tail) a s = shell_loop (keys_of lines @ tail) a1 s1"
      using t(1) by simp
    ultimately show ?thesis using Cons.IH [OF t(2,3,4) keys(2) Cons.prems(5)] by (simp only:)
  qed
qed

end
