(* ===== verification/SessionProps.thy ===== *)
theory SessionProps
  imports SessionEnd SystemProps
begin

text \<open>
  The shell implements the abstract shell: one command line, and a whole session of typed lines.
\<close>

text \<open>C7: A command line has the effect of the abstract shell's step. A line whose words are not a division that
  traps is executed to its end; it halts the machine exactly when its words say so, and otherwise the aliases, the
  history, the settings, the directory and the exit code are those of the abstract step, with the tables, the
  file system and the stack buffer in order.\<close>

theorem command_refines:
  assumes "sys_inv i s" and "NUL \<notin> set str" and "length str \<le> 126"
    and "\<not> calc_traps (spec_words str (view (sh s)))"
  shows "\<exists>r. execute_command str s = Some r \<and>
    (if halts (spec_words str (view (sh s))) then \<exists>t. r = Halted t
     else \<exists>t. r = Running t \<and> sys_inv i t \<and> view (sh t) = spec_line str (view (sh s)))"
proof -
  have "\<not> fatal str (sh s)" using assms(4) by (simp add: spec_words_view fatal_def)
  from execute_view [OF assms(1-3) this] obtain r where r: "execute_command str s = Some r" "outcome_ok i r"
    "if halts (command_words str (sh s)) then \<exists>t. r = Halted t
     else \<exists>t. r = Running t \<and> view (sh t) = spec_line str (view (sh s))" by blast
  then show ?thesis by (intro exI [of _ r]) (auto simp: spec_words_view)
qed

lemma live_view: "alias_list (sh live_system) = []" "alias_count (sh live_system) = 0"
  "history_pos (sh live_system) = 0"
  by (simp_all add: live_system_def alias_list_def shell_init_def)

lemma words_alias: "tokens blanks ''alias q help'' = [''alias'', ''q'', ''help'']"
proof -
  have "tokens blanks (unwords [''alias'', ''q'', ''help'']) = [''alias'', ''q'', ''help'']"
    by (rule tokens_unwords) (simp add: is_word_def)
  then show ?thesis by simp
qed

lemma command_refines_witness:
  "\<exists>t. execute_command ''alias q help'' live_system = Some (Running t) \<and>
    v_aliases (view (sh t)) = [(''q'', ''help'')] \<and> v_count (view (sh t)) = 1 \<and> v_pos (view (sh t)) = 1"
proof -
  have w: "spec_words ''alias q help'' (view (sh live_system)) = [''alias'', ''q'', ''help'']"
    by (simp add: spec_words_def words_alias live_view)
  have "\<not> calc_traps [''alias'', ''q'', ''help'']" by (simp add: calc_traps_def)
  then obtain t where t: "execute_command ''alias q help'' live_system = Some (Running t)"
    "view (sh t) = spec_line ''alias q help'' (view (sh live_system))"
    using command_refines [OF live_system_ok(1), of "''alias q help''"] by (auto simp: w halts_def)
  have "spec_words ''alias q help'' (view (sh live_system)) = [''alias'', ''q'', ''help'']" by (rule w)
  then have "view (sh t) = spec_run [''alias'', ''q'', ''help''] (remember ''alias q help'' (view (sh live_system)))"
    using t(2) by (simp add: spec_line_def)
  also have "\<dots> = (remember ''alias q help'' (view (sh live_system)))
      \<lparr>v_code := 0, v_aliases := [(''q'', ''help'')], v_count := 1\<rparr>"
    by (simp add: spec_run_def spec_alias_def alias_name_def remember_def live_view)
  finally have "v_aliases (view (sh t)) = [(''q'', ''help'')]" "v_count (view (sh t)) = 1" "v_pos (view (sh t)) = 1"
    by (simp_all add: remember_def live_view del: view_simps) (simp add: live_view)
  then show ?thesis using t(1) by blast
qed

text \<open>C2: A session, were interrupts on: as long as no typed line is a last one, the shell reads them one by one,
  is back at its prompt in a good state, and what its user can know of it is what the abstract shell says.\<close>

theorem session_refines:
  assumes "sys_inv i s" and "listening i" and "length a = 128" and "\<forall>ks \<in> set lines. 0x1C \<notin> set ks"
    and "spec_session (map typed lines) (view (sh s)) = Some v"
  shows "\<exists>i' a' s'. shell_loop (keys_of lines @ rest) a s = shell_loop rest a' s' \<and>
    sys_inv i' s' \<and> listening i' \<and> length a' = 128 \<and> view (sh s') = v"
  using assms
proof (induction lines arbitrary: i a s)
  case Nil
  then show ?case by auto
next
  case (Cons ks lines)
  let ?rest = "keys_of lines @ rest"
  have keys: "0x1C \<notin> set ks" "\<forall>ks \<in> set lines. 0x1C \<notin> set ks" using Cons.prems(4) by simp_all
  have more: "\<not> last_line (typed ks) (view (sh s))"
    "spec_session (map typed lines) (spec_line (typed ks) (view (sh s))) = Some v"
    using Cons.prems(5) by (simp_all split: if_splits)
  obtain i1 a1 s1 where t: "shell_loop (ks @ 0x1C # ?rest) a s = shell_loop ?rest a1 s1" "sys_inv i1 s1"
    "listening i1" "length a1 = 128" "view (sh s1) = spec_line (typed ks) (view (sh s))"
    using shell_loop_view [OF Cons.prems(1-3) keys(1) more(1)] by blast
  have "spec_session (map typed lines) (view (sh s1)) = Some v" using more(2) t(5) by simp
  from Cons.IH [OF t(2,3,4) keys(2) this] show ?case using t(1) by simp
qed

text \<open>The keys of \<^verbatim>\<open>ls\<close> and of the unknown \<^verbatim>\<open>f\<close>.\<close>

lemma typed_keys: "typed [0x26, 0x1F] = ''ls''" "typed [0x21] = ''f''"
  by (simp_all add: typed_def key_of_def scancode_to_ascii_def List.map_filter_def edited_def schar_def)

lemma words_one: "tokens blanks ''ls'' = [''ls'']" "tokens blanks ''f'' = [''f'']" "tokens blanks ''exit'' = [''exit'']"
  using tokens_unwords [of "[''ls'']"] tokens_unwords [of "[''f'']"] tokens_unwords [of "[''exit'']"] by (simp_all add: is_word_def)

text \<open>What the abstract shell does with the two lines.\<close>

lemma two_lines:
  obtains w where "spec_session [''ls'', ''f''] (view (sh live_system)) = Some w" and "v_code w = 127"
    and "take 2 (v_history w) = [''f'', ''ls'']" and "v_pos w = 2"
proof -
  let ?v = "view (sh live_system)"
  have ls: "spec_line ''ls'' ?v = ?v\<lparr>v_history := ''ls'' # butlast (v_history ?v), v_pos := 1, v_code := 0\<rparr>"
    "\<not> last_line ''ls'' ?v"
    by (simp_all add: spec_line_def last_line_def spec_words_def words_one live_view spec_run_def remember_def
        plain_commands_def halts_def calc_traps_def)
  have h: "\<exists>x xs. v_history ?v = x # xs \<and> xs \<noteq> []" by (simp add: view_def upt10)
  define w where "w = spec_line ''f'' (spec_line ''ls'' ?v)"
  have f: "\<not> last_line ''f'' (spec_line ''ls'' ?v)" "v_code w = 127" "take 2 (v_history w) = [''f'', ''ls'']" "v_pos w = 2"
    using h by (auto simp: w_def ls(1) spec_line_def last_line_def spec_words_def words_one live_view spec_run_def
        remember_def plain_commands_def halts_def calc_traps_def)
  have "spec_session [''ls'', ''f''] ?v = Some w" using ls(2) f(1) by (simp add: w_def)
  then show thesis using that f(2-4) by blast
qed

lemma session_refines_witness:
  "\<exists>a s. shell_loop [0x26, 0x1F, 0x1C, 0x21, 0x1C] (replicate 128 NUL) live_system = shell_loop [] a s \<and>
    v_code (view (sh s)) = 127 \<and> take 2 (v_history (view (sh s))) = [''f'', ''ls''] \<and> v_pos (view (sh s)) = 2"
proof -
  obtain w where w: "spec_session [''ls'', ''f''] (view (sh live_system)) = Some w" "v_code w = 127"
    "take 2 (v_history w) = [''f'', ''ls'']" "v_pos w = 2" by (rule two_lines)
  have "spec_session (map typed [[0x26, 0x1F], [0x21]]) (view (sh live_system)) = Some w"
    using w(1) by (simp only: list.map typed_keys)
  from session_refines [OF live_system_ok _ _ this, of "replicate 128 NUL" "[]"]
  obtain a s where t: "shell_loop [0x26, 0x1F, 0x1C, 0x21, 0x1C] (replicate 128 NUL) live_system = shell_loop [] a s"
    "view (sh s) = w" by (auto simp del: view_simps)
  show ?thesis by (intro exI [of _ a] exI [of _ s]) (simp add: t w(2-4) del: view_simps)
qed

text \<open>C1: The kernel with the one call it lacks. From power-up the initialisation returns; if \<^verbatim>\<open>enable_interrupts\<close> were
  called then, the shell would do for every sequence of keys exactly what the abstract shell does after
  its greeting: wait for ever when the keys end before a last line, fault, halt with the rest of the keys unread, or
  return from \<^verbatim>\<open>exit\<close> with the aliases, history and settings that the abstract shell has.\<close>

theorem enabled_kernel_refines:
  assumes "heap_ok (fs m)" and "unat (heap_pos (kh (fs m))) + 5147 \<le> 0x10000" and "valid (bytes (fs m)) stack 1024"
    and "deaf (irq m)" and "length arr = 128"
    and "\<forall>ks \<in> set lines. 0x1C \<notin> set ks" and "0x1C \<notin> set tail"
  shows "\<exists>m'. kmain_boot ka ta ia da buf m = Some m' \<and>
    ends_as tail (spec_shell typed lines (greeted (view shell_init)))
      (start_shell (keys_of lines @ tail) arr
        \<lparr>mach = m'\<lparr>irq := enable_interrupts (irq m')\<rparr>, sh = shell_init, frame = stack\<rparr>)"
proof -
  let ?i = "register_interrupt_handler 0x20 ta (init_interrupts ka ia (irq m))"
  obtain m' p where b: "kmain_boot ka ta ia da buf m = Some m'"
    "sys_inv (?i\<lparr>iports := p\<rparr>) \<lparr>mach = m', sh = shell_init, frame = stack\<rparr>"
    by (rule boot_system [OF assms(1-3)])
  let ?s = "\<lparr>mach = m'\<lparr>irq := enable_interrupts (irq m')\<rparr>, sh = shell_init, frame = stack\<rparr>"
  let ?j = "enable_interrupts ?i"
  obtain q where "irq m' = ?i\<lparr>iports := q\<rparr>" using b(2) by (auto simp: sys_inv_def)
  then have "irq (mach ?s) = ?j\<lparr>iports := q\<rparr>" by (simp add: enable_interrupts_def)
  then have inv: "sys_inv ?j ?s" using b(2) unfolding sys_inv_def by auto
  have on: "listening ?j" using assms(4)
    by (simp add: listening_def deaf_def kbd_inv_def pending_def enable_interrupts_def register_interrupt_handler_def
        init_interrupts_def lidt_def Let_def)
  have "alias_count (sh ?s) \<le> 15" by (simp add: shell_init_def)
  from greeting_view [OF inv this] obtain s1 where
    s1: "shell_greeting ?s = Some s1" "sys_inv ?j s1" "view (sh s1) = greeted (view shell_init)" by auto
  have "start_shell (keys_of lines @ tail) arr ?s = shell_loop (keys_of lines @ tail) arr s1"
    by (simp add: start_shell_def s1(1))
  then show ?thesis using shell_loop_ends [OF s1(2) on assms(5-7)] b(1) s1(3) by simp
qed

lemma greeted_init: "v_aliases (greeted (view shell_init)) = default_aliases" "v_pos (greeted (view shell_init)) = 0"
  "v_count (greeted (view shell_init)) = 5" "v_history (greeted (view shell_init)) = v_history (view shell_init)"
  by (simp_all add: greeted_def default_aliases_def spec_alias_def alias_list_def alias_name_def shell_init_def)

lemma enabled_kernel_refines_witness:
  "\<exists>m' t. kmain_boot 1 2 3 0x3000 0x3100 power_on = Some m' \<and>
    start_shell [0x21, 0x1C, 0x12, 0x2D, 0x17, 0x14, 0x1C] (replicate 128 NUL)
      \<lparr>mach = m'\<lparr>irq := enable_interrupts (irq m')\<rparr>, sh = shell_init, frame = 0x2000\<rparr> = Some (Running t, []) \<and>
    take 2 (v_history (view (sh t))) = [''exit'', ''f''] \<and> v_code (view (sh t)) = 0"
proof -
  let ?v = "greeted (view shell_init)"
  have "\<exists>x xs. v_history (view shell_init) = x # xs \<and> xs \<noteq> []" by (simp add: view_def upt10)
  then have h: "\<exists>x xs. v_history ?v = x # xs \<and> xs \<noteq> []" by (simp only: greeted_init(4))
  have al: "map_of default_aliases ''f'' = None" "map_of default_aliases ''exit'' = None" by (simp_all add: default_aliases_def)
  have wf: "spec_words ''f'' ?v = [''f'']" by (simp add: spec_words_def words_one greeted_init al)
  define u where "u = spec_line ''f'' ?v"
  have "u = ?v\<lparr>v_history := ''f'' # butlast (v_history ?v), v_pos := 1, v_code := 127\<rparr>"
    by (simp add: u_def spec_line_def wf spec_run_def remember_def greeted_init plain_commands_def)
  then have u: "map_of (v_aliases u) ''exit'' = None" "v_pos u = 1" "\<exists>ys. v_history u = ''f'' # ys \<and> ys \<noteq> []"
    using h by (auto simp: greeted_init al)
  have we: "spec_words ''exit'' u = [''exit'']" by (simp add: spec_words_def words_one u(1))
  define w where "w = spec_line ''exit'' u"
  have "w = (remember ''exit'' u)\<lparr>v_code := 0\<rparr>"
    by (simp add: w_def spec_line_def we spec_run_def plain_commands_def)
  then have w: "take 2 (v_history w) = [''exit'', ''f'']" "v_code w = 0"
    using u by (auto simp: remember_def)
  have "spec_shell typed [[0x21], [0x12, 0x2D, 0x17, 0x14]] ?v = Returns [] w"
    by (simp add: typed_keys typed_exit wf u_def [symmetric] we w_def halts_def calc_traps_def)
  then show ?thesis
    using enabled_kernel_refines [OF power_on_ok(1,2,4,3), of "replicate 128 NUL" "[[0x21], [0x12, 0x2D, 0x17, 0x14]]" "[]"
        1 2 3 "0x3000" "0x3100"] w by (auto simp del: view_simps)
qed

end
