(* ===== verification/Gdt.thy ===== *)
theory Gdt
  imports Prelude
begin

text \<open>
  What \<^verbatim>\<open>boot/boot.asm\<close> leaves the kernel: the descriptor table, through which the processor reads every
  selector, and the load address. The switch to protected mode and the firmware's disk service are not modelled.
\<close>

section \<open>The descriptor table\<close>

definition gdt_bytes :: "u8 list" where
  "gdt_bytes =
     [0, 0, 0, 0, 0, 0, 0, 0,
      0xFF, 0xFF, 0, 0, 0, 0x9A, 0xCF, 0,
      0xFF, 0xFF, 0, 0, 0, 0x92, 0xCF, 0]"

text \<open>The limit in \<^verbatim>\<open>gdt_descriptor\<close>.\<close>

definition gdt_limit :: u16 where
  "gdt_limit = of_nat (length gdt_bytes) - 1"

record segment =
  seg_base :: u32
  seg_limit :: u32
  seg_access :: u8
  seg_wide :: bool

text \<open>How the processor reads eight bytes of the table; bit 7 of the seventh counts the limit in pages.\<close>

definition decode_segment :: "u8 list \<Rightarrow> segment" where
  "decode_segment d =
     (let limit = ucast (d ! 0) OR push_bit 8 (ucast (d ! 1)) OR push_bit 16 (ucast (d ! 6 AND 0x0F)) in
      \<lparr>seg_base = ucast (d ! 2) OR push_bit 8 (ucast (d ! 3)) OR push_bit 16 (ucast (d ! 4)) OR push_bit 24 (ucast (d ! 7)),
       seg_limit = (if d ! 6 AND 0x80 \<noteq> 0 then push_bit 12 limit OR 0xFFF else limit),
       seg_access = d ! 5, seg_wide = (d ! 6 AND 0x40 \<noteq> 0)\<rparr>)"

definition find_segment :: "u16 \<Rightarrow> segment option" where
  "find_segment selector =
     (let i = unat (selector AND NOT 7) in
      if i = 0 \<or> i + 7 > unat gdt_limit then None else Some (decode_segment (take 8 (drop i gdt_bytes))))"

text \<open>The linear address of an offset in a segment, when the segment is present and reaches that far.\<close>

definition linear_address :: "u16 \<Rightarrow> u32 \<Rightarrow> u32 option" where
  "linear_address selector offset =
     do { seg \<leftarrow> find_segment selector;
          if seg_access seg AND 0x80 \<noteq> 0 \<and> offset \<le> seg_limit seg then Some (seg_base seg + offset) else None }"

text \<open>A present code segment of ring 0 with 32-bit instructions.\<close>

definition kernel_code :: "segment \<Rightarrow> bool" where
  "kernel_code seg \<longleftrightarrow> seg_access seg AND 0xF8 = 0x98 \<and> seg_wide seg"

section \<open>Where the kernel lies\<close>

definition KERNEL_OFFSET :: nat where "KERNEL_OFFSET = 0x1000"
definition KERNEL_SECTORS :: nat where "KERNEL_SECTORS = 32"

text \<open>The bytes that the boot sector reads from the disk, and those it occupies itself.\<close>

definition loaded :: "nat set" where
  "loaded = {KERNEL_OFFSET ..< KERNEL_OFFSET + KERNEL_SECTORS * 512}"

definition boot_sector :: "nat set" where
  "boot_sector = {0x7C00 ..< 0x7E00}"

lemma flat_code: "find_segment 0x08 = Some \<lparr>seg_base = 0, seg_limit = 0xFFFFFFFF, seg_access = 0x9A, seg_wide = True\<rparr>"
  by (simp add: find_segment_def gdt_limit_def gdt_bytes_def decode_segment_def)

lemma flat_data: "find_segment 0x10 = Some \<lparr>seg_base = 0, seg_limit = 0xFFFFFFFF, seg_access = 0x92, seg_wide = True\<rparr>"
  by (simp add: find_segment_def gdt_limit_def gdt_bytes_def decode_segment_def)

lemma all_addresses: "(w :: u32) \<le> 0xFFFFFFFF"
  using unsigned_less [of w, where ?'a = nat] by (simp add: word_le_nat_alt)

lemma flat_addresses: "linear_address 0x08 offset = Some offset" "linear_address 0x10 offset = Some offset"
  by (simp_all add: linear_address_def flat_code flat_data all_addresses)

text \<open>Wherever the linker puts the static variables, the boot sector, which still holds the descriptor
  table in use, lies among them: the image begins at the load address and fits what is loaded, and the
  variables, which follow it, include the heap's 64 KiB.\<close>

lemma statics_cover_boot_sector:
  assumes "KERNEL_OFFSET \<le> bss" and "{KERNEL_OFFSET ..< bss} \<subseteq> loaded" and "bss + 0x10000 \<le> bss_end"
  shows "boot_sector \<subseteq> {bss ..< bss_end}"
proof -
  have "bss \<le> 0x5000"
  proof (rule ccontr)
    assume "\<not> bss \<le> 0x5000"
    then have "0x5000 \<in> {KERNEL_OFFSET ..< bss}" by (simp add: KERNEL_OFFSET_def)
    then have "0x5000 \<in> loaded" using assms(2) by blast
    then show False by (simp add: loaded_def KERNEL_OFFSET_def KERNEL_SECTORS_def)
  qed
  then show ?thesis using assms(1,3) by (auto simp: boot_sector_def KERNEL_OFFSET_def)
qed

end
