(* ===== verification/IrqFrame.thy ===== *)
theory IrqFrame
  imports Kernel Gdt
begin

text \<open>
  What an interrupt does to the processor, below the C functions: the gate of
  \<^verbatim>\<open>kernel/interrupts.c\<close> through which it enters, the wrapper \<^verbatim>\<open>keyboard_handler\<close>, written in
  assembly in that file, and the handler \<^verbatim>\<open>timer_callback\<close> that \<^verbatim>\<open>kernel/kernel.c\<close> installs with no
  wrapper. The state is the register file with the words of the stack, beside the machine of the
  C code; the interrupt flag of the machine is bit 9 of the flags register. The stack is a map
  from an address to the 32-bit word there: it is read and written only at distances from the stack
  pointer that are multiples of four, so words do not overlap.

  A compiled C function is a parameter: a map from the address it is entered at to its whole run, up
  to and with its \<^verbatim>\<open>ret\<close>. What is assumed of it is the calling convention (\<open>compiled\<close>): it
  computes what the C function computes, returns to the address on top of the stack, keeps \<^verbatim>\<open>ebx\<close>,
  \<^verbatim>\<open>ebp\<close>, \<^verbatim>\<open>esi\<close>, \<^verbatim>\<open>edi\<close> and the interrupt flag, and does not touch the words of its caller.
\<close>

section \<open>Registers and stack\<close>

text \<open>The general registers in the order \<^verbatim>\<open>pusha\<close> stores them.\<close>

datatype reg = EAX | ECX | EDX | EBX | ESP | EBP | ESI | EDI

record cpu =
  gpr :: "reg \<Rightarrow> u32"
  eip :: u32
  code_seg :: u16
  eflags :: u32
  stack :: "u32 \<Rightarrow> u32"

definition IF_FLAG :: u32 where "IF_FLAG = 0x200"

text \<open>The trap, interrupt, nested-task, resume and virtual-8086 flags, which a gate clears.\<close>

definition GATE_CLEARS :: u32 where "GATE_CLEARS = 0x34300"

definition push :: "u32 \<Rightarrow> cpu \<Rightarrow> cpu" where
  "push w c = (let esp = gpr c ESP - 4 in c\<lparr>gpr := (gpr c)(ESP := esp), stack := (stack c)(esp := w)\<rparr>)"

definition pop :: "cpu \<Rightarrow> u32 \<times> cpu" where
  "pop c = (stack c (gpr c ESP), c\<lparr>gpr := (gpr c)(ESP := gpr c ESP + 4)\<rparr>)"

definition pop_reg :: "reg \<Rightarrow> cpu \<Rightarrow> cpu" where
  "pop_reg r c = (case pop c of (w, c) \<Rightarrow> c\<lparr>gpr := (gpr c)(r := w)\<rparr>)"

section \<open>Entering through a gate\<close>

definition gate_target :: "idt_entry \<Rightarrow> u32" where
  "gate_target g = push_bit 16 (ucast (base_hi g)) OR ucast (base_lo g)"

text \<open>
  The processor enters only through a present 32-bit interrupt gate inside the table it knows, whose
  selector names a code segment of the loader's table, and turns the interrupt flag off. A maskable
  interrupt is taken only while that flag is set; the instruction \<^verbatim>\<open>int\<close> does not ask for it, and comes back
  to the instruction after its two bytes.
\<close>

definition sync_flag :: "cpu \<times> machine \<Rightarrow> cpu \<times> machine" where
  "sync_flag x = (case x of (c, m) \<Rightarrow>
     (c, m\<lparr>irq := (irq m)\<lparr>int_flag := eflags c AND IF_FLAG \<noteq> 0\<rparr>\<rparr>))"

definition gate_ready :: "u8 \<Rightarrow> intr \<Rightarrow> bool" where
  "gate_ready n s =
     (case idtr s of None \<Rightarrow> False
      | Some p \<Rightarrow> 8 * unat n + 7 \<le> unat (idt_limit p) \<and> gate_flags (idt s n) = 0x8E)"

definition enters_code :: "idt_entry \<Rightarrow> bool" where
  "enters_code g \<longleftrightarrow>
     (case find_segment (sel g) of None \<Rightarrow> False | Some seg \<Rightarrow> kernel_code seg \<and> gate_target g \<le> seg_limit seg)"

definition enter_gate :: "u8 \<Rightarrow> cpu \<times> machine \<Rightarrow> (cpu \<times> machine) option" where
  "enter_gate n x =
     (case x of (c, m) \<Rightarrow>
        if gate_ready n (irq m) \<and> enters_code (idt (irq m) n)
        then (let g = idt (irq m) n;
                  c = push (eip c) (push (ucast (code_seg c)) (push (eflags c) c)) in
              Some (sync_flag
                (c\<lparr>eflags := eflags c AND NOT GATE_CLEARS, code_seg := sel g, eip := gate_target g\<rparr>, m)))
        else None)"

definition take_interrupt :: "u8 \<Rightarrow> cpu \<times> machine \<Rightarrow> (cpu \<times> machine) option" where
  "take_interrupt n x = (if int_flag (irq (snd x)) then enter_gate n x else None)"

definition int_instruction :: "u8 \<Rightarrow> cpu \<times> machine \<Rightarrow> (cpu \<times> machine) option" where
  "int_instruction n x = (case x of (c, m) \<Rightarrow> enter_gate n (c\<lparr>eip := eip c + 2\<rparr>, m))"

section \<open>The wrapper of the keyboard handler\<close>

datatype instr = Pusha | Call u32 | Popa | Iret

fun instr_length :: "instr \<Rightarrow> u32" where
  "instr_length (Call f) = 5"
| "instr_length i = 1"

text \<open>\<^verbatim>\<open>pusha\<close> stores the stack pointer it found, and \<^verbatim>\<open>popa\<close> skips that word.\<close>

fun exec_instr :: "instr \<Rightarrow> cpu \<times> machine \<Rightarrow> cpu \<times> machine" where
  "exec_instr Pusha (c, m) =
     (let sp = gpr c ESP;
          c = push (gpr c EBX) (push (gpr c EDX) (push (gpr c ECX) (push (gpr c EAX) c)));
          c = push (gpr c EDI) (push (gpr c ESI) (push (gpr c EBP) (push sp c))) in
      (c\<lparr>eip := eip c + instr_length Pusha\<rparr>, m))"
| "exec_instr (Call f) (c, m) = ((push (eip c + instr_length (Call f)) c)\<lparr>eip := f\<rparr>, m)"
| "exec_instr Popa (c, m) =
     (let c = pop_reg EBP (pop_reg ESI (pop_reg EDI c));
          c = snd (pop c);
          c = pop_reg EAX (pop_reg ECX (pop_reg EDX (pop_reg EBX c))) in
      (c\<lparr>eip := eip c + instr_length Popa\<rparr>, m))"
| "exec_instr Iret (c, m) =
     (case pop c of (ip, c) \<Rightarrow> case pop c of (seg, c) \<Rightarrow> case pop c of (flags, c) \<Rightarrow>
        sync_flag (c\<lparr>eip := ip, code_seg := ucast seg, eflags := flags\<rparr>, m))"

definition keyboard_handler :: "u32 \<Rightarrow> instr list" where
  "keyboard_handler internal = [Pusha, Call internal, Popa, Iret]"

text \<open>Code in memory: each instruction at its address.\<close>

fun assemble :: "u32 \<Rightarrow> instr list \<Rightarrow> u32 \<rightharpoonup> instr" where
  "assemble a [] = Map.empty"
| "assemble a (i # is) = (assemble (a + instr_length i) is)(a \<mapsto> i)"

type_synonym compiled_code = "u32 \<rightharpoonup> cpu \<times> machine \<Rightarrow> cpu \<times> machine"

text \<open>One step: a C function runs as a whole when its entry is reached.\<close>

definition step :: "compiled_code \<Rightarrow> (u32 \<rightharpoonup> instr) \<Rightarrow> cpu \<times> machine \<Rightarrow> (cpu \<times> machine) option" where
  "step funs code x =
     (case funs (eip (fst x)) of Some body \<Rightarrow> Some (body x)
      | None \<Rightarrow> (case code (eip (fst x)) of Some i \<Rightarrow> Some (exec_instr i x) | None \<Rightarrow> None))"

fun steps :: "compiled_code \<Rightarrow> (u32 \<rightharpoonup> instr) \<Rightarrow> nat \<Rightarrow> cpu \<times> machine \<Rightarrow> (cpu \<times> machine) option" where
  "steps funs code 0 x = Some x"
| "steps funs code (Suc n) x = do { y \<leftarrow> step funs code x; steps funs code n y }"

text \<open>\<^verbatim>\<open>yield\<close>, from its \<^verbatim>\<open>int $0x20\<close> to where the handler has gone back; what the compiler puts before the test and
  after the instruction is not in the source.\<close>

definition yield :: "compiled_code \<Rightarrow> cpu \<times> machine \<Rightarrow> (cpu \<times> machine) option" where
  "yield funs x =
     (if scheduler_active (status (snd x))
      then do { x \<leftarrow> int_instruction 0x20 x; steps funs Map.empty 1 x }
      else Some x)"

section \<open>The calling convention\<close>

text \<open>What a function called at \<open>c\<close> leaves its caller with.\<close>

definition returned :: "cpu \<Rightarrow> cpu \<Rightarrow> bool" where
  "returned c c' \<longleftrightarrow>
     eip c' = stack c (gpr c ESP) \<and> code_seg c' = code_seg c \<and> gpr c' ESP = gpr c ESP + 4 \<and>
     gpr c' EBX = gpr c EBX \<and> gpr c' EBP = gpr c EBP \<and> gpr c' ESI = gpr c ESI \<and> gpr c' EDI = gpr c EDI \<and>
     eflags c' AND IF_FLAG = eflags c AND IF_FLAG \<and>
     (\<forall>a. unat (gpr c ESP) + 4 \<le> unat a \<longrightarrow> stack c' a = stack c a)"

definition compiled :: "(cpu \<Rightarrow> machine \<Rightarrow> machine option) \<Rightarrow> (cpu \<times> machine \<Rightarrow> cpu \<times> machine) \<Rightarrow> bool" where
  "compiled f body \<longleftrightarrow>
     (\<forall>c m m'. f c m = Some m' \<longrightarrow> (\<exists>c'. body (c, m) = (c', m') \<and> returned c c'))"

text \<open>The two handlers as functions of the machine; the timer's, where it switches to no other stack.\<close>

definition keyboard_function :: "u8 \<Rightarrow> cpu \<Rightarrow> machine \<Rightarrow> machine option" where
  "keyboard_function scancode c m = Some (m\<lparr>irq := keyboard_handler_internal scancode (irq m)\<rparr>)"

definition timer_function :: "(cpu \<Rightarrow> u32 \<times> u32) \<Rightarrow> cpu \<Rightarrow> machine \<Rightarrow> machine option" where
  "timer_function frame c m =
     (case timer_callback (frame c) m of
        Some (regs, m') \<Rightarrow> if regs = frame c then Some m' else None
      | None \<Rightarrow> None)"

end
