(* ===== verification/IrqFacts.thy ===== *)
theory IrqFacts
  imports IrqFrame
begin

text \<open>
  The frame an interrupt builds on the stack and how the wrapper takes it down.
\<close>

section \<open>Words\<close>

lemma gate_target_gate: "gate_target (gate a) = a"
proof (rule bit_word_eqI)
  fix n assume n: "n < LENGTH(32)"
  have m: "(0xFFFF :: u32) = mask 16" by (simp add: mask_eq_exp_minus_1)
  have "n = 16 + (n - 16)" if "\<not> n < 16" using that by simp
  then show "bit (gate_target (gate a)) n = bit a n"
    using n unfolding gate_target_def gate_def m by (auto simp: bit_simps)
qed

lemma gate_enters_code: "enters_code (gate a)"
proof -
  have "sel (gate a) = 0x08" by (simp add: gate_def)
  then show ?thesis by (simp add: enters_code_def flat_code kernel_code_def all_addresses)
qed

lemma unat_below: "unat w \<le> unat (e :: u32) \<Longrightarrow> unat (e - w) = unat e - unat w"
  by (simp add: unat_sub word_le_nat_alt)

lemma segment_word: "ucast (ucast (seg :: u16) :: u32) = seg"
  by (rule bit_word_eqI) (simp add: bit_simps)

lemma gate_keeps_off: "(f AND NOT GATE_CLEARS) AND IF_FLAG = 0"
proof -
  have "NOT GATE_CLEARS AND IF_FLAG = 0" by (simp add: GATE_CLEARS_def IF_FLAG_def)
  then show ?thesis by (simp add: and.assoc)
qed

section \<open>Entering and leaving\<close>

lemma handler_flag:
  "keyboard_handler_internal sc (s\<lparr>int_flag := b\<rparr>) = (keyboard_handler_internal sc s)\<lparr>int_flag := b\<rparr>"
  by (simp add: keyboard_handler_internal_def Let_def)

lemma enter_gate_frame:
  assumes "gate_ready n (irq m)" and "idt (irq m) n = gate a"
  shows "enter_gate n (c, m) = Some
    (c\<lparr>gpr := (gpr c)(ESP := gpr c ESP - 12), eip := a, code_seg := 8, eflags := eflags c AND NOT GATE_CLEARS,
       stack := (stack c)(gpr c ESP - 4 := eflags c, gpr c ESP - 8 := ucast (code_seg c), gpr c ESP - 12 := eip c)\<rparr>,
     m\<lparr>irq := (irq m)\<lparr>int_flag := False\<rparr>\<rparr>)"
  using assms gate_target_gate [of a]
  by (simp add: enter_gate_def push_def sync_flag_def gate_keeps_off gate_enters_code Let_def)
    (simp add: gate_def)

lemma take_interrupt_gate:
  assumes "int_flag (irq m)" and "gate_ready n (irq m)" and "idt (irq m) n = gate a"
  shows "take_interrupt n (c, m) = Some
    (c\<lparr>gpr := (gpr c)(ESP := gpr c ESP - 12), eip := a, code_seg := 8, eflags := eflags c AND NOT GATE_CLEARS,
       stack := (stack c)(gpr c ESP - 4 := eflags c, gpr c ESP - 8 := ucast (code_seg c), gpr c ESP - 12 := eip c)\<rparr>,
     m\<lparr>irq := (irq m)\<lparr>int_flag := False\<rparr>\<rparr>)"
  using assms(1) enter_gate_frame [OF assms(2,3)] by (simp add: take_interrupt_def)

text \<open>The twelve words below the interrupted stack pointer.\<close>

definition framed :: "cpu \<Rightarrow> u32 \<Rightarrow> u32 \<Rightarrow> u32" where
  "framed c return = (let e = gpr c ESP in
     (stack c)(e - 4 := eflags c, e - 8 := ucast (code_seg c), e - 12 := eip c, e - 16 := gpr c EAX,
       e - 20 := gpr c ECX, e - 24 := gpr c EDX, e - 28 := gpr c EBX, e - 32 := e - 12, e - 36 := gpr c EBP,
       e - 40 := gpr c ESI, e - 44 := gpr c EDI, e - 48 := return))"

lemma wrapper_code:
  "assemble a (keyboard_handler f) a = Some Pusha" "assemble a (keyboard_handler f) (a + 1) = Some (Call f)"
  "assemble a (keyboard_handler f) (a + 6) = Some Popa" "assemble a (keyboard_handler f) (a + 7) = Some Iret"
  by (simp_all add: keyboard_handler_def)

lemma enter_wrapper:
  assumes "int_flag (irq m)" and "gate_ready n (irq m)" and "idt (irq m) n = gate a"
    and "funs a = None" and "funs (a + 1) = None"
  shows "(do { x \<leftarrow> take_interrupt n (c, m); steps funs (assemble a (keyboard_handler f)) 2 x }) =
    Some (c\<lparr>gpr := (gpr c)(ESP := gpr c ESP - 48), eip := f, code_seg := 8, eflags := eflags c AND NOT GATE_CLEARS,
       stack := framed c (a + 6)\<rparr>, m\<lparr>irq := (irq m)\<lparr>int_flag := False\<rparr>\<rparr>)"
  using assms(4,5) take_interrupt_gate [OF assms(1-3)]
  by (simp add: step_def keyboard_handler_def push_def framed_def numeral_2_eq_2 Let_def)
    (cases c, simp add: add.commute)

lemma framed_above: "48 \<le> unat (gpr c ESP) \<Longrightarrow> unat (gpr c ESP) \<le> unat w \<Longrightarrow> framed c r w = stack c w"
  by (auto simp: framed_def Let_def unat_below)

text \<open>From a state whose stack holds the frame, above the return address, the wrapper restores it all.\<close>

lemma leave_wrapper:
  assumes "eip c1 = a + 6" and "gpr c1 ESP = gpr c ESP - 44"
    and "\<forall>k \<in> {4, 8, 12, 16, 20, 24, 28, 36, 40, 44}. stack c1 (gpr c ESP - k) = framed c r (gpr c ESP - k)"
    and "funs (a + 6) = None" and "funs (a + 7) = None"
  shows "steps funs (assemble a (keyboard_handler f)) 2 (c1, m) =
    Some (c\<lparr>stack := stack c1\<rparr>, m\<lparr>irq := (irq m)\<lparr>int_flag := eflags c AND IF_FLAG \<noteq> 0\<rparr>\<rparr>)"
proof -
  let ?e = "gpr c ESP"
  define c2 where "c2 = c1\<lparr>gpr := (gpr c)(ESP := ?e - 12), eip := a + 7\<rparr>"
  have w: "stack c1 (?e - 4) = eflags c" "stack c1 (?e - 8) = ucast (code_seg c)" "stack c1 (?e - 12) = eip c"
    "stack c1 (?e - 16) = gpr c EAX" "stack c1 (?e - 20) = gpr c ECX" "stack c1 (?e - 24) = gpr c EDX"
    "stack c1 (?e - 28) = gpr c EBX" "stack c1 (?e - 36) = gpr c EBP" "stack c1 (?e - 40) = gpr c ESI"
    "stack c1 (?e - 44) = gpr c EDI"
    using assms(3) by (simp_all add: framed_def Let_def)
  have regs: "(gpr c1)(EDI := gpr c EDI, ESI := gpr c ESI, EBP := gpr c EBP, EBX := gpr c EBX, EDX := gpr c EDX,
      ECX := gpr c ECX, ESP := ?e - 12, EAX := gpr c EAX) = (gpr c)(ESP := ?e - 12)" (is "?g = _")
  proof
    fix x show "?g x = ((gpr c)(ESP := ?e - 12)) x" by (cases x) simp_all
  qed
  have popa: "exec_instr Popa (c1, m) = (c2, m)"
    using assms(1,2) w regs by (simp add: pop_reg_def pop_def Let_def c2_def)
  have iret: "exec_instr Iret (c2, m) =
      (c\<lparr>stack := stack c1\<rparr>, m\<lparr>irq := (irq m)\<lparr>int_flag := eflags c AND IF_FLAG \<noteq> 0\<rparr>\<rparr>)"
    using w by (simp add: pop_def sync_flag_def segment_word c2_def)
  have "step funs (assemble a (keyboard_handler f)) (c1, m) = Some (c2, m)"
    using assms(1,4) popa wrapper_code(3) [of a f] by (simp add: step_def del: exec_instr.simps)
  moreover have "step funs (assemble a (keyboard_handler f)) (c2, m) = Some (exec_instr Iret (c2, m))"
    using assms(5) wrapper_code(4) [of a f] by (simp add: step_def c2_def del: exec_instr.simps)
  ultimately show ?thesis by (simp add: numeral_2_eq_2 iret del: exec_instr.simps)
qed

lemma gate_ready_flag [simp]: "gate_ready n (s\<lparr>int_flag := b\<rparr>) = gate_ready n s"
  by (simp add: gate_ready_def split: option.split)

lemma steps_add: "steps funs code (k + n) x = do { y \<leftarrow> steps funs code k x; steps funs code n y }"
  by (induction k arbitrary: x) (simp_all split: bind_splits)

text \<open>The vectors the kernel fills are ready once it has loaded the table.\<close>

lemma gates_ready:
  "gate_ready 0x21 (irq (init_enhanced_interrupts ka ta ia m))"
  "gate_ready 0x20 (irq (init_enhanced_interrupts ka ta ia m))"
  "idt (irq (init_enhanced_interrupts ka ta ia m)) 0x21 = gate ka"
  "idt (irq (init_enhanced_interrupts ka ta ia m)) 0x20 = gate ta"
  by (simp_all add: init_enhanced_interrupts_def init_interrupts_def lidt_def register_interrupt_handler_def
      gate_ready_def gate_def Let_def)

text \<open>A task that is its own successor: a tick switches to the stack it is on.\<close>

lemma timer_alone:
  assumes "scheduler_active (status m)" and "current_task m = p" and "p \<noteq> NULL"
    and "tasks m p = Some t" and "t_next t = p"
  shows "timer_callback regs m =
    Some (regs, (count_tick m)\<lparr>tasks := (tasks m)(p \<mapsto> t\<lparr>t_esp := fst regs, t_ebp := snd regs\<rparr>)\<rparr>)"
  using assms by (cases regs) (simp add: timer_callback_def count_tick_def set_task_def Let_def)

end
