(* ===== verification/IrqProps.thy ===== *)
theory IrqProps
  imports IrqFacts
begin

text \<open>
  The two interrupt handlers from the first word pushed to the return: the keyboard's, through its
  wrapper, leaves the interrupted program as it was; the timer's, entered directly, does not.
\<close>

text \<open>A compiled function that only returns, and a machine with one task, the table loaded and interrupts on.\<close>

definition plain_body :: "(cpu \<Rightarrow> machine \<Rightarrow> machine option) \<Rightarrow> cpu \<times> machine \<Rightarrow> cpu \<times> machine" where
  "plain_body f x = (case x of (c, m) \<Rightarrow>
     (c\<lparr>eip := stack c (gpr c ESP), gpr := (gpr c)(ESP := gpr c ESP + 4)\<rparr>,
      case f c m of None \<Rightarrow> m | Some m' \<Rightarrow> m'))"

lemma compiled_plain: "compiled f (plain_body f)"
  by (simp add: compiled_def plain_body_def returned_def)

definition lone_machine :: machine where
  "lone_machine =
     (let m = (machine_init (fs_init (heap_init 0x100000) Map.empty)
                 \<lparr>video = (\<lambda>_. 0), cursor_x = 0, cursor_y = 0, text_attribute = 7, ports = []\<rparr> 0)
                 \<lparr>status := status_init\<lparr>scheduler_active := True\<rparr>, current_task := 16, task_queue := 16,
                  tasks := [16 \<mapsto> zero_task\<lparr>t_next := 16\<rparr>]\<rparr>;
          m = init_enhanced_interrupts 0x1200 0x1300 0x5000 m in
      m\<lparr>irq := enable_interrupts (irq m)\<rparr>)"

definition lone_cpu :: cpu where
  "lone_cpu = \<lparr>gpr = (\<lambda>r. if r = ESP then 0x8FF00 else 7), eip = 0x1100, code_seg = 8, eflags = 0x202, stack = (\<lambda>_. 0)\<rparr>"

lemma lone_facts:
  "int_flag (irq lone_machine)" "gate_ready 0x21 (irq lone_machine)" "gate_ready 0x20 (irq lone_machine)"
  "idt (irq lone_machine) 0x21 = gate 0x1200" "idt (irq lone_machine) 0x20 = gate 0x1300"
  "eflags lone_cpu AND IF_FLAG \<noteq> 0" "48 \<le> unat (gpr lone_cpu ESP)"
  using gates_ready
  by (simp_all add: lone_machine_def lone_cpu_def IF_FLAG_def enable_interrupts_def Let_def)

lemma lone_task:
  "scheduler_active (status lone_machine)" "current_task lone_machine = 16"
  "tasks lone_machine 16 = Some (zero_task\<lparr>t_next := 16\<rparr>)" "key_buffer_pos (irq lone_machine) = 0"
  by (simp_all add: lone_machine_def init_enhanced_interrupts_def machine_init_def enable_interrupts_def Let_def
      register_interrupt_handler_def init_interrupts_def lidt_def intr_init_def)

text \<open>C14: A keyboard interrupt is transparent. Taken through the gate of \<^verbatim>\<open>init_interrupts\<close>, the wrapper
  \<^verbatim>\<open>keyboard_handler\<close> runs the C function once and returns in five steps to the instruction that was
  interrupted, with every register, the code segment and the flags as they were, interrupts enabled
  again, and no word at or above the stack pointer changed.\<close>

theorem keyboard_interrupt_transparent:
  assumes "compiled (keyboard_function scancode) body" and "f \<notin> {a, a + 1, a + 6, a + 7}"
    and "int_flag (irq m)" and "eflags c AND IF_FLAG \<noteq> 0"
    and "gate_ready 0x21 (irq m)" and "idt (irq m) 0x21 = gate a" and "48 \<le> unat (gpr c ESP)"
  shows "\<exists>st. (do { x \<leftarrow> take_interrupt 0x21 (c, m);
                   steps [f \<mapsto> body] (assemble a (keyboard_handler f)) 5 x }) =
      Some (c\<lparr>stack := st\<rparr>, m\<lparr>irq := keyboard_handler_internal scancode (irq m)\<rparr>) \<and>
    (\<forall>w. unat (gpr c ESP) \<le> unat w \<longrightarrow> st w = stack c w)"
proof -
  let ?code = "assemble a (keyboard_handler f)" and ?e = "gpr c ESP"
  define c1 where "c1 = c\<lparr>gpr := (gpr c)(ESP := ?e - 48), eip := f, code_seg := 8,
      eflags := eflags c AND NOT GATE_CLEARS, stack := framed c (a + 6)\<rparr>"
  define m1 where "m1 = m\<lparr>irq := (irq m)\<lparr>int_flag := False\<rparr>\<rparr>"
  define m2 where "m2 = m1\<lparr>irq := keyboard_handler_internal scancode (irq m1)\<rparr>"
  have free: "[f \<mapsto> body] a = None" "[f \<mapsto> body] (a + 1) = None" "[f \<mapsto> body] (a + 6) = None"
    "[f \<mapsto> body] (a + 7) = None" using assms(2) by auto
  have "(do { x \<leftarrow> take_interrupt 0x21 (c, m); steps [f \<mapsto> body] ?code 2 x }) = Some (c1, m1)"
    unfolding c1_def m1_def by (rule enter_wrapper [OF assms(3,5,6) free(1,2)])
  then obtain x where x: "take_interrupt 0x21 (c, m) = Some x" "steps [f \<mapsto> body] ?code 2 x = Some (c1, m1)"
    by (auto simp: option_bind_Some_iff)
  obtain c2 where c2: "body (c1, m1) = (c2, m2)" "returned c1 c2"
    using assms(1) by (auto simp: compiled_def keyboard_function_def m2_def)
  have call: "steps [f \<mapsto> body] ?code 1 (c1, m1) = Some (c2, m2)"
    using c2(1) by (simp add: step_def c1_def)
  have sp: "unat (?e - 48) = unat ?e - 48" using unat_below [of 48 ?e] assms(7) by simp
  have above: "stack c2 w = framed c (a + 6) w" if "unat ?e - 44 \<le> unat w" for w
    using c2(2) sp assms(7) that by (simp add: returned_def c1_def)
  have leave: "steps [f \<mapsto> body] ?code 2 (c2, m2) =
      Some (c\<lparr>stack := stack c2\<rparr>, m2\<lparr>irq := (irq m2)\<lparr>int_flag := eflags c AND IF_FLAG \<noteq> 0\<rparr>\<rparr>)"
  proof (rule leave_wrapper [OF _ _ _ free(3,4)])
    show "eip c2 = a + 6" "gpr c2 ESP = ?e - 44"
      using c2(2) by (simp_all add: returned_def c1_def framed_def Let_def)
    show "\<forall>k \<in> {4, 8, 12, 16, 20, 24, 28, 36, 40, 44}. stack c2 (?e - k) = framed c (a + 6) (?e - k)"
      using above assms(7) by (simp add: unat_below)
  qed
  have flag: "m2\<lparr>irq := (irq m2)\<lparr>int_flag := True\<rparr>\<rparr> = m\<lparr>irq := keyboard_handler_internal scancode (irq m)\<rparr>"
    using assms(3) by (simp add: m2_def m1_def handler_flag)
      (simp add: keyboard_handler_internal_def Let_def)
  have run: "steps [f \<mapsto> body] ?code 5 x =
      Some (c\<lparr>stack := stack c2\<rparr>, m\<lparr>irq := keyboard_handler_internal scancode (irq m)\<rparr>)"
  proof -
    have "steps [f \<mapsto> body] ?code (2 + (1 + 2)) x = steps [f \<mapsto> body] ?code 2 (c2, m2)"
      by (simp only: steps_add x(2) call bind.bind_lunit)
    with leave flag assms(4) show ?thesis by simp
  qed
  have "\<forall>w. unat ?e \<le> unat w \<longrightarrow> stack c2 w = stack c w"
    using above framed_above [OF assms(7)] by simp
  with run x(1) show ?thesis by auto
qed

lemma keyboard_interrupt_transparent_witness:
  "\<exists>st. (do { x \<leftarrow> take_interrupt 0x21 (lone_cpu, lone_machine);
               steps [0x1000 \<mapsto> plain_body (keyboard_function 0x1E)]
                 (assemble 0x1200 (keyboard_handler 0x1000)) 5 x }) =
      Some (lone_cpu\<lparr>stack := st\<rparr>, lone_machine\<lparr>irq := keyboard_handler_internal 0x1E (irq lone_machine)\<rparr>)"
  using keyboard_interrupt_transparent [OF compiled_plain [of "keyboard_function 0x1E"] _
      lone_facts(1,6,2,4,7), of "0x1000"]
  by auto

text \<open>C31: The timer handler, entered through its gate without a wrapper, goes back to the interrupted
  instruction with \<^verbatim>\<open>ret\<close>: the stack pointer is two words low, interrupts stay off, so that no later
  interrupt is taken and a program waiting for a key waits for ever, and the controller was sent
  no end of interrupt.\<close>

theorem timer_interrupt_wrecks:
  assumes "compiled (timer_function frame) body"
    and "int_flag (irq m)" and "gate_ready 0x20 (irq m)" and "idt (irq m) 0x20 = gate a"
    and "scheduler_active (status m)" and "current_task m = p" and "p \<noteq> NULL"
    and "tasks m p = Some t" and "t_next t = p"
  shows "\<exists>c' m'. (do { x \<leftarrow> take_interrupt 0x20 (c, m); steps [a \<mapsto> body] Map.empty 1 x }) = Some (c', m') \<and>
    eip c' = eip c \<and> gpr c' ESP = gpr c ESP - 8 \<and> iports (irq m') = iports (irq m) \<and>
    (\<forall>n. take_interrupt n (c', m') = None) \<and>
    (key_buffer_pos (irq m) = 0 \<longrightarrow> (\<forall>scs. keyboard_getchar scs (irq m') = None))"
proof -
  define c1 where "c1 = c\<lparr>gpr := (gpr c)(ESP := gpr c ESP - 12), eip := a, code_seg := 8,
      eflags := eflags c AND NOT GATE_CLEARS,
      stack := (stack c)(gpr c ESP - 4 := eflags c, gpr c ESP - 8 := ucast (code_seg c), gpr c ESP - 12 := eip c)\<rparr>"
  define m1 where "m1 = m\<lparr>irq := (irq m)\<lparr>int_flag := False\<rparr>\<rparr>"
  have enter: "take_interrupt 0x20 (c, m) = Some (c1, m1)"
    unfolding c1_def m1_def by (rule take_interrupt_gate [OF assms(2-4)])
  define m2 where "m2 = (count_tick m1)\<lparr>tasks := (tasks m1)(p \<mapsto>
      t\<lparr>t_esp := fst (frame c1), t_ebp := snd (frame c1)\<rparr>)\<rparr>"
  have "timer_callback (frame c1) m1 = Some (frame c1, m2)"
    unfolding m2_def using assms(5-9) by (intro timer_alone) (simp_all add: m1_def)
  then obtain c2 where c2: "body (c1, m1) = (c2, m2)" "returned c1 c2"
    using assms(1) [unfolded compiled_def, rule_format, of c1 m1 m2] by (auto simp: timer_function_def)
  have off: "irq m2 = (irq m)\<lparr>int_flag := False\<rparr>" by (simp add: m2_def m1_def count_tick_def Let_def)
  have "keyboard_getchar scs (irq m2) = None" if "key_buffer_pos (irq m) = 0" for scs
    using that by (cases scs) (simp_all add: off)
  moreover have "steps [a \<mapsto> body] Map.empty 1 (c1, m1) = Some (c2, m2)"
    using c2(1) by (simp add: step_def c1_def)
  moreover have "take_interrupt n (c2, m2) = None" for n by (simp add: take_interrupt_def off)
  ultimately show ?thesis using enter c2(2) off by (auto simp: returned_def c1_def)
qed

lemma timer_interrupt_wrecks_witness:
  "\<exists>c' m'. (do { x \<leftarrow> take_interrupt 0x20 (lone_cpu, lone_machine);
                  steps [0x1300 \<mapsto> plain_body (timer_function (\<lambda>c. (gpr c ESP, gpr c EBP)))] Map.empty 1 x }) =
      Some (c', m') \<and> eip c' = 0x1100 \<and> gpr c' ESP = 0x8FEF8 \<and> (\<forall>scs. keyboard_getchar scs (irq m') = None)"
proof -
  have "gpr lone_cpu ESP - 8 = 0x8FEF8" "eip lone_cpu = 0x1100" by (simp_all add: lone_cpu_def)
  then show ?thesis
    using timer_interrupt_wrecks [OF compiled_plain [of "timer_function (\<lambda>c. (gpr c ESP, gpr c EBP))"]
        lone_facts(1,3,5) lone_task(1,2) _ lone_task(3), of lone_cpu] lone_task(4)
    by auto
qed

text \<open>\<^verbatim>\<open>yield\<close> goes the same way, with interrupts on or off: with the scheduler running, the instruction after its
  \<^verbatim>\<open>int $0x20\<close> is reached with the stack pointer two words low and interrupts off, so that \<^verbatim>\<open>yield\<close> is not the
  call of \<^verbatim>\<open>timer_callback\<close> that it looks like; without the scheduler it does nothing.\<close>

theorem yield_leaves_two_words:
  assumes "compiled (timer_function frame) body" and "gate_ready 0x20 (irq m)" and "idt (irq m) 0x20 = gate a"
    and "current_task m = p" and "p \<noteq> NULL" and "tasks m p = Some t" and "t_next t = p"
  shows "if scheduler_active (status m)
    then \<exists>c' m'. yield [a \<mapsto> body] (c, m) = Some (c', m') \<and> eip c' = eip c + 2 \<and> gpr c' ESP = gpr c ESP - 8 \<and>
      \<not> int_flag (irq m') \<and> (\<forall>n. take_interrupt n (c', m') = None)
    else yield [a \<mapsto> body] (c, m) = Some (c, m)"
proof (cases "scheduler_active (status m)")
  case True
  define c1 where "c1 = c\<lparr>gpr := (gpr c)(ESP := gpr c ESP - 12), eip := a, code_seg := 8,
      eflags := eflags c AND NOT GATE_CLEARS,
      stack := (stack c)(gpr c ESP - 4 := eflags c, gpr c ESP - 8 := ucast (code_seg c), gpr c ESP - 12 := eip c + 2)\<rparr>"
  define m1 where "m1 = m\<lparr>irq := (irq m)\<lparr>int_flag := False\<rparr>\<rparr>"
  have enter: "int_instruction 0x20 (c, m) = Some (c1, m1)"
    unfolding c1_def m1_def int_instruction_def using enter_gate_frame [OF assms(2,3), of "c\<lparr>eip := eip c + 2\<rparr>"]
    by (cases c) simp
  define m2 where "m2 = (count_tick m1)\<lparr>tasks := (tasks m1)(p \<mapsto>
      t\<lparr>t_esp := fst (frame c1), t_ebp := snd (frame c1)\<rparr>)\<rparr>"
  have "timer_callback (frame c1) m1 = Some (frame c1, m2)"
    unfolding m2_def using True assms(4-7) by (intro timer_alone) (simp_all add: m1_def)
  then obtain c2 where c2: "body (c1, m1) = (c2, m2)" "returned c1 c2"
    using assms(1) [unfolded compiled_def, rule_format, of c1 m1 m2] by (auto simp: timer_function_def)
  have off: "\<not> int_flag (irq m2)" by (simp add: m2_def m1_def count_tick_def Let_def)
  moreover have "take_interrupt n (c2, m2) = None" for n using off by (simp add: take_interrupt_def)
  moreover have "yield [a \<mapsto> body] (c, m) = Some (c2, m2)"
    using True enter c2(1) by (simp add: yield_def step_def c1_def)
  ultimately show ?thesis using True c2(2) by (auto simp: returned_def c1_def)
next
  case False
  then show ?thesis by (simp add: yield_def)
qed

lemma yield_leaves_two_words_witness:
  "\<exists>c' m'. yield [0x1300 \<mapsto> plain_body (timer_function (\<lambda>c. (gpr c ESP, gpr c EBP)))] (lone_cpu, lone_machine) =
      Some (c', m') \<and> eip c' = 0x1102 \<and> gpr c' ESP = 0x8FEF8 \<and> \<not> int_flag (irq m')"
proof -
  have "gpr lone_cpu ESP - 8 = 0x8FEF8" "eip lone_cpu + 2 = 0x1102" by (simp_all add: lone_cpu_def)
  then show ?thesis
    using yield_leaves_two_words [OF compiled_plain [of "timer_function (\<lambda>c. (gpr c ESP, gpr c EBP))"]
        lone_facts(3,5) lone_task(2) _ lone_task(3), of lone_cpu] lone_task(1)
    by auto
qed

end
