(* ===== verification/ClockProps.thy ===== *)
theory ClockProps
  imports SystemProps Observe
begin

text \<open>
  The kernel under a running shell: no command reaches its clock, its memory figures or its tasks, so that
  what \<^verbatim>\<open>uptime\<close>, \<^verbatim>\<open>date\<close> and \<^verbatim>\<open>memory\<close> report is what the boot sequence left.
\<close>

definition kernel_side :: "sys \<Rightarrow> kernel_status \<times> (addr \<rightharpoonup> task) \<times> addr \<times> addr \<times> u32 \<times> u32" where
  "kernel_side s = (let m = mach s in
     (status m, tasks m, current_task m, task_queue m, next_task_id m, ticks m))"

interpretation kernel_seen: kernel_observation kernel_side
  by unfold_locales (simp_all add: kernel_side_def Let_def)

lemma prompts_kernel_side: "prompts c d \<Longrightarrow> kernel_side (snd (snd d)) = kernel_side (snd (snd c))"
proof (induction rule: prompts.induct)
  case (turn d e)
  obtain scs a s where d: "d = (scs, a, s)" by (cases d)
  obtain s1 b s2 l rest cmd s3 where n: "e = (rest, input l, set_current_history (- 1) s3)"
    "show_prompt s = Some s1" "read_line scs s1 \<lparr>input = b, position = 0\<rparr> = Some (s2, l, rest)"
    "execute_command cmd s2 = Some (Running s3)"
    using turn.hyps(2) unfolding d by (rule next_promptE)
  have "kernel_side s3 = kernel_side s"
    using kernel_seen.execute_command_obs [OF n(4)] kernel_seen.read_line_obs [OF n(3)]
      kernel_seen.show_prompt_obs [OF n(2)] by simp
  then show ?case using turn.IH by (simp add: n(1) d)
qed simp

lemma boot_status:
  assumes "heap_ok (fs m)" and "unat (heap_pos (kh (fs m))) + 5147 \<le> 0x10000"
    and "kmain_boot ka ta ia da buf m = Some m'"
  shows "uptime_seconds (status m') = uptime_seconds (status m)"
    and "get_memory_stats m' = (64 * 1024 * 1024, 63 * 1024 * 1024)"
    and "tasks m' (current_task m') = Some t \<Longrightarrow> t_next t = current_task m'" and "current_task m' \<noteq> NULL"
proof -
  let ?m0 = "m\<lparr>screen := terminal_initialize (screen m)\<rparr>"
  have pre: "kheap_inv (kh (fs ?m0))" "unat (heap_pos (kh (fs ?m0))) + 20 \<le> 0x10000"
    using assms by (simp_all add: heap_ok_def)
  define k where "k = kernel_init ka ta ia ?m0"
  have "uptime_seconds (status k) = uptime_seconds (status m) \<and> get_memory_stats k = (64 * 1024 * 1024, 63 * 1024 * 1024) \<and>
      current_task k \<noteq> NULL \<and> (\<forall>t. tasks k (current_task k) = Some t \<longrightarrow> t_next t = current_task k)"
    unfolding k_def by (rule kernel_init_facts [OF pre, of ka ta ia]) (simp add: get_memory_stats_def)
  moreover obtain g' where "m' = (say selftest_text (say (ln ''BasedOS Kernel v0.1'') k))\<lparr>fs := g'\<rparr>"
    unfolding k_def using kmain_boot_steps [OF assms(1,2), of ka ta ia da buf] assms(3) by force
  ultimately show "uptime_seconds (status m') = uptime_seconds (status m)"
    "get_memory_stats m' = (64 * 1024 * 1024, 63 * 1024 * 1024)"
    "tasks m' (current_task m') = Some t \<Longrightarrow> t_next t = current_task m'" "current_task m' \<noteq> NULL"
    by (simp_all add: say_def get_memory_stats_def)
qed

text \<open>C15: The clock stands still. From power-up, were interrupts enabled for the keyboard, at every prompt that any
  number of lines leads to, the kernel's status and tasks are what the boot sequence left: \<^verbatim>\<open>uptime\<close> prints the seconds
  there were at power-up, \<^verbatim>\<open>memory\<close> is told of 64 MiB of which 63 are free, whatever has been allocated
  meanwhile, and one task runs, its own successor.\<close>

theorem clock_stands_still:
  assumes "heap_ok (fs m)" and "unat (heap_pos (kh (fs m))) + 5147 \<le> 0x10000" and "valid (bytes (fs m)) stack 1024"
    and "uptime_seconds (status m) = 0"
  shows "\<exists>m' s0. kmain_boot ka ta ia da buf m = Some m' \<and>
    shell_greeting \<lparr>mach = m'\<lparr>irq := enable_interrupts (irq m')\<rparr>, sh = shell_init, frame = stack\<rparr> = Some s0 \<and>
    (\<forall>scs arr scs' arr' s. prompts (scs, arr, s0) (scs', arr', s) \<longrightarrow>
      cmd_uptime s = Some (write_sys (ln ''System uptime: 0 seconds'') s) \<and>
      get_memory_stats (mach s) = (64 * 1024 * 1024, 63 * 1024 * 1024) \<and>
      status (mach s) = status m' \<and> tasks (mach s) = tasks m' \<and> current_task (mach s) = current_task m')"
proof -
  obtain m' p where m': "kmain_boot ka ta ia da buf m = Some m'"
    "sys_inv ((register_interrupt_handler 0x20 ta (init_interrupts ka ia (irq m)))\<lparr>iports := p\<rparr>)
      \<lparr>mach = m', sh = shell_init, frame = stack\<rparr>"
    by (rule boot_system [OF assms(1-3)])
  let ?s = "\<lparr>mach = m'\<lparr>irq := enable_interrupts (irq m')\<rparr>, sh = shell_init, frame = stack\<rparr>"
  let ?i = "register_interrupt_handler 0x20 ta (init_interrupts ka ia (irq m))"
  obtain q where "irq m' = ?i\<lparr>iports := q\<rparr>" using m'(2) by (auto simp: sys_inv_def)
  then have "irq (mach ?s) = (enable_interrupts ?i)\<lparr>iports := q\<rparr>" by (simp add: enable_interrupts_def)
  then have "sys_inv (enable_interrupts ?i) ?s" using m'(2) unfolding sys_inv_def by auto
  then obtain s0 where s0: "shell_greeting ?s = Some s0"
    by (rule greeting_run) (simp_all add: shell_init_def)
  note b = boot_status [OF assms(1,2) m'(1)]
  have "cmd_uptime s = Some (write_sys (ln ''System uptime: 0 seconds'') s) \<and>
      get_memory_stats (mach s) = (64 * 1024 * 1024, 63 * 1024 * 1024) \<and>
      status (mach s) = status m' \<and> tasks (mach s) = tasks m' \<and> current_task (mach s) = current_task m'"
    if "prompts (scs, arr, s0) (scs', arr', s)" for scs arr scs' arr' s
  proof -
    have "kernel_side s = kernel_side ?s"
      using prompts_kernel_side [OF that] kernel_seen.shell_greeting_obs [OF s0] by simp
    then have k: "status (mach s) = status m'" "tasks (mach s) = tasks m'" "current_task (mach s) = current_task m'"
      by (simp_all add: kernel_side_def Let_def)
    then have "get_uptime (mach s) = 0" using b(1) assms(4) by (simp add: get_uptime_def)
    then have "cmd_uptime s = Some (write_sys (ln ''System uptime: 0 seconds'') s)"
      by (simp add: cmd_uptime_def put_str_render ln_def show_int_def show_nat_def)
    then show ?thesis using k b(2) by (simp add: get_memory_stats_def)
  qed
  then show ?thesis using m'(1) s0 by blast
qed

lemma clock_stands_still_witness:
  "\<exists>m' s0. kmain_boot 1 2 3 0x3000 0x3100 power_on = Some m' \<and>
    shell_greeting \<lparr>mach = m'\<lparr>irq := enable_interrupts (irq m')\<rparr>, sh = shell_init, frame = 0x2000\<rparr> = Some s0 \<and>
    cmd_uptime s0 = Some (write_sys (ln ''System uptime: 0 seconds'') s0)"
proof -
  have "uptime_seconds (status power_on) = 0" by (simp add: power_on_def machine_init_def status_init_def)
  from clock_stands_still [OF power_on_ok(1,2,4) this, of 1 2 3 "0x3000" "0x3100"] prompts.here
  show ?thesis by blast
qed

end
