(* ===== verification/TypeAhead.thy ===== *)
theory TypeAhead
  imports ShellProps
begin

text \<open>
  Keys that arrive while the shell is at work. The loop of \<^verbatim>\<open>start_shell\<close> fetches a key, handles it and comes back;
  the keys pressed meanwhile go to the buffer. Here any number of them arrives before each fetch.
\<close>

definition chars :: "u8 list \<Rightarrow> byte list" where
  "chars scs = List.map_filter key_of scs"

text \<open>What is still to be read: the buffered keys, then those not yet pressed.\<close>

definition stream :: "intr \<Rightarrow> u8 list \<Rightarrow> byte list" where
  "stream i scs = pending i @ chars scs"

definition arrive :: "nat \<Rightarrow> u8 list \<Rightarrow> sys \<Rightarrow> sys" where
  "arrive n scs s = s\<lparr>mach := (mach s)\<lparr>irq := fold keyboard_handler_internal (take n scs) (irq (mach s))\<rparr>\<rparr>"

text \<open>The loop of \<open>read_line\<close>, with a schedule: the numbers of scancodes that come in before its next fetches. Where
  the schedule ends, scancodes come in only while the shell waits for a key. What the line leaves of the schedule is
  for the fetches after it.\<close>

fun read_ahead :: "nat list \<Rightarrow> u8 list \<Rightarrow> sys \<Rightarrow> line \<Rightarrow> (sys \<times> line \<times> u8 list \<times> nat list) option" where
  "read_ahead [] scs s l = do { (s, l, scs) \<leftarrow> read_line scs s l; Some (s, l, scs, []) }"
| "read_ahead (n # ns) scs s l =
     do { (c, s, scs) \<leftarrow> sys_getchar (drop n scs) (arrive n scs s);
          (complete, s, l) \<leftarrow> shell_key c s l;
          if complete then Some (s, l, scs, ns) else read_ahead ns scs s l }"

text \<open>A fetch that finds the buffer empty sleeps until a scancode has a character.\<close>

definition awaited :: "u8 list \<Rightarrow> u8 list" where
  "awaited scs = tl (dropWhile (\<lambda>q. key_of q = None) scs)"

text \<open>The backlog of a schedule: with \<open>p\<close> characters in the buffer, what comes in before each fetch never makes the
  number of characters waiting exceed 255. A release or another scancode without a character takes no place, and every
  fetch gives one place back.\<close>

fun backlog_ok :: "nat list \<Rightarrow> nat \<Rightarrow> u8 list \<Rightarrow> bool" where
  "backlog_ok [] p scs = True"
| "backlog_ok (n # ns) p scs =
     (let waiting = p + length (chars (take n scs)); scs = drop n scs in
      waiting \<le> 255 \<and>
      (if waiting = 0 then backlog_ok ns 0 (awaited scs) else backlog_ok ns (waiting - 1) scs))"

lemma chars_simps [simp]:
  "chars [] = []" "chars (q # scs) = (case key_of q of None \<Rightarrow> chars scs | Some c \<Rightarrow> c # chars scs)"
  by (simp_all add: chars_def List.map_filter_def split: option.split)

lemma chars_append: "chars (xs @ ys) = chars xs @ chars ys"
  by (simp add: chars_def List.map_filter_def)

definition hears :: "intr \<Rightarrow> bool" where
  "hears i \<longleftrightarrow> kbd_inv i \<and> int_flag i"

lemma hears_iports [simp]: "hears (i\<lparr>iports := p\<rparr>) = hears i" "stream (i\<lparr>iports := p\<rparr>) scs = stream i scs"
    "pending (i\<lparr>iports := p\<rparr>) = pending i"
  by (simp_all add: hears_def kbd_inv_def stream_def pending_def)

lemma getchar_pending:
  assumes "hears i" and "pending i = c # cs"
  shows "\<exists>i'. keyboard_getchar scs i = Some (c, i', scs) \<and> hears i' \<and> pending i' = cs"
proof -
  have inv: "kbd_inv i" "int_flag i" using assms(1) by (simp_all add: hears_def)
  have ne: "pending i \<noteq> []" using assms(2) by simp
  then have pos: "key_buffer_pos i \<noteq> 0" using pending_empty [OF inv(1)] by blast
  note t = take_key_pending [OF inv(1) ne]
  obtain i' where i': "take_key i = (c, i')" using t(1) assms(2) by (cases "take_key i") simp
  have "keyboard_getchar scs i = Some (c, i', scs)" using pos i' by (cases scs) simp_all
  moreover have "hears i'" "pending i' = cs" using t inv i' assms(2) by (simp_all add: hears_def)
  ultimately show ?thesis by blast
qed

lemma getchar_stream:
  assumes "hears i" and "stream i scs = c # cs"
  shows "\<exists>i' rest. keyboard_getchar scs i = Some (c, i', rest) \<and> hears i' \<and> stream i' rest = cs \<and>
    pending i' = tl (pending i) \<and> rest = (if pending i = [] then awaited scs else scs)"
  using assms
proof (induction scs arbitrary: i)
  case Nil
  have "pending i = c # cs" using Nil(2) by (simp add: stream_def)
  then obtain i' where "keyboard_getchar [] i = Some (c, i', [])" "hears i'" "pending i' = cs"
    using getchar_pending [OF Nil(1)] by blast
  then show ?case using \<open>pending i = c # cs\<close>
    by (intro exI [of _ i'] exI [of _ "[]"]) (simp add: stream_def del: keyboard_getchar.simps)
next
  case (Cons q scs)
  have inv: "kbd_inv i" "int_flag i" using Cons.prems(1) by (simp_all add: hears_def)
  show ?case
  proof (cases "pending i")
    case (Cons d ds)
    then have d: "d = c" "ds @ chars (q # scs) = cs" using Cons.prems(2) by (simp_all add: stream_def del: chars_simps)
    obtain i' where "keyboard_getchar (q # scs) i = Some (c, i', q # scs)" "hears i'" "pending i' = ds"
      using getchar_pending [OF Cons.prems(1)] Cons d(1) by blast
    then show ?thesis using d(2) Cons
      by (intro exI [of _ i'] exI [of _ "q # scs"]) (simp add: stream_def del: keyboard_getchar.simps)
  next
    case Nil
    let ?i = "keyboard_handler_internal q i"
    note h = key_handler_pending [OF inv(1), of q]
    have hears: "hears ?i" using h inv by (simp add: hears_def)
    have step: "keyboard_getchar (q # scs) i = keyboard_getchar scs ?i"
      using Nil inv pending_empty by simp
    show ?thesis
    proof (cases "key_of q")
      case None
      then have "pending ?i = []" "stream ?i scs = c # cs" using h(2) Nil Cons.prems(2) by (simp_all add: stream_def)
      with Cons.IH [OF hears this(2)] step None Nil show ?thesis by (simp add: awaited_def)
    next
      case (Some e)
      then have "pending ?i = [c]" "chars scs = cs" using h(2) Nil Cons.prems(2) by (simp_all add: stream_def)
      with getchar_pending [OF hears this(1), of scs] step Nil Some show ?thesis by (auto simp: stream_def awaited_def)
    qed
  qed
qed

lemma arrive_0 [simp]: "arrive 0 scs s = s"
  by (simp add: arrive_def)

lemma arrive_stream:
  assumes "hears (irq (mach s))" and "length (pending (irq (mach s))) + length (chars (take n scs)) \<le> 255"
  shows "hears (irq (mach (arrive n scs s)))"
    and "stream (irq (mach (arrive n scs s))) (drop n scs) = stream (irq (mach s)) scs"
    and "pending (irq (mach (arrive n scs s))) = pending (irq (mach s)) @ chars (take n scs)"
proof -
  let ?i = "irq (mach s)" and ?j = "fold keyboard_handler_internal (take n scs) (irq (mach s))"
  have inv: "kbd_inv ?i" "int_flag ?i" using assms(1) by (simp_all add: hears_def)
  have flag: "int_flag (fold keyboard_handler_internal xs i) = int_flag i" for xs i
    by (induction xs arbitrary: i) (simp_all add: keyboard_handler_internal_def Let_def)
  have "pending ?j = take 255 (pending ?i @ chars (take n scs))"
    unfolding chars_def by (rule kb.items_enq_many [OF inv(1)]) (use assms(2) in simp)
  then have p: "pending ?j = pending ?i @ chars (take n scs)" using assms(2) by simp
  then show "pending (irq (mach (arrive n scs s))) = pending (irq (mach s)) @ chars (take n scs)" by (simp add: arrive_def)
  show "hears (irq (mach (arrive n scs s)))"
    using kb.inv_enq_many [OF inv(1)] flag inv(2) by (simp add: hears_def arrive_def)
  have "chars scs = chars (take n scs) @ chars (drop n scs)" by (simp flip: chars_append)
  then show "stream (irq (mach (arrive n scs s))) (drop n scs) = stream ?i scs" using p by (simp add: stream_def arrive_def)
qed

text \<open>One round of the loop, whether the schedule has an entry for it or not.\<close>

definition early :: "nat list \<Rightarrow> nat" where
  "early ns = (case ns of [] \<Rightarrow> 0 | n # _ \<Rightarrow> n)"

lemma read_ahead_unfold:
  "read_ahead ns scs s l =
     do { (c, s, scs) \<leftarrow> sys_getchar (drop (early ns) scs) (arrive (early ns) scs s);
          (complete, s, l) \<leftarrow> shell_key c s l;
          if complete then Some (s, l, scs, tl ns) else read_ahead (tl ns) scs s l }"
proof (cases ns)
  case Nil
  show ?thesis
  proof (cases "sys_getchar scs s")
    case None
    then show ?thesis using Nil by (simp add: early_def read_line.simps [of scs s l])
  next
    case (Some r)
    obtain c s1 rest where r: "r = (c, s1, rest)" by (cases r)
    show ?thesis using Nil Some r by (cases "shell_key c s1 l") (auto simp: early_def read_line.simps [of scs s l])
  qed
next
  case (Cons n ms)
  show ?thesis unfolding Cons early_def list.case list.sel read_ahead.simps ..
qed

lemma backlog_round:
  assumes "backlog_ok ns (length (pending (irq (mach s)))) scs" and "hears (irq (mach s))"
  defines "t \<equiv> arrive (early ns) scs s" and "left \<equiv> drop (early ns) scs"
  shows "hears (irq (mach t))" and "stream (irq (mach t)) left = stream (irq (mach s)) scs"
    and "backlog_ok (tl ns) (length (tl (pending (irq (mach t))))) (if pending (irq (mach t)) = [] then awaited left else left)"
proof -
  have fits: "early ns = 0 \<or> length (pending (irq (mach s))) + length (chars (take (early ns) scs)) \<le> 255"
    using assms(1) by (cases ns) (simp_all add: early_def Let_def)
  show "hears (irq (mach t))" "stream (irq (mach t)) left = stream (irq (mach s)) scs"
    using fits arrive_stream [OF assms(2), of "early ns" scs] assms(2) by (auto simp: t_def left_def)
  have "pending (irq (mach t)) = pending (irq (mach s)) @ chars (take (early ns) scs)"
    using fits arrive_stream(3) [OF assms(2), of "early ns" scs] by (auto simp: t_def)
  then show "backlog_ok (tl ns) (length (tl (pending (irq (mach t))))) (if pending (irq (mach t)) = [] then awaited left else left)"
    using assms(1) by (cases ns) (auto simp: early_def Let_def left_def split: if_splits)
qed

text \<open>What reading a line keeps of the system.\<close>

definition kept :: "sys \<Rightarrow> sys \<Rightarrow> bool" where
  "kept s t \<longleftrightarrow> shell_inv (sh t) \<and> hears (irq (mach t)) \<and> (\<exists>k. sh t = (sh s)\<lparr>current_history := k\<rparr>) \<and>
     fs (mach t) = fs (mach s) \<and> frame t = frame s \<and> status (mach t) = status (mach s)"

lemma kept_trans: "kept s t \<Longrightarrow> kept t u \<Longrightarrow> kept s u"
  by (auto simp: kept_def)

lemma kept_arrive: "kept (arrive n scs s) t \<longleftrightarrow> kept s t"
  by (simp add: kept_def arrive_def)

lemma key_step:
  assumes "shell_inv (sh s)" and "line_inv l" and "hears (irq (mach s))" and "stream (irq (mach s)) scs = c # cs"
    and "c \<notin> {CHR ''H'', CHR ''P''}"
  shows "\<exists>s1 s2 l2 rest. sys_getchar scs s = Some (c, s1, rest) \<and> shell_key c s1 l = Some (c = CHR 0x0D, s2, l2) \<and>
    kept s s2 \<and> line_inv l2 \<and> line_text l2 = edited c (line_text l) \<and> stream (irq (mach s2)) rest = cs \<and>
    pending (irq (mach s2)) = tl (pending (irq (mach s))) \<and>
    rest = (if pending (irq (mach s)) = [] then awaited scs else scs)"
proof -
  obtain i rest where g: "keyboard_getchar scs (irq (mach s)) = Some (c, i, rest)" "hears i" "stream i rest = cs"
    "pending i = tl (pending (irq (mach s)))" "rest = (if pending (irq (mach s)) = [] then awaited scs else scs)"
    using getchar_stream [OF assms(3,4)] by blast
  let ?s = "s\<lparr>mach := (mach s)\<lparr>irq := i\<rparr>\<rparr>"
  have inv: "shell_inv (sh ?s)" using assms(1) by simp
  obtain s2 l2 where k: "shell_key c ?s l = Some (c = CHR 0x0D, s2, l2)" "key_frame ?s s2" "line_inv l2"
    "line_text l2 = edited c (line_text l)"
    using shell_key_total [OF inv assms(2), of c] assms(5) by auto
  obtain p where "irq (mach s2) = i\<lparr>iports := p\<rparr>" using k(2) by (auto simp: key_frame_def)
  then have "kept s s2" "stream (irq (mach s2)) rest = cs" "pending (irq (mach s2)) = pending i"
    using k(2) g(2,3) by (auto simp: kept_def key_frame_def)
  then show ?thesis using g k by (intro exI [of _ ?s] exI [of _ s2] exI [of _ l2] exI [of _ rest]) (simp add: sys_getchar_def)
qed

text \<open>The line that is read when the stream of keys holds an Enter, and what is left of the stream and the schedule.\<close>

definition reads :: "byte list \<Rightarrow> byte list \<Rightarrow> nat list \<Rightarrow> sys \<Rightarrow> line \<Rightarrow> (sys \<times> line \<times> u8 list \<times> nat list) option \<Rightarrow> bool" where
  "reads cs left ns s l r \<longleftrightarrow> (\<exists>s' l' rest. r = Some (s', l', rest, drop (Suc (length cs)) ns) \<and> kept s s' \<and> line_inv l' \<and>
     line_text l' = fold edited cs (line_text l) \<and> stream (irq (mach s')) rest = left \<and>
     backlog_ok (drop (Suc (length cs)) ns) (length (pending (irq (mach s')))) rest)"

lemma reads_step:
  assumes "kept s s2" and "line_text l2 = edited c (line_text l)" and "reads cs left (tl ns) s2 l2 r"
  shows "reads (c # cs) left ns s l r"
  using assms by (fastforce simp: reads_def drop_Suc intro: kept_trans)

lemma read_ahead_stream:
  assumes "shell_inv (sh s)" and "line_inv l" and "hears (irq (mach s))"
    and "stream (irq (mach s)) scs = cs @ CHR 0x0D # left" and "set cs \<inter> {CHR 0x0D, CHR ''H'', CHR ''P''} = {}"
    and "backlog_ok ns (length (pending (irq (mach s)))) scs"
  shows "reads cs left ns s l (read_ahead ns scs s l)"
  using assms
proof (induction cs arbitrary: ns scs s l)
  case Nil
  let ?s = "arrive (early ns) scs s" and ?scs = "drop (early ns) scs"
  note r = backlog_round [OF Nil(6,3)]
  have inv: "shell_inv (sh ?s)" using Nil(1) by (simp add: arrive_def)
  obtain s1 s2 l2 rest where k: "sys_getchar ?scs ?s = Some (CHR 0x0D, s1, rest)"
    "shell_key (CHR 0x0D) s1 l = Some (True, s2, l2)" "kept ?s s2" "line_inv l2" "line_text l2 = edited (CHR 0x0D) (line_text l)"
    "stream (irq (mach s2)) rest = left" "pending (irq (mach s2)) = tl (pending (irq (mach ?s)))"
    "rest = (if pending (irq (mach ?s)) = [] then awaited ?scs else ?scs)"
    using key_step [OF inv Nil(2) r(1), of ?scs "CHR 0x0D" left] r(2) Nil(4) by auto
  have "read_ahead ns scs s l = Some (s2, l2, rest, tl ns)" by (subst read_ahead_unfold) (simp add: k(1,2))
  then show ?case using k r(3) by (simp add: reads_def edited_def kept_arrive drop_Suc)
next
  case (Cons c cs)
  let ?s = "arrive (early ns) scs s" and ?scs = "drop (early ns) scs"
  note r = backlog_round [OF Cons.prems(6,3)]
  have c: "c \<notin> {CHR ''H'', CHR ''P''}" "c \<noteq> CHR 0x0D" "set cs \<inter> {CHR 0x0D, CHR ''H'', CHR ''P''} = {}"
    using Cons.prems(5) by auto
  have inv: "shell_inv (sh ?s)" using Cons.prems(1) by (simp add: arrive_def)
  obtain s1 s2 l2 rest where k: "sys_getchar ?scs ?s = Some (c, s1, rest)" "shell_key c s1 l = Some (False, s2, l2)"
    "kept ?s s2" "line_inv l2" "line_text l2 = edited c (line_text l)" "stream (irq (mach s2)) rest = cs @ CHR 0x0D # left"
    "pending (irq (mach s2)) = tl (pending (irq (mach ?s)))"
    "rest = (if pending (irq (mach ?s)) = [] then awaited ?scs else ?scs)"
    using key_step [OF inv Cons.prems(2) r(1), of ?scs c "cs @ CHR 0x0D # left"] r(2) Cons.prems(4) c(1,2) by auto
  have "reads cs left (tl ns) s2 l2 (read_ahead (tl ns) rest s2 l2)"
    by (rule Cons.IH) (use k r(3) c(3) in \<open>auto simp: kept_def\<close>)
  then have "reads (c # cs) left ns s l (read_ahead (tl ns) rest s2 l2)"
    by (rule reads_step [OF k(3) [unfolded kept_arrive] k(5)])
  moreover have "read_ahead ns scs s l = read_ahead (tl ns) rest s2 l2" by (subst read_ahead_unfold) (simp add: k(1,2))
  ultimately show ?case by simp
qed

text \<open>C12: Type-ahead is harmless until the buffer is full. However many scancodes come in before each fetch of the
  line editor, as long as no more than 255 characters are ever waiting at once, the line read is the one obtained by
  editing with the characters of the keys up to Enter, in the order pressed, and every character after it is still to be
  read, from the buffer or the keyboard; the schedule goes on after one entry for each fetch, the shell's tables
  and the file system are as they were.\<close>

theorem type_ahead:
  assumes "shell_inv (sh s)" and "line_inv l" and "hears (irq (mach s))"
    and "pending (irq (mach s)) @ List.map_filter key_of scs = cs @ CHR 0x0D # left"
    and "set cs \<inter> {CHR 0x0D, CHR ''H'', CHR ''P''} = {}"
    and "backlog_ok ns (length (pending (irq (mach s)))) scs"
  shows "\<exists>s' l' rest k. read_ahead ns scs s l = Some (s', l', rest, drop (Suc (length cs)) ns) \<and>
    arr_cstr (input l') = Some (fold edited cs (line_text l)) \<and>
    pending (irq (mach s')) @ List.map_filter key_of rest = left \<and>
    sh s' = (sh s)\<lparr>current_history := k\<rparr> \<and> fs (mach s') = fs (mach s)"
  using read_ahead_stream [OF assms(1-3) _ assms(5,6), of left] assms(4) line_cstr
  by (fastforce simp: reads_def kept_def stream_def chars_def)

text \<open>Five scancodes come in before the first fetch and one before the second; the third finds Enter waiting, and two
  characters with it.\<close>

lemma type_ahead_witness:
  "\<exists>s' l' rest. read_ahead [5, 1] [0x26, 0xA6, 0x1F, 0x1C, 0x02, 0x03, 0x04] live_sys empty_line = Some (s', l', rest, []) \<and>
    arr_cstr (input l') = Some ''ls'' \<and> pending (irq (mach s')) @ List.map_filter key_of rest = ''123''"
proof -
  have h: "hears (irq (mach live_sys))" "pending (irq (mach live_sys)) = []"
    using live_sys_ok(2) by (simp_all add: hears_def listening_def)
  moreover have "List.map_filter key_of [0x26, 0xA6, 0x1F, 0x1C, 0x02, 0x03, 0x04] = ''ls'' @ CHR 0x0D # ''123''"
    by (simp add: key_of_def scancode_to_ascii_def List.map_filter_def)
  moreover have "fold edited ''ls'' (line_text empty_line) = ''ls''"
    using empty_line_inv(2) by (simp add: edited_def schar_lower)
  moreover have "backlog_ok [5, 1] (length (pending (irq (mach live_sys)))) [0x26, 0xA6, 0x1F, 0x1C, 0x02, 0x03, 0x04]"
    by (simp add: h(2) Let_def key_of_def scancode_to_ascii_def)
  ultimately show ?thesis
    using type_ahead [OF live_sys_ok(1) empty_line_inv(1), of "[0x26, 0xA6, 0x1F, 0x1C, 0x02, 0x03, 0x04]" "''ls''" "''123''" "[5, 1]"]
    by auto
qed

end
