(* ===== verification/SessionAhead.thy ===== *)
theory SessionAhead
  imports SessionProps TypeAhead
begin

text \<open>
  A session whose user types ahead: keys arrive while commands run and between the fetches of a line. The abstract
  shell is the same as for a user who waits.
\<close>

text \<open>The main loop with one schedule for all its fetches, whatever line they belong to. Scancodes that come in while a
  command runs count among those before the next fetch: commands do not look at the buffer.\<close>

partial_function (option) shell_ahead ::
  "nat list \<Rightarrow> u8 list \<Rightarrow> byte list \<Rightarrow> sys \<Rightarrow> (outcome \<times> u8 list) option" where
  "shell_ahead ns scs input_array s =
     do { s \<leftarrow> show_prompt s;
          a \<leftarrow> arr_set input_array 0 NUL;
          (s, l, scs, ns) \<leftarrow> read_ahead ns scs s \<lparr>input = a, position = 0\<rparr>;
          cmd \<leftarrow> arr_cstr (input l);
          r \<leftarrow> execute_command cmd s;
          case r of
            Halted s \<Rightarrow> Some (Halted s, scs)
          | Running s \<Rightarrow>
              let s = set_current_history (- 1) s in
              if strcmp_spec cmd ''exit'' = 0 then Some (Running s, scs)
              else shell_ahead ns scs (input l) s }"

definition edits :: "byte list \<Rightarrow> string" where
  "edits cs = fold edited cs []"

text \<open>The prompt and a line read under a schedule.\<close>

lemma prompt_ahead:
  assumes "sys_inv i s" and "hears i" and "length a = 128"
    and "stream i scs = cs @ CHR 0x0D # left" and "set cs \<inter> {CHR 0x0D, CHR ''H'', CHR ''P''} = {}"
    and "backlog_ok ns (length (pending i)) scs"
  obtains s1 s2 l j rest where "show_prompt s = Some s1"
    and "read_ahead ns scs s1 \<lparr>input = a[0 := NUL], position = 0\<rparr> = Some (s2, l, rest, drop (Suc (length cs)) ns)"
    and "sys_inv j s2" and "hears j" and "stream j rest = left"
    and "backlog_ok (drop (Suc (length cs)) ns) (length (pending j)) rest"
    and "view (sh s2) = view (sh s)" and "line_inv l" and "line_text l = edits cs"
proof -
  have inv: "shell_inv (sh s)" by (rule sys_inv_shell_inv [OF assms(1)])
  obtain s1 where s1: "show_prompt s = Some s1" "screen_only s s1"
    using prompt_run [OF inv] by (auto simp: succeeds_def)
  have i1: "sys_inv i s1" by (rule sys_inv_screen [OF assms(1) s1(2)])
  then obtain p where irq: "irq (mach s1) = i\<lparr>iports := p\<rparr>" by (auto simp: sys_inv_def)
  have sh1: "sh s1 = sh s" by (rule screen_only_simps(1) [OF s1(2)])
  let ?l = "\<lparr>input = a[0 := NUL], position = 0\<rparr>"
  have c: "line_inv ?l" "line_text ?l = []" using cleared_line [OF assms(3)] by simp_all
  have "reads cs left ns s1 ?l (read_ahead ns scs s1 ?l)"
    by (rule read_ahead_stream [OF _ c(1)]) (use inv sh1 irq assms(2,4,5,6) in simp_all)
  then obtain s2 l rest where r: "read_ahead ns scs s1 ?l = Some (s2, l, rest, drop (Suc (length cs)) ns)"
    "kept s1 s2" "line_inv l" "line_text l = edits cs" "stream (irq (mach s2)) rest = left"
    "backlog_ok (drop (Suc (length cs)) ns) (length (pending (irq (mach s2)))) rest"
    by (auto simp: reads_def edits_def c(2))
  obtain k where k: "sh s2 = (sh s)\<lparr>current_history := k\<rparr>" using r(2) sh1 by (auto simp: kept_def)
  have "commands_ok (sh s2)" using i1 k sh1 by (simp add: sys_inv_def commands_ok_def alias_list_def)
  moreover have "\<exists>p. irq (mach s2) = (irq (mach s2))\<lparr>iports := p\<rparr>"
    by (rule exI [of _ "iports (irq (mach s2))"]) simp
  ultimately have "sys_inv (irq (mach s2)) s2" using i1 r(2) unfolding sys_inv_def kept_def by auto
  moreover have "hears (irq (mach s2))" using r(2) by (simp add: kept_def)
  moreover have "view (sh s2) = view (sh s)" by (simp add: k)
  ultimately show thesis using that [OF s1(1) r(1)] r(3-6) by blast
qed

text \<open>A line that is not the last takes the shell to its next prompt.\<close>

lemma shell_ahead_view:
  assumes "sys_inv i s" and "hears i" and "length a = 128"
    and "stream i scs = cs @ CHR 0x0D # left" and "set cs \<inter> {CHR 0x0D, CHR ''H'', CHR ''P''} = {}"
    and "backlog_ok ns (length (pending i)) scs" and last: "\<not> last_line (edits cs) (view (sh s))"
  shows "\<exists>j b t rest. shell_ahead ns scs a s = shell_ahead (drop (Suc (length cs)) ns) rest b t \<and> sys_inv j t \<and> hears j \<and>
    stream j rest = left \<and> backlog_ok (drop (Suc (length cs)) ns) (length (pending j)) rest \<and> length b = 128 \<and>
    view (sh t) = spec_line (edits cs) (view (sh s))"
proof -
  obtain s1 s2 l j rest where r: "show_prompt s = Some s1"
    "read_ahead ns scs s1 \<lparr>input = a[0 := NUL], position = 0\<rparr> = Some (s2, l, rest, drop (Suc (length cs)) ns)"
    "sys_inv j s2" "hears j" "stream j rest = left" "backlog_ok (drop (Suc (length cs)) ns) (length (pending j)) rest"
    "view (sh s2) = view (sh s)" "line_inv l" "line_text l = edits cs"
    by (rule prompt_ahead [OF assms(1-6)])
  have short: "NUL \<notin> set (edits cs)" "length (edits cs) \<le> 126"
    using r(8,9) line_position [OF r(8)] line_text_length [OF r(8)] by (auto simp: line_inv_def)
  have w: "command_words (edits cs) (sh s2) = spec_words (edits cs) (view (sh s))"
    using spec_words_view [of "edits cs" "sh s2"] r(7) by simp
  have go: "\<not> fatal (edits cs) (sh s2)" "\<not> halts (command_words (edits cs) (sh s2))" "edits cs \<noteq> ''exit''"
    using last by (auto simp: last_line_def fatal_def w)
  obtain t where t: "execute_command (edits cs) s2 = Some (Running t)" "sys_inv j t"
    "view (sh t) = spec_line (edits cs) (view (sh s))"
    using execute_view [OF r(3) short go(1)] go(2) r(7) by auto
  have "strcmp_spec (edits cs) ''exit'' \<noteq> 0"
    using strcmp_spec_eq_0 [of "edits cs" "''exit''"] short go(3) by simp
  moreover have "arr_cstr (input l) = Some (edits cs)" using line_cstr [OF r(8)] r(9) by simp
  ultimately have "shell_ahead ns scs a s =
      shell_ahead (drop (Suc (length cs)) ns) rest (input l) (set_current_history (- 1) t)"
    using r(1,2) cleared_line [OF assms(3)] t(1) by (subst shell_ahead.simps) simp
  moreover have "sys_inv j (set_current_history (- 1) t)" using sys_inv_current [OF t(2)] by simp
  moreover have "length (input l) = 128" using line_position [OF r(8)] by simp
  moreover have "view (sh (set_current_history (- 1) t)) = spec_line (edits cs) (view (sh s))"
    using t(3) by (simp add: set_current_history_def)
  ultimately show ?thesis using r(4-6) by blast
qed

definition entered :: "byte list list \<Rightarrow> byte list" where
  "entered lines = concat (map (\<lambda>cs. cs @ [CHR 0x0D]) lines)"

lemma entered_simps [simp]: "entered [] = []" "entered (cs # lines) = cs @ CHR 0x0D # entered lines"
  by (simp_all add: entered_def)

text \<open>With nothing ahead the loop is the one of \<open>start_shell\<close>.\<close>

lemma shell_ahead_loop:
  assumes "shell_ahead ns scs a s = Some r" and "ns = []"
  shows "shell_loop scs a s = Some r"
proof (rule shell_ahead.raw_induct [where P = "\<lambda>ns scs a s r. ns = [] \<longrightarrow> shell_loop scs a s = Some r", OF _ assms(1),
    THEN mp, OF _ assms(2)], rule impI)
  fix loop :: "nat list \<Rightarrow> u8 list \<Rightarrow> byte list \<Rightarrow> sys \<Rightarrow> (outcome \<times> u8 list) option" and ns scs a s r
  assume IH: "\<And>ns scs a s r. loop ns scs a s = Some r \<Longrightarrow> ns = [] \<longrightarrow> shell_loop scs a s = Some r"
    and body: "show_prompt s \<bind> (\<lambda>s. arr_set a 0 NUL \<bind> (\<lambda>a.
      read_ahead ns scs s \<lparr>input = a, position = 0\<rparr> \<bind> (\<lambda>(s, l, scs, ns). arr_cstr (input l) \<bind> (\<lambda>cmd.
      execute_command cmd s \<bind> (\<lambda>r. case r of Running s \<Rightarrow> let s = set_current_history (- 1) s in
          if strcmp_spec cmd ''exit'' = 0 then Some (Running s, scs) else loop ns scs (input l) s
        | Halted s \<Rightarrow> Some (Halted s, scs)))))) = Some r"
    and "ns = []"
  then obtain s1 a1 s2 l rest cmd res where "show_prompt s = Some s1" "arr_set a 0 NUL = Some a1"
    "read_line scs s1 \<lparr>input = a1, position = 0\<rparr> = Some (s2, l, rest)" "arr_cstr (input l) = Some cmd"
    "execute_command cmd s2 = Some res"
    "(case res of Running s \<Rightarrow> let s = set_current_history (- 1) s in
        if strcmp_spec cmd ''exit'' = 0 then Some (Running s, rest) else loop [] rest (input l) s
      | Halted s \<Rightarrow> Some (Halted s, rest)) = Some r" by (auto simp: option_bind_Some_iff)
  then show "shell_loop scs a s = Some r"
    by (subst shell_loop.simps) (cases res; use IH in \<open>auto simp: Let_def split: if_splits\<close>)
qed

lemma shell_loop_ahead:
  assumes "shell_loop scs a s = Some r"
  shows "shell_ahead [] scs a s = Some r"
proof (rule shell_loop.raw_induct [where P = "\<lambda>scs a s r. shell_ahead [] scs a s = Some r", OF _ assms])
  fix loop :: "u8 list \<Rightarrow> byte list \<Rightarrow> sys \<Rightarrow> (outcome \<times> u8 list) option" and scs a s r
  assume IH: "\<And>scs a s r. loop scs a s = Some r \<Longrightarrow> shell_ahead [] scs a s = Some r"
    and body: "show_prompt s \<bind> (\<lambda>s. arr_set a 0 NUL \<bind> (\<lambda>a.
      read_line scs s \<lparr>input = a, position = 0\<rparr> \<bind> (\<lambda>(s, l, scs). arr_cstr (input l) \<bind> (\<lambda>cmd.
      execute_command cmd s \<bind> (\<lambda>r. case r of Running s \<Rightarrow> let s = set_current_history (- 1) s in
          if strcmp_spec cmd ''exit'' = 0 then Some (Running s, scs) else loop scs (input l) s
        | Halted s \<Rightarrow> Some (Halted s, scs)))))) = Some r"
  then obtain s1 a1 s2 l rest cmd res where "show_prompt s = Some s1" "arr_set a 0 NUL = Some a1"
    "read_line scs s1 \<lparr>input = a1, position = 0\<rparr> = Some (s2, l, rest)" "arr_cstr (input l) = Some cmd"
    "execute_command cmd s2 = Some res"
    "(case res of Running s \<Rightarrow> let s = set_current_history (- 1) s in
        if strcmp_spec cmd ''exit'' = 0 then Some (Running s, rest) else loop rest (input l) s
      | Halted s \<Rightarrow> Some (Halted s, rest)) = Some r" by (auto simp: option_bind_Some_iff)
  then show "shell_ahead [] scs a s = Some r"
    by (subst shell_ahead.simps) (cases res; use IH in \<open>auto simp: Let_def split: if_splits\<close>)
qed

lemma shell_ahead_Nil: "shell_ahead [] scs a s = shell_loop scs a s"
  using shell_ahead_loop [of "[]" scs a s] shell_loop_ahead [of scs a s] by (metis option.exhaust)

text \<open>C3: A session typed ahead. Whatever comes in before each fetch of a key, also while commands run, and however long
  the session, as long as no more than 255 characters are ever waiting at once, the shell reads the lines one by one
  and its user finds the aliases, history, settings, directory and exit code that the abstract shell has after these
  lines; no key is lost, what was typed after them is still to be read, and the schedule goes on with the entry
  after the last Enter.\<close>

theorem session_type_ahead:
  assumes "sys_inv i s" and "hears i" and "length a = 128"
    and "pending i @ List.map_filter key_of scs = entered lines @ left"
    and "\<forall>cs \<in> set lines. set cs \<inter> {CHR 0x0D, CHR ''H'', CHR ''P''} = {}"
    and "backlog_ok ns (length (pending i)) scs"
    and "spec_session (map edits lines) (view (sh s)) = Some v"
  shows "\<exists>j b t rest. shell_ahead ns scs a s = shell_ahead (drop (length (entered lines)) ns) rest b t \<and>
    backlog_ok (drop (length (entered lines)) ns) (length (pending j)) rest \<and> sys_inv j t \<and> hears j \<and>
    pending j @ List.map_filter key_of rest = left \<and> length b = 128 \<and> view (sh t) = v"
  using assms
proof (induction lines arbitrary: ns i a s scs)
  case Nil
  then show ?case by auto
next
  case (Cons cs lines)
  have last: "\<not> last_line (edits cs) (view (sh s))"
    and spec: "spec_session (map edits lines) (spec_line (edits cs) (view (sh s))) = Some v"
    using Cons.prems(7) by (auto split: if_splits)
  let ?ns = "drop (Suc (length cs)) ns"
  have "stream i scs = cs @ CHR 0x0D # entered lines @ left" and "set cs \<inter> {CHR 0x0D, CHR ''H'', CHR ''P''} = {}"
    using Cons.prems(4,5) by (simp_all add: stream_def chars_def)
  from shell_ahead_view [OF Cons.prems(1-3) this Cons.prems(6) last] obtain j b t rest where
    t: "shell_ahead ns scs a s = shell_ahead ?ns rest b t" "sys_inv j t" "hears j" "stream j rest = entered lines @ left"
      "backlog_ok ?ns (length (pending j)) rest" "length b = 128" "view (sh t) = spec_line (edits cs) (view (sh s))"
    by auto
  have "\<exists>j' b' t' rest'. shell_ahead ?ns rest b t = shell_ahead (drop (length (entered lines)) ?ns) rest' b' t' \<and>
      backlog_ok (drop (length (entered lines)) ?ns) (length (pending j')) rest' \<and> sys_inv j' t' \<and> hears j' \<and>
      pending j' @ List.map_filter key_of rest' = left \<and> length b' = 128 \<and> view (sh t') = v"
    by (rule Cons.IH [OF t(2,3,6)]) (use t(4,5,7) spec Cons.prems(5) in \<open>simp_all add: stream_def chars_def\<close>)
  moreover have "drop (length (entered lines)) ?ns = drop (length (entered (cs # lines))) ns" by (simp add: add.commute)
  ultimately show ?case using t(1) by simp
qed

text \<open>All the keys of two lines are pressed before the shell fetches the first.\<close>

lemma session_type_ahead_witness:
  "\<exists>b t rest. shell_ahead [5] [0x26, 0x1F, 0x1C, 0x21, 0x1C] (replicate 128 NUL) live_system = shell_ahead [] rest b t \<and>
    v_code (view (sh t)) = 127 \<and> take 2 (v_history (view (sh t))) = [''f'', ''ls'']"
proof -
  obtain w where w: "spec_session [''ls'', ''f''] (view (sh live_system)) = Some w" "v_code w = 127"
    "take 2 (v_history w) = [''f'', ''ls'']" by (rule two_lines)
  have "edits ''ls'' = ''ls''" "edits ''f'' = ''f''" by (simp_all add: edits_def edited_def schar_def)
  then have s: "spec_session (map edits [''ls'', ''f'']) (view (sh live_system)) = Some w"
    using w(1) by (simp only: list.map)
  obtain i where i: "sys_inv i live_system" "listening i" using live_system_ok by blast
  then have h: "hears i" "pending i = []" by (simp_all add: hears_def listening_def)
  have "List.map_filter key_of [0x26, 0x1F, 0x1C, 0x21, 0x1C] = ''ls'' @ [CHR 0x0D] @ ''f'' @ [CHR 0x0D]"
    by (simp add: key_of_def scancode_to_ascii_def List.map_filter_def)
  then have k: "pending i @ List.map_filter key_of [0x26, 0x1F, 0x1C, 0x21, 0x1C] = entered [''ls'', ''f''] @ []"
    using h(2) by simp
  have a: "length (replicate 128 NUL) = 128" "\<forall>cs \<in> set [''ls'', ''f'']. set cs \<inter> {CHR 0x0D, CHR ''H'', CHR ''P''} = {}"
    "backlog_ok [5] (length (pending i)) [0x26, 0x1F, 0x1C, 0x21, 0x1C]"
    by (simp_all add: h(2) Let_def key_of_def scancode_to_ascii_def)
  have "drop (length (entered [''ls'', ''f''])) [5] = ([] :: nat list)" by simp
  with session_type_ahead [OF i(1) h(1) a(1) k a(2,3) s] w(2,3) show ?thesis by (metis (full_types))
qed

end
