(* ===== verification/Boot.thy ===== *)
theory Boot
  imports TerminalFacts ShellMain
begin

text \<open>
  \<^verbatim>\<open>kernel/entry.asm\<close>: the message written to video memory before \<^verbatim>\<open>kmain\<close>. \<^verbatim>\<open>kmain\<close> does not return, so the second message is
  never written. The settings of the segment registers, the stack and the floating point unit have no counterpart in
  the machine of the C code.
\<close>

section \<open>The entry code\<close>

text \<open>The loop \<^verbatim>\<open>lodsb\<close>, test, \<^verbatim>\<open>mov [edi], ax\<close>: the attribute in the upper byte, up to the terminating zero.\<close>

fun entry_print :: "u8 \<Rightarrow> byte list \<Rightarrow> int \<Rightarrow> (int \<Rightarrow> u16) \<Rightarrow> int \<Rightarrow> u16" where
  "entry_print ah [] i v = v"
| "entry_print ah (c # cs) i v =
     (if c = NUL then v
      else entry_print ah cs (i + 1) (v(i := push_bit 8 (ucast ah) OR word_of_int (uchar c))))"

definition entry_msg :: "byte list" where
  "entry_msg = ''BasedOS kernel starting...'' @ [NUL]"

definition start_message :: "terminal \<Rightarrow> terminal" where
  "start_message t = t\<lparr>video := entry_print 0x07 entry_msg 0 (video t)\<rparr>"

text \<open>\<^verbatim>\<open>_start\<close> up to \<^verbatim>\<open>call kmain\<close>, which halts the machine itself.\<close>

definition start ::
  "u32 \<Rightarrow> u32 \<Rightarrow> u32 \<Rightarrow> addr \<Rightarrow> addr \<Rightarrow> addr \<Rightarrow> byte list \<Rightarrow> u8 list \<Rightarrow> machine \<Rightarrow> sys option" where
  "start kbd_addr timer_addr idt_addr data_addr test_buf frame_addr input_array scs m =
     kmain kbd_addr timer_addr idt_addr data_addr test_buf frame_addr input_array scs
       (m\<lparr>screen := start_message (screen m)\<rparr>)"

section \<open>Facts\<close>

lemma entry_print_frame:
  "j < i \<or> i + int (length cs) \<le> j \<Longrightarrow> entry_print ah cs i v j = v j"
  by (induction cs arbitrary: i v) auto

lemma initialize_hides:
  assumes "\<forall>i. on_screen i \<or> video t' i = video t i" and "text_attribute t' = text_attribute t" and "ports t' = ports t"
  shows "terminal_initialize t' = terminal_initialize t"
proof -
  have "fold (clear_row c) [0..24] (video t') = fold (clear_row c) [0..24] (video t)" for c
    using assms(1) by (auto simp: clear_rows_eq fun_eq_iff on_screen_def)
  then show ?thesis using assms(2,3)
    by (cases t, cases t') (simp add: terminal_initialize_def update_cursor_def Let_def)
qed

text \<open>The entry code hands over to \<^verbatim>\<open>kmain\<close>: its message is gone once the terminal is initialised, and the
  kernel runs as it does without it.\<close>

theorem start_is_kmain:
  "start kbd_addr timer_addr idt_addr data_addr test_buf frame_addr input_array scs m =
   kmain kbd_addr timer_addr idt_addr data_addr test_buf frame_addr input_array scs m"
proof -
  have "terminal_initialize (start_message (screen m)) = terminal_initialize (screen m)"
    by (rule initialize_hides)
      (auto simp: start_message_def on_screen_def entry_msg_def intro!: entry_print_frame)
  then show ?thesis by (simp add: start_def kmain_def kmain_boot_def Let_def)
qed

end
