(* ===== verification/Ports.thy ===== *)
theory Ports
  imports Interrupts
begin

text \<open>
  The port instructions of \<^verbatim>\<open>include/io.h\<close> on a device. The device is a parameter: what an access of one, two or four
  bytes does to its state, and what a read returns. The rest of the model keeps a log of writes
  and takes the values read as arguments; the lemmas say that this loses nothing for the speaker, the one driver that
  reads a port it also writes.
\<close>

record 'd device =
  on_write :: "nat \<Rightarrow> u16 \<Rightarrow> u32 \<Rightarrow> 'd \<Rightarrow> 'd"
  on_read :: "nat \<Rightarrow> u16 \<Rightarrow> 'd \<Rightarrow> u32 \<times> 'd"

definition port_outb :: "'d device \<Rightarrow> u16 \<Rightarrow> u8 \<Rightarrow> 'd \<Rightarrow> 'd" where
  "port_outb dev port v d = on_write dev 1 port (ucast v) d"

definition port_inb :: "'d device \<Rightarrow> u16 \<Rightarrow> 'd \<Rightarrow> u8 \<times> 'd" where
  "port_inb dev port d = (case on_read dev 1 port d of (v, d) \<Rightarrow> (ucast v, d))"

definition port_outw :: "'d device \<Rightarrow> u16 \<Rightarrow> u16 \<Rightarrow> 'd \<Rightarrow> 'd" where
  "port_outw dev port v d = on_write dev 2 port (ucast v) d"

definition port_inw :: "'d device \<Rightarrow> u16 \<Rightarrow> 'd \<Rightarrow> u16 \<times> 'd" where
  "port_inw dev port d = (case on_read dev 2 port d of (v, d) \<Rightarrow> (ucast v, d))"

definition port_outl :: "'d device \<Rightarrow> u16 \<Rightarrow> u32 \<Rightarrow> 'd \<Rightarrow> 'd" where
  "port_outl dev port v d = on_write dev 4 port v d"

definition port_inl :: "'d device \<Rightarrow> u16 \<Rightarrow> 'd \<Rightarrow> u32 \<times> 'd" where
  "port_inl dev port d = on_read dev 4 port d"

definition port_io_wait :: "'d device \<Rightarrow> 'd \<Rightarrow> 'd" where
  "port_io_wait dev d = port_outb dev 0x80 0 d"

text \<open>\<^verbatim>\<open>beep\<close> and \<^verbatim>\<open>nosound\<close> with the read of port 0x61 where the code has it.\<close>

definition device_beep :: "'d device \<Rightarrow> u32 \<Rightarrow> 'd \<Rightarrow> 'd" where
  "device_beep dev frequency d =
     (if frequency = 0 then d
      else let divisor = 1193180 div frequency;
             d = port_outb dev 0x43 0xB6 d;
             d = port_outb dev 0x42 (ucast (divisor AND 0xFF)) d;
             d = port_outb dev 0x42 (ucast (drop_bit 8 divisor AND 0xFF)) d in
        case port_inb dev 0x61 d of (v, d) \<Rightarrow> port_outb dev 0x61 (v OR 0x03) d)"

definition device_nosound :: "'d device \<Rightarrow> 'd \<Rightarrow> 'd" where
  "device_nosound dev d = (case port_inb dev 0x61 d of (v, d) \<Rightarrow> port_outb dev 0x61 (v AND 0xFC) d)"

section \<open>The log and the device\<close>

text \<open>The device after the writes of a log.\<close>

definition replay :: "'d device \<Rightarrow> port_log \<Rightarrow> 'd \<Rightarrow> 'd" where
  "replay dev log d = fold (\<lambda>(port, v). port_outb dev port v) log d"

lemma replay_outb: "replay dev (outb port v log) d = port_outb dev port v (replay dev log d)"
  by (simp add: replay_def outb_def)

lemma replay_io_wait: "replay dev (io_wait log) d = port_io_wait dev (replay dev log d)"
  by (simp add: io_wait_def port_io_wait_def replay_outb)

text \<open>The speaker on a device whose port 0x61 can be read without changing it.\<close>

lemma beep_replays:
  assumes "\<forall>d. snd (port_inb dev 0x61 d) = d"
  shows "\<exists>v. device_beep dev f (replay dev log d) = replay dev (beep f v log) d"
proof -
  let ?d = "replay dev (outb 0x42 (ucast (drop_bit 8 (1193180 div f) AND 0xFF))
      (outb 0x42 (ucast (1193180 div f AND 0xFF)) (outb 0x43 0xB6 log))) d"
  show ?thesis
    by (intro exI [of _ "fst (port_inb dev 0x61 ?d)"])
      (simp add: device_beep_def beep_def Let_def case_prod_beta assms flip: replay_outb)
qed

lemma nosound_replays:
  assumes "\<forall>d. snd (port_inb dev 0x61 d) = d"
  shows "device_nosound dev (replay dev log d) = replay dev (nosound (fst (port_inb dev 0x61 (replay dev log d))) log) d"
proof -
  let ?d = "replay dev log d"
  have "device_nosound dev ?d = port_outb dev 0x61 (fst (port_inb dev 0x61 ?d) AND 0xFC) ?d"
    by (simp add: device_nosound_def case_prod_beta assms)
  then show ?thesis by (simp add: nosound_def replay_outb)
qed

text \<open>So the two notes of a beep leave such a device as the log of the model says.\<close>

end
