(* ===== verification/Headers.thy ===== *)
theory Headers
  imports VfsTypes Terminal
begin

text \<open>
  The constants of \<^verbatim>\<open>include/stdint.h\<close> and of \<^verbatim>\<open>include/sys/types.h\<close>, with \<^verbatim>\<open>struct stat\<close> and the macros that
  read a file's mode, and the flags of \<^verbatim>\<open>include/fs/vfs.h\<close> that no function uses. The lemmas show that the limits
  are those of the machine words the development uses, that a mode has at most one file type, and
  which tests of a node's type tell a directory.
\<close>

section \<open>Limits\<close>

definition INT8_MIN :: int where
  "INT8_MIN = - 128"

definition INT16_MIN :: int where
  "INT16_MIN = - 32768"

definition INT32_MIN :: int where
  "INT32_MIN = - 2147483647 - 1"

definition INT64_MIN :: int where
  "INT64_MIN = - 9223372036854775807 - 1"

definition INT8_MAX :: int where
  "INT8_MAX = 127"

definition INT16_MAX :: int where
  "INT16_MAX = 32767"

definition INT32_MAX :: int where
  "INT32_MAX = 2147483647"

definition INT64_MAX :: int where
  "INT64_MAX = 9223372036854775807"

definition UINT8_MAX :: int where
  "UINT8_MAX = 255"

definition UINT16_MAX :: int where
  "UINT16_MAX = 65535"

definition UINT32_MAX :: int where
  "UINT32_MAX = 4294967295"

definition UINT64_MAX :: int where
  "UINT64_MAX = 18446744073709551615"

definition UINTPTR_MAX :: int where
  "UINTPTR_MAX = UINT32_MAX"

definition INTPTR_MAX :: int where
  "INTPTR_MAX = INT32_MAX"

definition PTRDIFF_MAX :: int where
  "PTRDIFF_MAX = INT32_MAX"

definition SIZE_MAX :: int where
  "SIZE_MAX = UINT32_MAX"

definition INTPTR_MIN :: int where
  "INTPTR_MIN = INT32_MIN"

definition PTRDIFF_MIN :: int where
  "PTRDIFF_MIN = INT32_MIN"

definition WCHAR_MIN :: int where
  "WCHAR_MIN = INT32_MIN"

definition WCHAR_MAX :: int where
  "WCHAR_MAX = INT32_MAX"

definition WINT_MIN :: int where
  "WINT_MIN = 0"

definition WINT_MAX :: int where
  "WINT_MAX = 65535"

lemmas limit_defs =
  INT8_MIN_def INT16_MIN_def INT32_MIN_def INT64_MIN_def INT8_MAX_def
  INT16_MAX_def INT32_MAX_def INT64_MAX_def UINT8_MAX_def UINT16_MAX_def
  UINT32_MAX_def UINT64_MAX_def UINTPTR_MAX_def INTPTR_MAX_def PTRDIFF_MAX_def
  SIZE_MAX_def INTPTR_MIN_def PTRDIFF_MIN_def WCHAR_MIN_def WCHAR_MAX_def
  WINT_MIN_def WINT_MAX_def

text \<open>The signed and the unsigned values of a word.\<close>

lemma sint_values: "range (sint :: 'a::len word \<Rightarrow> int) = {- (2 ^ (LENGTH('a) - 1)) ..< 2 ^ (LENGTH('a) - 1)}"
proof (intro equalityI subsetI)
  show "z \<in> {- (2 ^ (LENGTH('a) - 1)) ..< 2 ^ (LENGTH('a) - 1)}" if "z \<in> range (sint :: 'a word \<Rightarrow> int)" for z
    using that sint_ge sint_lt by auto
next
  fix z :: int
  assume "z \<in> {- (2 ^ (LENGTH('a) - 1)) ..< 2 ^ (LENGTH('a) - 1)}"
  then have "sint (word_of_int z :: 'a word) = z"
    by (simp add: signed_of_int signed_take_bit_int_eq_self)
  then show "z \<in> range (sint :: 'a word \<Rightarrow> int)" by (metis rangeI)
qed

lemma uint_values: "range (uint :: 'a::len word \<Rightarrow> int) = {0 ..< 2 ^ LENGTH('a)}"
proof (intro equalityI subsetI)
  fix z :: int
  assume "z \<in> {0 ..< 2 ^ LENGTH('a)}"
  then have "uint (word_of_int z :: 'a word) = z"
    by (simp add: unsigned_of_int take_bit_int_eq_self)
  then show "z \<in> range (uint :: 'a word \<Rightarrow> int)" by (metis rangeI)
qed auto

lemma between: "{a ..< b} = {a .. b - 1}" for a b :: int
  by auto

lemma signed_limits:
  "range (sint :: u8 \<Rightarrow> int) = {INT8_MIN .. INT8_MAX}" "range (sint :: u16 \<Rightarrow> int) = {INT16_MIN .. INT16_MAX}"
  "range (sint :: u32 \<Rightarrow> int) = {INT32_MIN .. INT32_MAX}" "range (sint :: 64 word \<Rightarrow> int) = {INT64_MIN .. INT64_MAX}"
  by (simp_all add: sint_values between limit_defs)

lemma unsigned_limits:
  "range (uint :: u8 \<Rightarrow> int) = {0 .. UINT8_MAX}" "range (uint :: u16 \<Rightarrow> int) = {0 .. UINT16_MAX}"
  "range (uint :: u32 \<Rightarrow> int) = {0 .. UINT32_MAX}" "range (uint :: 64 word \<Rightarrow> int) = {0 .. UINT64_MAX}"
  by (simp_all add: uint_values between limit_defs)

section \<open>Files\<close>

record stat =
  st_dev :: u32
  st_ino :: u32
  st_mode :: u32
  st_nlink :: u32
  st_uid :: u32
  st_gid :: u32
  st_rdev :: u32
  st_size :: u32
  st_blksize :: u32
  st_blocks :: u32
  st_atime :: u32
  st_mtime :: u32
  st_ctime :: u32

definition S_IFMT :: u32 where
  "S_IFMT = 0xF000"

definition S_IFSOCK :: u32 where
  "S_IFSOCK = 0xC000"

definition S_IFLNK :: u32 where
  "S_IFLNK = 0xA000"

definition S_IFREG :: u32 where
  "S_IFREG = 0x8000"

definition S_IFBLK :: u32 where
  "S_IFBLK = 0x6000"

definition S_IFDIR :: u32 where
  "S_IFDIR = 0x4000"

definition S_IFCHR :: u32 where
  "S_IFCHR = 0x2000"

definition S_IFIFO :: u32 where
  "S_IFIFO = 0x1000"

definition S_ISUID :: u32 where
  "S_ISUID = 0x800"

definition S_ISGID :: u32 where
  "S_ISGID = 0x400"

definition S_ISVTX :: u32 where
  "S_ISVTX = 0x200"

definition S_IRWXU :: u32 where
  "S_IRWXU = 0x1C0"

definition S_IRUSR :: u32 where
  "S_IRUSR = 0x100"

definition S_IWUSR :: u32 where
  "S_IWUSR = 0x80"

definition S_IXUSR :: u32 where
  "S_IXUSR = 0x40"

definition S_IRWXG :: u32 where
  "S_IRWXG = 0x38"

definition S_IRGRP :: u32 where
  "S_IRGRP = 0x20"

definition S_IWGRP :: u32 where
  "S_IWGRP = 0x10"

definition S_IXGRP :: u32 where
  "S_IXGRP = 0x8"

definition S_IRWXO :: u32 where
  "S_IRWXO = 0x7"

definition S_IROTH :: u32 where
  "S_IROTH = 0x4"

definition S_IWOTH :: u32 where
  "S_IWOTH = 0x2"

definition S_IXOTH :: u32 where
  "S_IXOTH = 0x1"

lemmas mode_defs =
  S_IFMT_def S_IFSOCK_def S_IFLNK_def S_IFREG_def S_IFBLK_def S_IFDIR_def
  S_IFCHR_def S_IFIFO_def S_ISUID_def S_ISGID_def S_ISVTX_def S_IRWXU_def
  S_IRUSR_def S_IWUSR_def S_IXUSR_def S_IRWXG_def S_IRGRP_def S_IWGRP_def
  S_IXGRP_def S_IRWXO_def S_IROTH_def S_IWOTH_def S_IXOTH_def

definition S_ISREG :: "u32 \<Rightarrow> bool" where
  "S_ISREG m \<longleftrightarrow> m AND S_IFMT = S_IFREG"

definition S_ISDIR :: "u32 \<Rightarrow> bool" where
  "S_ISDIR m \<longleftrightarrow> m AND S_IFMT = S_IFDIR"

definition S_ISCHR :: "u32 \<Rightarrow> bool" where
  "S_ISCHR m \<longleftrightarrow> m AND S_IFMT = S_IFCHR"

definition S_ISBLK :: "u32 \<Rightarrow> bool" where
  "S_ISBLK m \<longleftrightarrow> m AND S_IFMT = S_IFBLK"

definition S_ISFIFO :: "u32 \<Rightarrow> bool" where
  "S_ISFIFO m \<longleftrightarrow> m AND S_IFMT = S_IFIFO"

definition S_ISLNK :: "u32 \<Rightarrow> bool" where
  "S_ISLNK m \<longleftrightarrow> m AND S_IFMT = S_IFLNK"

definition S_ISSOCK :: "u32 \<Rightarrow> bool" where
  "S_ISSOCK m \<longleftrightarrow> m AND S_IFMT = S_IFSOCK"

lemmas type_defs =
  S_ISREG_def S_ISDIR_def S_ISCHR_def S_ISBLK_def S_ISFIFO_def S_ISLNK_def S_ISSOCK_def

text \<open>A mode has at most one type, which its permissions do not change.\<close>

lemma one_type: "length (filter id [S_ISREG m, S_ISDIR m, S_ISCHR m, S_ISBLK m, S_ISFIFO m, S_ISLNK m, S_ISSOCK m]) \<le> 1"
  by (simp add: type_defs mode_defs)

lemma permissions: "S_IRWXU = S_IRUSR OR S_IWUSR OR S_IXUSR" "S_IRWXG = S_IRGRP OR S_IWGRP OR S_IXGRP"
  "S_IRWXO = S_IROTH OR S_IWOTH OR S_IXOTH"
  "S_IFMT AND (S_ISUID OR S_ISGID OR S_ISVTX OR S_IRWXU OR S_IRWXG OR S_IRWXO) = 0"
  by (simp_all add: mode_defs)

section \<open>Nodes and opening\<close>

text \<open>The node types and flags of \<^verbatim>\<open>include/fs/vfs.h\<close> beyond those that the code uses.\<close>

definition FS_CHARDEVICE :: u32 where
  "FS_CHARDEVICE = 0x03"

definition FS_BLOCKDEVICE :: u32 where
  "FS_BLOCKDEVICE = 0x04"

definition FS_PIPE :: u32 where
  "FS_PIPE = 0x05"

definition FS_SYMLINK :: u32 where
  "FS_SYMLINK = 0x06"

definition FS_MOUNTPOINT :: u32 where
  "FS_MOUNTPOINT = 0x08"

definition O_TRUNC :: u32 where
  "O_TRUNC = 0x0200"

definition O_APPEND :: u32 where
  "O_APPEND = 0x0400"

lemmas node_type_defs =
  FS_CHARDEVICE_def FS_BLOCKDEVICE_def FS_PIPE_def FS_SYMLINK_def FS_MOUNTPOINT_def
  FS_DIRECTORY_def FS_FILE_def

text \<open>The types are numbers: only the masked comparison that \<^verbatim>\<open>ls\<close> makes tells a directory, while the test
  of a bit that \<^verbatim>\<open>cd\<close> makes takes character devices and symbolic links for directories too.\<close>

lemma directory_tests:
  "ty \<in> {FS_FILE, FS_CHARDEVICE, FS_BLOCKDEVICE, FS_PIPE, FS_SYMLINK} \<Longrightarrow> ty AND 0x7 \<noteq> FS_DIRECTORY"
  "FS_CHARDEVICE AND FS_DIRECTORY \<noteq> 0" "FS_SYMLINK AND FS_DIRECTORY \<noteq> 0"
  by (auto simp: node_type_defs)

section \<open>Colours\<close>

text \<open>The colours of \<^verbatim>\<open>include/terminal.h\<close>; the code writes their numbers.\<close>

definition COLOR_BLACK :: u8 where "COLOR_BLACK = 0"
definition COLOR_BLUE :: u8 where "COLOR_BLUE = 1"
definition COLOR_GREEN :: u8 where "COLOR_GREEN = 2"
definition COLOR_CYAN :: u8 where "COLOR_CYAN = 3"
definition COLOR_RED :: u8 where "COLOR_RED = 4"
definition COLOR_MAGENTA :: u8 where "COLOR_MAGENTA = 5"
definition COLOR_BROWN :: u8 where "COLOR_BROWN = 6"
definition COLOR_LIGHT_GRAY :: u8 where "COLOR_LIGHT_GRAY = 7"
definition COLOR_DARK_GRAY :: u8 where "COLOR_DARK_GRAY = 8"
definition COLOR_LIGHT_BLUE :: u8 where "COLOR_LIGHT_BLUE = 9"
definition COLOR_LIGHT_GREEN :: u8 where "COLOR_LIGHT_GREEN = 10"
definition COLOR_LIGHT_CYAN :: u8 where "COLOR_LIGHT_CYAN = 11"
definition COLOR_LIGHT_RED :: u8 where "COLOR_LIGHT_RED = 12"
definition COLOR_LIGHT_MAGENTA :: u8 where "COLOR_LIGHT_MAGENTA = 13"
definition COLOR_YELLOW :: u8 where "COLOR_YELLOW = 14"
definition COLOR_WHITE :: u8 where "COLOR_WHITE = 15"

lemmas color_defs =
  COLOR_BLACK_def COLOR_BLUE_def COLOR_GREEN_def COLOR_CYAN_def COLOR_RED_def COLOR_MAGENTA_def
  COLOR_BROWN_def COLOR_LIGHT_GRAY_def COLOR_DARK_GRAY_def COLOR_LIGHT_BLUE_def COLOR_LIGHT_GREEN_def
  COLOR_LIGHT_CYAN_def COLOR_LIGHT_RED_def COLOR_LIGHT_MAGENTA_def COLOR_YELLOW_def COLOR_WHITE_def

text \<open>An attribute holds both colours it was made of, for every pair of the sixteen.\<close>

lemma setcolor_holds_both:
  assumes "fg < 16" and "bg < 16"
  shows "text_attribute (terminal_setcolor fg bg t) AND 0x0F = fg"
    and "drop_bit 4 (text_attribute (terminal_setcolor fg bg t)) = bg"
proof -
  have m: "(0x0F :: u8) = mask 4" by (simp add: mask_eq_exp_minus_1)
  have high: "n < 4" if "c < 16" "bit c n" for c :: u8 and n
  proof (rule ccontr)
    assume "\<not> n < 4"
    then have "(2 :: nat) ^ 4 \<le> 2 ^ n" by (intro power_increasing) simp_all
    then have "unat c < 2 ^ n" using that(1) by (simp add: word_less_nat_alt)
    then have "\<not> bit (unat c) n" by (simp add: bit_iff_odd)
    then show False using that(2) by (auto simp: bit_unsigned_iff dest: bit_imp_le_length)
  qed
  show "text_attribute (terminal_setcolor fg bg t) AND 0x0F = fg"
    unfolding m by (rule bit_word_eqI) (auto simp: terminal_setcolor_def m bit_simps dest: high [OF assms(1)])
  show "drop_bit 4 (text_attribute (terminal_setcolor fg bg t)) = bg"
    by (rule bit_word_eqI)
      (auto simp: terminal_setcolor_def m bit_simps dest: high [OF assms(1)] high [OF assms(2)])
qed

end
