(* ===== verification/Spec2Isabelle.thy ===== *)
theory Spec2Isabelle
  imports LibProps DeviceProps FsProps KernelProps ShellProps SystemProps CommandProps KeyRace
    HeapProps MountedProps PathProps SessionProps IrqProps ClockProps SessionAhead Boot
    Ports Headers
begin

text \<open>
  \<^bold>\<open>A verification library of BasedOS\<close>, a small 32-bit x86 kernel: boot code in assembly, a
  freestanding C library, a heap, a text terminal, a keyboard driver, a virtual file system with one
  driver, a timer-driven task switch, and a shell. The C code is modelled as it is written and
  run through the kernel of Isabelle; the theorems say what it does, including where that is not
  what it means to do.

  \<^bold>\<open>The program.\<close> \<^verbatim>\<open>kmain\<close> (\<^verbatim>\<open>kernel/kernel.c\<close>) clears the screen, sets up memory, interrupts and
  the scheduler, initialises and mounts the file system, runs the self test of \<^verbatim>\<open>fs/fs_test.c\<close> and
  enters the shell (\<^verbatim>\<open>kernel/shell.c\<close>). Every subsystem prints with \<^verbatim>\<open>printk\<close> and \<^verbatim>\<open>putchar\<close>
  (\<^verbatim>\<open>kernel/terminal.c\<close>), takes its memory from \<^verbatim>\<open>kmalloc\<close> (\<^verbatim>\<open>kernel/memory.c\<close>) and its string
  routines from \<^verbatim>\<open>lib/string.c\<close>. The shell reads keys from the buffer that the keyboard interrupt fills
  (\<^verbatim>\<open>kernel/interrupts.c\<close>), plays sounds (\<^verbatim>\<open>kernel/sound.c\<close>) and reaches files through the
  descriptors and nodes of \<^verbatim>\<open>fs/vfs.c\<close>, whose function pointers lead to \<^verbatim>\<open>fs/memfs.c\<close>.
\<close>

text \<open>
  \<^bold>\<open>Where things are.\<close> The model, in the order of the code:
  \<^item> \<open>Prelude\<close>, \<open>CMem\<close>, \<open>CArray\<close>: machine types, bytes and characters; the memory of C objects;
    \<^verbatim>\<open>char\<close> arrays that are objects of their own.
  \<^item> \<open>CString\<close>: every routine of \<^verbatim>\<open>lib/string.c\<close>, by the names of the code.
  \<^item> \<open>Kheap\<close>: \<^verbatim>\<open>kernel/memory.c\<close>; \<open>Terminal\<close>: \<^verbatim>\<open>kernel/terminal.c\<close>; \<open>VarArgs\<close>: \<^verbatim>\<open>printk\<close> again, with its format
    and arguments in memory and the \<^verbatim>\<open>va_\<close> macros of \<^verbatim>\<open>basedos.h\<close>, and the proof that both agree; \<open>Interrupts\<close>:
    \<^verbatim>\<open>kernel/interrupts.c\<close> and \<^verbatim>\<open>kernel/sound.c\<close>.
  \<^item> \<open>VfsTypes\<close>, \<open>Memfs\<close>, \<open>Vfs\<close>: the structs of \<^verbatim>\<open>include/fs/vfs.h\<close> and the state of the file system,
    \<^verbatim>\<open>fs/memfs.c\<close>, \<^verbatim>\<open>fs/vfs.c\<close>. The descriptor operations \<^verbatim>\<open>open\<close>, \<^verbatim>\<open>close\<close>, \<^verbatim>\<open>read\<close>, \<^verbatim>\<open>write\<close> are
    \<open>open_fd\<close>, \<open>close_fd\<close>, \<open>read_fd\<close>, \<open>write_fd\<close>.
  \<^item> \<open>Kernel\<close>: \<^verbatim>\<open>kernel/kernel.c\<close> but for \<^verbatim>\<open>kmain\<close> and \<^verbatim>\<open>yield\<close>. The record \<open>machine\<close> holds the states of all
    components. The kernel's \<^verbatim>\<open>show_system_info\<close>, which nothing calls, is \<open>kernel_system_info\<close>.
  \<^item> \<open>FsTest\<close>: \<^verbatim>\<open>fs/fs_test.c\<close>; \<open>Headers\<close>: the limits, file modes, colours and unused flags of the
    headers; \<open>Ports\<close>: the port instructions of \<^verbatim>\<open>include/io.h\<close> on a device, and the speaker on it.
  \<^item> \<open>Shell\<close> (tables, output, parser, calculator), \<open>ShellExec\<close> (one definition per branch of
    \<^verbatim>\<open>execute_command\<close>), \<open>ShellMain\<close> (line editor, main loop, and \<^verbatim>\<open>kmain\<close>): \<^verbatim>\<open>kernel/shell.c\<close>. The
    record \<open>sys\<close> is the machine with the shell's statics.
  \<^item> \<open>Gdt\<close> and \<open>Boot\<close>: the descriptor table and load address of \<^verbatim>\<open>boot/boot.asm\<close>, the message of
    \<^verbatim>\<open>kernel/entry.asm\<close>. \<open>IrqFrame\<close>: registers and stack, entry through a gate by an interrupt or by the
    instruction \<^verbatim>\<open>int\<close>, the assembly wrapper of the keyboard handler, and \<^verbatim>\<open>yield\<close>; compiled C functions are a parameter that keeps the calling convention.

  The proofs: \<open>CStringMem\<close>, \<open>CStringScan\<close>, \<open>CStringNum\<close> (contracts of the library), \<open>TerminalFacts\<close>,
  \<open>FileDriver\<close>, \<open>MemfsFacts\<close>, \<open>VfsFacts\<close>, \<open>KernelFacts\<close>, \<open>ShellFacts\<close>, \<open>ShellTables\<close>, \<open>LineFacts\<close>,
  \<open>SystemFacts\<close>, \<open>BootFacts\<close>; \<open>FsTyped\<close>, \<open>FsCalls\<close>, \<open>FsRuns\<close>, \<open>MachineTyped\<close> (the heap laid out in typed
  structs, kept by every file system call, by runs of them, and by the kernel's functions); \<open>MountedFacts\<close> (lookups
  and descriptors under a mounted root); \<open>SessionSpec\<close> (an abstract shell), \<open>SessionFacts\<close> (commands and
  lines against it) and \<open>SessionEnd\<close> (the greeting, and how a run ends). The properties, each with an instance at a concrete state: \<open>LibProps\<close>,
  \<open>DeviceProps\<close>, \<open>FsProps\<close>, \<open>KernelProps\<close>, \<open>ShellProps\<close>, \<open>SystemProps\<close> for what spans the components,
  \<open>CommandProps\<close>, which follows typed lines to their effect, \<open>HeapProps\<close> for the typed heap, \<open>MountedProps\<close>
  for the file commands over a mounted root, \<open>PathProps\<close> for paths in a tree of directories, and \<open>SessionProps\<close> for sessions against the abstract shell. \<open>Observe\<close> shows
  what commands leave alone and \<open>ClockProps\<close> that the kernel's side is among it. \<open>TypeAhead\<close> and \<open>SessionAhead\<close> are
  about keys that arrive while the shell is busy, for one line and for sessions. \<open>KeyRace\<close> holds a second, finer model of
  \<^verbatim>\<open>keyboard_getchar\<close>, step by step with interrupts anywhere in it, with its properties; \<open>IrqFacts\<close> and
  \<open>IrqProps\<close> follow an interrupt from its gate to the return.

  Interfaces are locales, each interpreted on the code's own definitions: \<open>observation\<close> and its extension
  \<open>kernel_observation\<close> (what commands cannot change of a state, \<open>shell_seen\<close> and \<open>kernel_seen\<close>), \<open>allocator\<close> (the heap, \<open>km\<close>),
  \<open>console\<close> (output by characters, \<open>vga\<close>), \<open>bounded_queue\<close> (the key buffer, \<open>kb\<close>), \<open>file_driver\<close> (what the
  virtual file system asks of a driver, \<open>memfs\<close>), \<open>name_table\<close> (the alias table, \<open>aliases\<close>) and its extension
  \<open>viewed_table\<close> (what an entry changes in the abstract shell, \<open>alias_seen\<close>).
\<close>

text \<open>
  \<^bold>\<open>What the lemmas show.\<close>
  \<^item> Library: copying, concatenating, comparing and scanning agree with the list functions on any
    memory that holds the strings; \<^verbatim>\<open>memmove\<close> for every overlap; \<^verbatim>\<open>itoa\<close> and \<^verbatim>\<open>atoi\<close> on all 32-bit values.
  \<^item> Heap: blocks lie in the heap and apart; nothing is ever freed; the limit test wraps.
  \<^item> Terminal: output never leaves the screen; \<^verbatim>\<open>printk\<close> writes the rendering of its format;
    scrolling. Keyboard: the buffer is a queue of 255 keys. A call of \<^verbatim>\<open>keyboard_getchar\<close> interrupted in
    its loop is as good as atomic; an interrupt between the loop and the store of the position loses
    a key, and one between the test and \<^verbatim>\<open>hlt\<close> leaves its key waiting. A keyboard interrupt leaves the
    interrupted program as it was; one of the timer would not, and \<^verbatim>\<open>yield\<close> comes back with the stack two
    words low. Keys typed ahead of the shell, before any of its fetches, give the same lines as keys it waits for, as
    long as no more than 255 are ever waiting at once.
  \<^item> Files: \<^verbatim>\<open>memfs_write\<close> overlays the contents and \<^verbatim>\<open>memfs_read\<close> gives them back, also through
    descriptors; directories; \<^verbatim>\<open>vfs_open\<close> resolves every path in the tree of directories under the root;
    the descriptor table.
  \<^item> Kernel: initialisation, the timer going round the ring of tasks, task creation.
  \<^item> Shell: the parser cuts a line into its words; the editor stays in its buffer for every sequence of
    keys; aliases are a map for names that fit their array, and what a longer name does is stated;
    the history is a ring; the calculator is 32-bit arithmetic.
  \<^item> System: the boot sequence ends with the self test failing to create its file; the prompt is reached
    and waits for ever, interrupts being off; were they on, every command line is executed to its end
    but for one kind that faults, the division of the smallest number by -1, and every prompt after it is in order again.
  \<^item> Typed heap: nodes, inodes, tasks, stacks and the contents of files each have a piece of the heap to
    themselves and pointers lead to structs of their type or are null; every file system call and every
    other function of the kernel called under its conditions keeps this and, but for the shutdown, returns, from
    the boot on. Creating a task changes the successor of the queue's head and no other record.
  \<^item> Sessions: an abstract shell with a list of aliases, a list of ten lines, three settings, the
    directory and the exit code says what each
    line does; the shell of the code refines it, line by line and for whole sessions, and from the boot on for
    every sequence of keys, were \<^verbatim>\<open>enable_interrupts\<close> called after the initialisation. No command that comes
    back touches the kernel's clock, memory figures or tasks.
  \<^item> Mounted files: were the mounted node the root, \<^verbatim>\<open>ls\<close> would list its entries and \<^verbatim>\<open>write\<close> store
    its words; \<^verbatim>\<open>cat\<close> shows nothing all the same, and every lookup leaks a node.

  \<^bold>\<open>Modelling decisions.\<close> A result \<open>None\<close> is undefined behaviour or a wait that never ends: an access
  outside every object, a null pointer followed, a division that traps, a key that does not come. Thus a
  theorem with \<open>= Some\<close> says that the code returns. Loops whose end depends on memory are
  \<open>partial_function (option)\<close>; there is no fuel. Structs (nodes, inodes, tasks) live in typed stores indexed by
  the addresses that \<^verbatim>\<open>kmalloc\<close> returns, raw bytes in a byte memory; \<open>heap_stays_typed\<close> shows that no write
  of bytes falls on a struct, so that this is what the C program does. Function pointers to a driver are
  \<open>driver option\<close>. The addresses that the linker or the stack give (heap array, handlers, line buffers) are
  arguments or fields. Static variables start as zero, as C has it, though nothing in the image or the entry code
  clears them. Port writes are recorded in a log per device, port 0x61 is read from \<open>speaker_in\<close>. A
  keyboard interrupt is taken only while \<^verbatim>\<open>keyboard_getchar\<close> waits, and the keys are a list of scancodes
  given in advance; \<open>KeyRace\<close> lifts this for one call and shows
  the model to be one of its runs, \<open>TypeAhead\<close> and \<open>SessionAhead\<close> lift it for
  lines and sessions, with a schedule of how many scancodes arrive before each fetch. A function that halts for good yields the state in which it
  halts (\<open>Halted\<close>, \<open>Halts_for_good\<close>), and nothing follows it. Command words are strings, compared by \<open>strcmp_spec\<close> and read by \<open>atoi_spec\<close>, which
  are proved to be what \<^verbatim>\<open>strcmp\<close> and \<^verbatim>\<open>atoi\<close> compute on memory. The unused \<^verbatim>\<open>device\<close> argument of \<^verbatim>\<open>vfs_mount\<close>
  is left out. An entry of the alias table is one object of 160 bytes, as it is in the memory of the program: \<^verbatim>\<open>strcpy\<close> and
  \<^verbatim>\<open>strcmp\<close> on the 32 bytes of the name run on into the 128 bytes of the command. \<open>timer_callback\<close> takes the stack registers of
  the task it interrupts and gives back those of the next: \<open>KernelProps\<close> and \<open>HeapProps\<close> are about it as a function, while its
  entry through the gate and its \<^verbatim>\<open>ret\<close> are in \<open>IrqFrame\<close>, where \<^verbatim>\<open>yield\<close> raises it with \<^verbatim>\<open>int $0x20\<close>; what the compiler
  puts around that instruction is not in the source.

  \<^bold>\<open>Bounds.\<close> The boot sequence needs 5147 bytes of free heap out of 65536 (5150 in \<open>HeapProps\<close>, where every block
  is counted with its padding). A lookup takes 312 bytes for its node and up to 3 for alignment. A command line has at most 126
  characters, so the 128-byte buffers of the parser, the history and the editor and the 1024-byte buffer of
  \<^verbatim>\<open>write\<close> and \<^verbatim>\<open>cat\<close> hold it. Sizes near the 32-bit limit are theorems of their own.

  \<^bold>\<open>Not modelled.\<close> The boot sector but for its descriptor table, and the entry code but for its message;
  what a device does with a port access, a parameter of \<open>Ports\<close>; prototypes, further names of types
  and the literal macros of the headers; \<^verbatim>\<open>kernel/io.c\<close> and \<^verbatim>\<open>lib/stdio.c\<close>, which are empty; \<^verbatim>\<open>strstr\<close> and
  \<^verbatim>\<open>strtok_r\<close>, declared and defined nowhere; timer interrupts arriving between two instructions, which the
  interrupt mask of \<^verbatim>\<open>init_interrupts\<close> excludes.
\<close>

end
